(* ===== verification/Prelude.thy ===== *)
theory Prelude
  imports Main "HOL-Library.Word" "HOL-Library.Multiset"
begin

text \<open>
  Shared vocabulary of the development: the types of the Rust standard library and of the
  libp2p identifiers that every component handles, multisets of map values, and the generic
  machine (a step function that may panic, run over a list of inputs) with the two contracts
  the components are interpreted in.

  A libp2p identifier is only compared, stored and printed by the program, so it is its bytes;
  whatever the program does to it beyond comparing (parsing, printing, looking for a peer id in
  an address) is a field of \<open>lib\<close>, the third-party functions the model is parameterised by.
\<close>

section \<open>Values\<close>

type_synonym bytes = "8 word list"

datatype peer_id = PeerId bytes
datatype multiaddr = Multiaddr bytes
datatype connection_id = ConnectionId nat
datatype listener_id = ListenerId nat

text \<open>The identity of a \<open>oneshot\<close> channel, of which the program holds the sending half, and the
  identity of an \<open>mpsc\<close> channel whose sending half is cloned into upgrades.\<close>

datatype oneshot = Oneshot nat
datatype mpsc_tx = MpscTx nat

datatype 'a poll = Pending | Ready 'a

datatype panic = Panic string

text \<open>\<open>std::io::Error\<close>: a bare kind (\<open>io::Error::from\<close>) or a kind with a payload, carried by its
  \<open>Display\<close> text (\<open>io::Error::new\<close>).\<close>

datatype error_kind = KindConnectionRefused | KindTimedOut | KindOther | KindBrokenPipe

datatype io_error = IoSimple error_kind | IoCustom error_kind string

text \<open>
  Third-party functions on identifiers: \<open>Display\<close> and \<open>FromStr\<close> of \<open>PeerId\<close> and \<open>Multiaddr\<close>
  (a failed parse is the \<open>Display\<close> text of its error), \<open>PeerId::try_from_multiaddr\<close>, the
  \<open>Display\<close> text of an \<open>io::Error\<close> and the \<open>Debug\<close> text of an \<open>Option<String>\<close>.
\<close>

record lib =
  show_peer :: "peer_id \<Rightarrow> string"
  show_addr :: "multiaddr \<Rightarrow> string"
  parse_peer :: "string \<Rightarrow> string + peer_id"
  parse_multiaddr :: "string \<Rightarrow> string + multiaddr"
  peer_of_addr :: "multiaddr \<Rightarrow> peer_id option"
  show_io :: "io_error \<Rightarrow> string"
  debug_reason :: "string option \<Rightarrow> string"

text \<open>The documented behaviour the protocol relies on: printing an identifier and parsing the
  text gives the identifier back.\<close>

definition lib_roundtrip :: "lib \<Rightarrow> bool" where
  "lib_roundtrip L \<longleftrightarrow>
     (\<forall>p. parse_peer L (show_peer L p) = Inr p) \<and>
     (\<forall>a. parse_multiaddr L (show_addr L a) = Inr a)"

lemma lib_roundtrip_peer: "lib_roundtrip L \<Longrightarrow> parse_peer L (show_peer L p) = Inr p"
  by (simp add: lib_roundtrip_def)

lemma lib_roundtrip_addr: "lib_roundtrip L \<Longrightarrow> parse_multiaddr L (show_addr L a) = Inr a"
  by (simp add: lib_roundtrip_def)

text \<open>A concrete library, for evaluating the model: an identifier prints as its bytes.\<close>

definition char_of_byte :: "8 word \<Rightarrow> char" where
  "char_of_byte w = char_of (unat w)"

definition byte_of_char :: "char \<Rightarrow> 8 word" where
  "byte_of_char c = word_of_nat (of_char c)"

lemma byte_of_char_of_byte [simp]: "byte_of_char (char_of_byte w) = w"
proof -
  have "unat w < 2 ^ LENGTH(8)"
    by (rule unsigned_less)
  then show ?thesis
    by (simp add: byte_of_char_def char_of_byte_def)
qed

lemma map_byte_char [simp]: "map (byte_of_char \<circ> char_of_byte) bs = bs"
  by (induction bs) simp_all

fun peer_bytes :: "peer_id \<Rightarrow> bytes" where
  "peer_bytes (PeerId bs) = bs"

fun addr_bytes :: "multiaddr \<Rightarrow> bytes" where
  "addr_bytes (Multiaddr bs) = bs"

definition raw_lib :: lib where
  "raw_lib = \<lparr>show_peer = map char_of_byte \<circ> peer_bytes,
     show_addr = map char_of_byte \<circ> addr_bytes,
     parse_peer = (\<lambda>s. Inr (PeerId (map byte_of_char s))),
     parse_multiaddr = (\<lambda>s. Inr (Multiaddr (map byte_of_char s))),
     peer_of_addr = (\<lambda>a. case addr_bytes a of [] \<Rightarrow> None | b # bs \<Rightarrow> Some (PeerId [b])),
     show_io = (\<lambda>e. ''io error''),
     debug_reason = (\<lambda>r. case r of None \<Rightarrow> ''None'' | Some s \<Rightarrow> s)\<rparr>"

lemma raw_lib_roundtrip: "lib_roundtrip raw_lib"
proof -
  have "parse_peer raw_lib (show_peer raw_lib p) = Inr p" for p
    by (cases p) (simp add: raw_lib_def)
  moreover have "parse_multiaddr raw_lib (show_addr raw_lib a) = Inr a" for a
    by (cases a) (simp add: raw_lib_def)
  ultimately show ?thesis
    by (simp add: lib_roundtrip_def)
qed

text \<open>Mapping the success side of a result keeps a panic or an error what it was.\<close>

lemma map_sum_Inl_iff [simp]:
  "map_sum id f x = Inl p \<longleftrightarrow> x = Inl p" "Inl p = map_sum id f x \<longleftrightarrow> x = Inl p"
  by (cases x; auto)+

section \<open>The values of a finite map\<close>

definition ran_mset :: "('k \<rightharpoonup> 'v) \<Rightarrow> 'v multiset" where
  "ran_mset m = image_mset (the \<circ> m) (mset_set (dom m))"

lemma ran_mset_empty [simp]: "ran_mset Map.empty = {#}"
  by (simp add: ran_mset_def)

lemma ran_mset_split:
  assumes "finite (dom m)" and "m k = Some v"
  shows "ran_mset m = add_mset v (ran_mset (m(k := None)))"
proof -
  have "dom m = insert k (dom (m(k := None)))"
    using assms(2) by auto
  moreover have "image_mset (the \<circ> m) (mset_set (dom (m(k := None))))
      = image_mset (the \<circ> m(k := None)) (mset_set (dom (m(k := None))))"
    using assms(1) by (intro image_mset_cong) auto
  moreover have "k \<notin> dom (m(k := None))" and "finite (dom (m(k := None)))"
    using assms(1) by simp_all
  ultimately have "image_mset (the \<circ> m) (mset_set (dom m))
      = add_mset (the (m k)) (image_mset (the \<circ> m(k := None)) (mset_set (dom (m(k := None)))))"
    by (metis comp_apply image_mset_add_mset mset_set.insert)
  then show ?thesis
    using assms(2) by (simp add: ran_mset_def)
qed

lemma ran_mset_update:
  assumes "finite (dom m)"
  shows "ran_mset (m(k \<mapsto> v)) = add_mset v (ran_mset (m(k := None)))"
  using ran_mset_split [of "m(k \<mapsto> v)" k v] assms by simp

lemma map_delete_absent: "m k = None \<Longrightarrow> m(k := None) = m"
  by auto

section \<open>Machines\<close>

text \<open>
  A component's operations are one function of an input and a state, giving the new state and
  what was emitted, or a panic. A run stops at the first panic.
\<close>

fun run :: "('i \<Rightarrow> 's \<Rightarrow> panic + 's \<times> 'o list) \<Rightarrow> 'i list \<Rightarrow> 's \<Rightarrow> panic + 's \<times> 'o list" where
  "run step [] s = Inr (s, [])"
| "run step (i # is) s =
     (case step i s of
        Inl p \<Rightarrow> Inl p
      | Inr (s1, os) \<Rightarrow>
          (case run step is s1 of
             Inl p \<Rightarrow> Inl p
           | Inr (s2, os') \<Rightarrow> Inr (s2, os @ os')))"

lemma run_Cons_Inr:
  "run step (i # is) s = Inr (s2, os) \<Longrightarrow>
     \<exists>s1 os1 os2. step i s = Inr (s1, os1) \<and> run step is s1 = Inr (s2, os2) \<and> os = os1 @ os2"
  by (auto split: sum.splits prod.splits)

lemma run_append:
  "run step (is @ js) s = Inr (s2, os) \<Longrightarrow>
     \<exists>s1 os1 os2. run step is s = Inr (s1, os1) \<and> run step js s1 = Inr (s2, os2) \<and> os = os1 @ os2"
proof (induction "is" arbitrary: s os)
  case Nil
  then show ?case by simp
next
  case (Cons i "is")
  from Cons.prems have "run step (i # (is @ js)) s = Inr (s2, os)"
    by (simp only: append_Cons)
  from run_Cons_Inr [OF this] obtain s0 os0 os' where
    s0: "step i s = Inr (s0, os0)" and r: "run step (is @ js) s0 = Inr (s2, os')"
    and os: "os = os0 @ os'"
    by blast
  from Cons.IH [OF r] obtain s1 os1 os2 where
    "run step is s0 = Inr (s1, os1)" "run step js s1 = Inr (s2, os2)" "os' = os1 @ os2"
    by blast
  with s0 os show ?case by auto
qed

lemma run_trans:
  "run step is s = Inr (s1, os1) \<Longrightarrow> run step js s1 = Inr (s2, os2) \<Longrightarrow>
     run step (is @ js) s = Inr (s2, os1 @ os2)"
proof (induction "is" arbitrary: s os1)
  case Nil
  then show ?case by simp
next
  case (Cons i "is")
  from run_Cons_Inr [OF Cons.prems(1)] obtain s0 os0 os' where
    "step i s = Inr (s0, os0)" and r: "run step is s0 = Inr (s1, os')" and "os1 = os0 @ os'"
    by blast
  with Cons.IH [OF r Cons.prems(2)] show ?case by simp
qed

text \<open>What a run emits was emitted by one of its steps.\<close>

lemma run_emits:
  "run step is s = Inr (s', os) \<Longrightarrow> ob \<in> set os \<Longrightarrow>
     \<exists>pre i post s1 os1 s2 os2. is = pre @ i # post \<and> run step pre s = Inr (s1, os1) \<and>
       step i s1 = Inr (s2, os2) \<and> ob \<in> set os2"
proof (induction "is" arbitrary: s os)
  case Nil
  then show ?case by simp
next
  case (Cons i "is")
  from run_Cons_Inr [OF Cons.prems(1)] obtain s1 os1 os2 where
    s1: "step i s = Inr (s1, os1)" and r: "run step is s1 = Inr (s', os2)" and os: "os = os1 @ os2"
    by blast
  show ?case
  proof (cases "ob \<in> set os1")
    case True
    with s1 show ?thesis
      by (intro exI [of _ "[]"] exI [of _ i] exI [of _ "is"] exI [of _ s] exI [of _ "[]"]
          exI [of _ s1] exI [of _ os1]) simp
  next
    case False
    with os Cons.prems(2) have "ob \<in> set os2"
      by simp
    from Cons.IH [OF r this] obtain pre j post t1 os3 t2 os4 where
      "is = pre @ j # post" "run step pre s1 = Inr (t1, os3)" "step j t1 = Inr (t2, os4)"
      "ob \<in> set os4"
      by blast
    with s1 show ?thesis
      by (intro exI [of _ "i # pre"] exI [of _ j] exI [of _ post] exI [of _ t1]
          exI [of _ "os1 @ os3"] exI [of _ t2] exI [of _ os4]) simp
  qed
qed

text \<open>A fact about states that every input of a run keeps, and a fact about outputs that goes with it.\<close>

lemma run_preserves:
  assumes "\<And>i s s' os. i \<in> set is \<Longrightarrow> Q s \<Longrightarrow> step i s = Inr (s', os) \<Longrightarrow> Q s' \<and> (\<forall>ob\<in>set os. P ob)"
    and "Q s" and "run step is s = Inr (s', os)"
  shows "Q s' \<and> (\<forall>ob\<in>set os. P ob)"
  using assms
proof (induction "is" arbitrary: s os)
  case Nil
  then show ?case by simp
next
  case (Cons i "is")
  from run_Cons_Inr [OF Cons.prems(3)] obtain s1 os1 os2 where
    s1: "step i s = Inr (s1, os1)" and r: "run step is s1 = Inr (s', os2)" and os: "os = os1 @ os2"
    by blast
  from Cons.prems(1) [OF _ Cons.prems(2) s1] have "Q s1 \<and> (\<forall>ob\<in>set os1. P ob)"
    by simp
  moreover from this r Cons.IH [of s1 os2] Cons.prems(1)
  have "Q s' \<and> (\<forall>ob\<in>set os2. P ob)"
    by (metis list.set_intros(2))
  ultimately show ?case
    by (auto simp: os)
qed

text \<open>A run panics only in a step.\<close>

lemma run_no_panic:
  assumes "\<And>i s. i \<in> set is \<Longrightarrow> Q s \<Longrightarrow> \<exists>s' os. step i s = Inr (s', os) \<and> Q s'" and "Q s"
  shows "\<exists>s' os. run step is s = Inr (s', os) \<and> Q s'"
  using assms
proof (induction "is" arbitrary: s)
  case Nil
  then show ?case by simp
next
  case (Cons i "is")
  then obtain s1 os1 where s1: "step i s = Inr (s1, os1)" and "Q s1"
    by (metis list.set_intros(1))
  with Cons.IH [of s1] Cons.prems(1) obtain s2 os2 where "run step is s1 = Inr (s2, os2)" and "Q s2"
    by (metis list.set_intros(2))
  with s1 show ?case by simp
qed

text \<open>A stream that every input of a run extends by what the input adds.\<close>

lemma run_accumulates:
  assumes "\<And>i s s' os. i \<in> set is \<Longrightarrow> Q s \<Longrightarrow> step i s = Inr (s', os) \<Longrightarrow>
      Q s' \<and> stream s' = stream s @ adds i"
    and "Q s" and "run step is s = Inr (s', os)"
  shows "stream s' = stream s @ concat (map adds is)"
  using assms
proof (induction "is" arbitrary: s os)
  case Nil
  then show ?case by simp
next
  case (Cons i "is")
  from run_Cons_Inr [OF Cons.prems(3)] obtain s1 os1 os2 where
    s1: "step i s = Inr (s1, os1)" and r: "run step is s1 = Inr (s', os2)"
    by blast
  from Cons.prems(1) [OF _ Cons.prems(2) s1] have "Q s1 \<and> stream s1 = stream s @ adds i"
    by simp
  with r Cons.IH [of s1 os2] Cons.prems(1) show ?case
    by (metis append.assoc concat.simps(2) list.set_intros(2) list.simps(9))
qed

text \<open>The contract of a component with an invariant.\<close>

locale machine =
  fixes step :: "'i \<Rightarrow> 's \<Rightarrow> panic + 's \<times> 'o list"
    and inv :: "'s \<Rightarrow> bool"
  assumes inv_step: "inv s \<Longrightarrow> step i s = Inr (s', os) \<Longrightarrow> inv s'"
begin

lemma run_inv: "inv s \<Longrightarrow> run step is s = Inr (s', os) \<Longrightarrow> inv s'"
proof (induction "is" arbitrary: s os)
  case Nil
  then show ?case by simp
next
  case (Cons i "is")
  from run_Cons_Inr [OF Cons.prems(2)] obtain s1 os1 os2 where
    "step i s = Inr (s1, os1)" and "run step is s1 = Inr (s', os2)"
    by blast
  with Cons.IH [of s1 os2] inv_step Cons.prems(1) show ?case by blast
qed

text \<open>A property of what is emitted that every step has in a good state holds of a whole run.\<close>

lemma run_outputs:
  assumes "\<And>i s s' os ob. inv s \<Longrightarrow> step i s = Inr (s', os) \<Longrightarrow> ob \<in> set os \<Longrightarrow> P ob"
  shows "inv s \<Longrightarrow> run step is s = Inr (s', os) \<Longrightarrow> ob \<in> set os \<Longrightarrow> P ob"
proof (induction "is" arbitrary: s os)
  case Nil
  then show ?case by simp
next
  case (Cons i "is")
  from run_Cons_Inr [OF Cons.prems(2)] obtain s1 os1 os2 where
    s1: "step i s = Inr (s1, os1)" and r: "run step is s1 = Inr (s', os2)" and "os = os1 @ os2"
    by blast
  then have "ob \<in> set os1 \<or> ob \<in> set os2"
    using Cons.prems(3) by simp
  then show ?case
    using assms [OF Cons.prems(1) s1] Cons.IH [OF inv_step [OF Cons.prems(1) s1] r] by blast
qed

end

text \<open>The same contract for an invariant that speaks of what was emitted so far.\<close>

locale history_machine =
  fixes step :: "'i \<Rightarrow> 's \<Rightarrow> panic + 's \<times> 'o list"
    and inv :: "'o list \<Rightarrow> 's \<Rightarrow> bool"
  assumes inv_step: "inv log s \<Longrightarrow> step i s = Inr (s', os) \<Longrightarrow> inv (log @ os) s'"
begin

lemma run_inv: "inv log s \<Longrightarrow> run step is s = Inr (s', os) \<Longrightarrow> inv (log @ os) s'"
proof (induction "is" arbitrary: log s os)
  case Nil
  then show ?case by simp
next
  case (Cons i "is")
  from run_Cons_Inr [OF Cons.prems(2)] obtain s1 os1 os2 where
    s1: "step i s = Inr (s1, os1)" and r: "run step is s1 = Inr (s', os2)" and os: "os = os1 @ os2"
    by blast
  from Cons.IH [OF inv_step [OF Cons.prems(1) s1] r] show ?case
    by (simp add: os)
qed

lemma history: "inv [] s \<Longrightarrow> run step is s = Inr (s', os) \<Longrightarrow> inv os s'"
  using run_inv [of "[]"] by simp

end

text \<open>
  The contract of a component that holds values it owes an answer for: what a step takes in is
  what it holds more, or what it gives out. Nothing is lost and nothing is duplicated.
\<close>

locale ledger = machine step inv
  for step :: "'i \<Rightarrow> 's \<Rightarrow> panic + 's \<times> 'o list" and inv :: "'s \<Rightarrow> bool" +
  fixes taken :: "'i \<Rightarrow> 'v multiset"
    and held :: "'s \<Rightarrow> 'v multiset"
    and given :: "'o \<Rightarrow> 'v multiset"
  assumes balance: "inv s \<Longrightarrow> step i s = Inr (s', os) \<Longrightarrow>
      held s + taken i = held s' + sum_list (map given os)"
begin

lemma run_balance:
  "inv s \<Longrightarrow> run step is s = Inr (s', os) \<Longrightarrow>
     held s + sum_list (map taken is) = held s' + sum_list (map given os)"
proof (induction "is" arbitrary: s os)
  case Nil
  then show ?case by simp
next
  case (Cons i "is")
  from run_Cons_Inr [OF Cons.prems(2)] obtain s1 os1 os2 where
    s1: "step i s = Inr (s1, os1)" and r: "run step is s1 = Inr (s', os2)" and os: "os = os1 @ os2"
    by blast
  have "held s + taken i + sum_list (map taken is)
      = held s1 + sum_list (map given os1) + sum_list (map taken is)"
    using balance [OF Cons.prems(1) s1] by simp
  also have "\<dots> = (held s1 + sum_list (map taken is)) + sum_list (map given os1)"
    by (simp add: ac_simps)
  also have "held s1 + sum_list (map taken is) = held s' + sum_list (map given os2)"
    using Cons.IH [OF inv_step [OF Cons.prems(1) s1] r] .
  finally show ?case
    by (simp add: os ac_simps)
qed

end

text \<open>The same contract for a queue, where the order matters too.\<close>

locale ordered_ledger = machine step inv
  for step :: "'i \<Rightarrow> 's \<Rightarrow> panic + 's \<times> 'o list" and inv :: "'s \<Rightarrow> bool" +
  fixes taken :: "'i \<Rightarrow> 'v list"
    and held :: "'s \<Rightarrow> 'v list"
    and given :: "'o \<Rightarrow> 'v list"
  assumes flow: "inv s \<Longrightarrow> step i s = Inr (s', os) \<Longrightarrow>
      held s @ taken i = concat (map given os) @ held s'"
begin

lemma run_flow:
  "inv s \<Longrightarrow> run step is s = Inr (s', os) \<Longrightarrow>
     held s @ concat (map taken is) = concat (map given os) @ held s'"
proof (induction "is" arbitrary: s os)
  case Nil
  then show ?case by simp
next
  case (Cons i "is")
  from run_Cons_Inr [OF Cons.prems(2)] obtain s1 os1 os2 where
    s1: "step i s = Inr (s1, os1)" and r: "run step is s1 = Inr (s', os2)" and os: "os = os1 @ os2"
    by blast
  have "held s @ concat (map taken (i # is)) = (held s @ taken i) @ concat (map taken is)"
    by simp
  also have "\<dots> = concat (map given os1) @ held s1 @ concat (map taken is)"
    using flow [OF Cons.prems(1) s1] by simp
  also have "\<dots> = concat (map given os1) @ concat (map given os2) @ held s'"
    using Cons.IH [OF inv_step [OF Cons.prems(1) s1] r] by simp
  finally show ?case
    by (simp add: os)
qed

end

section \<open>Sources polled until they are empty\<close>

text \<open>
  The contract of a component that is polled for its queued items: an item is ready while the
  queue is not empty, in queue order; on an empty queue \<open>poll\<close> is pending, leaves the state
  alone and registers the waker.
\<close>

locale polled_queue =
  fixes poll :: "'s \<Rightarrow> 's \<times> 'e list \<times> 'a poll"
    and queue :: "'s \<Rightarrow> 'a list"
    and register :: "'e"
  assumes poll_empty: "queue s = [] \<Longrightarrow> poll s = (s, [register], Pending)"
    and poll_item: "queue s = x # xs \<Longrightarrow> \<exists>s'. poll s = (s', [], Ready x) \<and> queue s' = xs"

text \<open>The items that \<open>n\<close> polls in a row return, and the state they leave.\<close>

fun polls :: "('s \<Rightarrow> 's \<times> 'e list \<times> 'a poll) \<Rightarrow> nat \<Rightarrow> 's \<Rightarrow> 's \<times> 'a list" where
  "polls pl 0 s = (s, [])"
| "polls pl (Suc n) s =
     (case pl s of
        (s', es, Pending) \<Rightarrow> (s', [])
      | (s', es, Ready x) \<Rightarrow> (case polls pl n s' of (s'', xs) \<Rightarrow> (s'', x # xs)))"

context polled_queue
begin

lemma pending_iff: "snd (snd (poll s)) = Pending \<longleftrightarrow> queue s = []"
  using poll_empty [of s] poll_item [of s] by (cases "queue s") auto

lemma polls_items:
  "snd (polls poll n s) = take n (queue s) \<and> queue (fst (polls poll n s)) = drop n (queue s)"
proof (induction n arbitrary: s)
  case 0
  then show ?case by simp
next
  case (Suc n)
  show ?case
  proof (cases "queue s")
    case Nil
    then show ?thesis by (simp add: poll_empty)
  next
    case (Cons x xs)
    then obtain s' where "poll s = (s', [], Ready x)" and "queue s' = xs"
      using poll_item by blast
    with Suc.IH [of s'] Cons show ?thesis
      by (auto split: prod.splits)
  qed
qed

lemma registers_when_pending: "snd (snd (poll s)) = Pending \<Longrightarrow> register \<in> set (fst (snd (poll s)))"
  using poll_empty [of s] by (simp add: pending_iff)

end

text \<open>
  A component that is polled for queued items while other operations queue more: the operations
  and the polls interleave as the runtime pleases. The result of an interleaving is the state,
  the items the polls returned, the items the operations queued, and the effects.
\<close>

datatype 'op act = PollAct | OpAct 'op

fun interleave ::
  "('s \<Rightarrow> 's \<times> 'e list \<times> 'a poll) \<Rightarrow> ('op \<Rightarrow> 's \<Rightarrow> panic + 's \<times> 'e list) \<Rightarrow>
     ('s \<Rightarrow> 'op \<Rightarrow> 'a list) \<Rightarrow> 'op act list \<Rightarrow> 's \<Rightarrow> panic + 's \<times> 'a list \<times> 'a list \<times> 'e list" where
  "interleave pl ap adds [] s = Inr (s, [], [], [])"
| "interleave pl ap adds (PollAct # acts) s =
     (case pl s of (s1, es, r) \<Rightarrow>
        (case interleave pl ap adds acts s1 of
           Inl p \<Rightarrow> Inl p
         | Inr (s2, out, queued, es') \<Rightarrow>
             Inr (s2, (case r of Pending \<Rightarrow> out | Ready x \<Rightarrow> x # out), queued, es @ es')))"
| "interleave pl ap adds (OpAct op # acts) s =
     (case ap op s of
        Inl p \<Rightarrow> Inl p
      | Inr (s1, es) \<Rightarrow>
          (case interleave pl ap adds acts s1 of
             Inl p \<Rightarrow> Inl p
           | Inr (s2, out, queued, es') \<Rightarrow> Inr (s2, out, adds s op @ queued, es @ es')))"

text \<open>
  The contract: an operation queues what \<open>adds\<close> says, somewhere in the queue, and one that makes
  an empty queue non-empty wakes the task that polls.
\<close>

locale woken_queue = polled_queue poll queue register
  for poll :: "'s \<Rightarrow> 's \<times> 'e list \<times> 'a poll" and queue :: "'s \<Rightarrow> 'a list" and register :: 'e +
  fixes apply_op :: "'op \<Rightarrow> 's \<Rightarrow> panic + 's \<times> 'e list"
    and adds :: "'s \<Rightarrow> 'op \<Rightarrow> 'a list"
    and wake :: 'e
  assumes op_adds: "apply_op op s = Inr (s', es) \<Longrightarrow>
      mset (queue s') = mset (queue s) + mset (adds s op)"
    and op_wakes: "apply_op op s = Inr (s', es) \<Longrightarrow> adds s op \<noteq> [] \<Longrightarrow> wake \<in> set es"
begin

lemma poll_mset:
  "poll s = (s1, es, r) \<Longrightarrow>
     mset (queue s) = mset (queue s1) + (case r of Pending \<Rightarrow> {#} | Ready x \<Rightarrow> {#x#})"
  using poll_empty [of s] poll_item [of s] by (cases "queue s") auto

lemma nothing_lost:
  "interleave poll apply_op adds acts s = Inr (s', out, queued, es) \<Longrightarrow>
     mset (queue s) + mset queued = mset out + mset (queue s')"
proof (induction acts arbitrary: s out queued es)
  case Nil
  then show ?case by simp
next
  case (Cons a acts)
  show ?case
  proof (cases a)
    case PollAct
    obtain s1 es1 r where pl: "poll s = (s1, es1, r)"
      by (cases "poll s") auto
    with Cons.prems PollAct obtain out1 es2 where
      "interleave poll apply_op adds acts s1 = Inr (s', out1, queued, es2)"
      and "out = (case r of Pending \<Rightarrow> out1 | Ready x \<Rightarrow> x # out1)"
      by (auto split: sum.splits)
    with Cons.IH poll_mset [OF pl] show ?thesis
      by (cases r) auto
  next
    case (OpAct op)
    with Cons.prems obtain s1 es1 queued1 es2 where
      "apply_op op s = Inr (s1, es1)"
      and "interleave poll apply_op adds acts s1 = Inr (s', out, queued1, es2)"
      and "queued = adds s op @ queued1"
      by (auto split: sum.splits prod.splits)
    with Cons.IH op_adds show ?thesis
      by (metis (no_types, lifting) add.assoc mset_append)
  qed
qed

text \<open>
  No wakeup is lost: between a poll that was pending and the moment the queue is not empty, with
  no poll in between, the task was woken.
\<close>

lemma woken_before_ready:
  assumes "snd (snd (poll s0)) = Pending"
    and "interleave poll apply_op adds (map OpAct ops) (fst (poll s0)) = Inr (s', out, queued, es)"
    and "queue s' \<noteq> []"
  shows "wake \<in> set es"
proof -
  have *: "wake \<in> set es"
    if "interleave poll apply_op adds (map OpAct ops) s = Inr (s', out, queued, es)" "queue s = []"
      "queue s' \<noteq> []" for ops s out queued es
    using that
  proof (induction ops arbitrary: s out queued es)
    case Nil
    then show ?case by simp
  next
    case (Cons op ops)
    then obtain s1 es1 queued1 es2 where
      ap: "apply_op op s = Inr (s1, es1)"
      and il: "interleave poll apply_op adds (map OpAct ops) s1 = Inr (s', out, queued1, es2)"
      and es: "es = es1 @ es2"
      by (auto split: sum.splits prod.splits)
    show ?case
    proof (cases "adds s op = []")
      case True
      with op_adds [OF ap] Cons.prems(2) have "queue s1 = []"
        by simp
      with Cons.IH [OF il] Cons.prems(3) es show ?thesis by simp
    next
      case False
      with op_wakes [OF ap] es show ?thesis by simp
    qed
  qed
  from assms(1) have "queue s0 = []"
    by (simp add: pending_iff)
  then have "queue (fst (poll s0)) = []"
    by (simp add: poll_empty)
  with * [OF assms(2)] assms(3) show ?thesis by blast
qed

end

text \<open>The stronger contract of a component that queues at the end.\<close>

locale fifo_queue = woken_queue poll queue register apply_op adds wake
  for poll :: "'s \<Rightarrow> 's \<times> 'e list \<times> 'a poll" and queue :: "'s \<Rightarrow> 'a list" and register :: 'e
    and apply_op :: "'op \<Rightarrow> 's \<Rightarrow> panic + 's \<times> 'e list" and adds :: "'s \<Rightarrow> 'op \<Rightarrow> 'a list"
    and wake :: 'e +
  assumes op_appends: "apply_op op s = Inr (s', es) \<Longrightarrow> queue s' = queue s @ adds s op"
begin

lemma in_order:
  "interleave poll apply_op adds acts s = Inr (s', out, queued, es) \<Longrightarrow>
     out @ queue s' = queue s @ queued"
proof (induction acts arbitrary: s out queued es)
  case Nil
  then show ?case by simp
next
  case (Cons a acts)
  show ?case
  proof (cases a)
    case PollAct
    obtain s1 es1 r where pl: "poll s = (s1, es1, r)"
      by (cases "poll s") auto
    with Cons.prems PollAct obtain out1 es2 where
      il: "interleave poll apply_op adds acts s1 = Inr (s', out1, queued, es2)"
      and out: "out = (case r of Pending \<Rightarrow> out1 | Ready x \<Rightarrow> x # out1)"
      by (auto split: sum.splits)
    have "queue s = (case r of Pending \<Rightarrow> [] | Ready x \<Rightarrow> [x]) @ queue s1"
      using pl poll_empty [of s] poll_item [of s] by (cases "queue s") auto
    with Cons.IH [OF il] out show ?thesis
      by (cases r) auto
  next
    case (OpAct op)
    with Cons.prems obtain s1 es1 queued1 es2 where
      "apply_op op s = Inr (s1, es1)"
      and "interleave poll apply_op adds acts s1 = Inr (s', out, queued1, es2)"
      and "queued = adds s op @ queued1"
      by (auto split: sum.splits prod.splits)
    with Cons.IH op_appends show ?thesis
      by (metis append.assoc)
  qed
qed

end

end
