(* ===== verification/Connection.thy ===== *)
theory Connection
  imports Prelude
begin

text \<open>
  \<open>src/connection.rs\<close>: the relayed connection. It is a negotiated substream plus the bytes the
  codec had already read past the last handshake message; a read serves those bytes first and
  only then the substream. The substream itself is third-party: its operations are the fields
  of \<open>io_ops\<close>, and what its documentation promises of a read is \<open>byte_source\<close>.
\<close>

section \<open>The connection\<close>

record 'ss connection =
  remote_addr :: multiaddr
  remaining_buf :: bytes
  sub_stream :: 'ss

record 'ss io_ops =
  ss_read :: "'ss \<Rightarrow> bytes \<Rightarrow> (io_error + nat) poll \<times> 'ss \<times> bytes"
  ss_read_vectored :: "'ss \<Rightarrow> bytes list \<Rightarrow> (io_error + nat) poll \<times> 'ss \<times> bytes list"
  ss_write :: "'ss \<Rightarrow> bytes \<Rightarrow> (io_error + nat) poll \<times> 'ss"
  ss_write_vectored :: "'ss \<Rightarrow> bytes list \<Rightarrow> (io_error + nat) poll \<times> 'ss"
  ss_flush :: "'ss \<Rightarrow> (io_error + unit) poll \<times> 'ss"
  ss_close :: "'ss \<Rightarrow> (io_error + unit) poll \<times> 'ss"

definition new_connection :: "multiaddr \<Rightarrow> bytes \<Rightarrow> 'ss \<Rightarrow> 'ss connection" where
  "new_connection addr buf ss = \<lparr>remote_addr = addr, remaining_buf = buf, sub_stream = ss\<rparr>"

text \<open>\<open>poll_read\<close>: the caller's buffer comes in with its old contents and goes out with the new.\<close>

definition poll_read ::
  "'ss io_ops \<Rightarrow> 'ss connection \<Rightarrow> bytes \<Rightarrow> (io_error + nat) poll \<times> 'ss connection \<times> bytes" where
  "poll_read ops c buf =
     (if remaining_buf c \<noteq> [] then
        let copied = min (length (remaining_buf c)) (length buf) in
        (Ready (Inr copied),
         c\<lparr>remaining_buf := drop copied (remaining_buf c)\<rparr>,
         take copied (remaining_buf c) @ drop copied buf)
      else
        (case ss_read ops (sub_stream c) buf of
           (r, ss, buf') \<Rightarrow> (r, c\<lparr>sub_stream := ss\<rparr>, buf')))"

text \<open>
  The loop of \<open>poll_read_vectored\<close> over the caller's buffers. \<open>copy_from_slice\<close> panics when the
  two slices differ in length; here the destination is the whole buffer and the source the
  \<open>copied\<close> bytes.
\<close>

fun read_vectored_loop :: "bytes \<Rightarrow> bytes list \<Rightarrow> nat \<Rightarrow> panic + nat \<times> bytes \<times> bytes list" where
  "read_vectored_loop rem [] tot = Inr (tot, rem, [])"
| "read_vectored_loop rem (buf # bufs) tot =
     (let copied = min (length rem) (length buf) in
      if copied = 0 then Inr (tot, rem, buf # bufs)
      else if length buf \<noteq> copied then
        Inl (Panic ''copy_from_slice: source slice length does not match destination'')
      else
        (case read_vectored_loop (drop copied rem) bufs (tot + copied) of
           Inl p \<Rightarrow> Inl p
         | Inr (tot', rem', bufs') \<Rightarrow> Inr (tot', rem', take copied rem # bufs')))"

definition poll_read_vectored ::
  "'ss io_ops \<Rightarrow> 'ss connection \<Rightarrow> bytes list \<Rightarrow>
     panic + (io_error + nat) poll \<times> 'ss connection \<times> bytes list" where
  "poll_read_vectored ops c bufs =
     (if remaining_buf c \<noteq> [] then
        (case read_vectored_loop (remaining_buf c) bufs 0 of
           Inl p \<Rightarrow> Inl p
         | Inr (tot, rem, bufs') \<Rightarrow> Inr (Ready (Inr tot), c\<lparr>remaining_buf := rem\<rparr>, bufs'))
      else
        (case ss_read_vectored ops (sub_stream c) bufs of
           (r, ss, bufs') \<Rightarrow> Inr (r, c\<lparr>sub_stream := ss\<rparr>, bufs')))"

definition poll_write ::
  "'ss io_ops \<Rightarrow> 'ss connection \<Rightarrow> bytes \<Rightarrow> (io_error + nat) poll \<times> 'ss connection" where
  "poll_write ops c buf =
     (case ss_write ops (sub_stream c) buf of (r, ss) \<Rightarrow> (r, c\<lparr>sub_stream := ss\<rparr>))"

definition poll_write_vectored ::
  "'ss io_ops \<Rightarrow> 'ss connection \<Rightarrow> bytes list \<Rightarrow> (io_error + nat) poll \<times> 'ss connection" where
  "poll_write_vectored ops c bufs =
     (case ss_write_vectored ops (sub_stream c) bufs of (r, ss) \<Rightarrow> (r, c\<lparr>sub_stream := ss\<rparr>))"

definition poll_flush ::
  "'ss io_ops \<Rightarrow> 'ss connection \<Rightarrow> (io_error + unit) poll \<times> 'ss connection" where
  "poll_flush ops c = (case ss_flush ops (sub_stream c) of (r, ss) \<Rightarrow> (r, c\<lparr>sub_stream := ss\<rparr>))"

definition poll_close ::
  "'ss io_ops \<Rightarrow> 'ss connection \<Rightarrow> (io_error + unit) poll \<times> 'ss connection" where
  "poll_close ops c = (case ss_close ops (sub_stream c) of (r, ss) \<Rightarrow> (r, c\<lparr>sub_stream := ss\<rparr>))"

section \<open>A read is a read of one byte stream\<close>

text \<open>
  What \<open>AsyncRead\<close> documents: a read that is ready with \<open>n\<close> has put the next \<open>n\<close> bytes of the
  source at the front of the caller's buffer and left the rest of the buffer alone; a pending or
  failed read takes no byte from the source.
\<close>

definition byte_source ::
  "('s \<Rightarrow> bytes \<Rightarrow> (io_error + nat) poll \<times> 's \<times> bytes) \<Rightarrow> ('s \<Rightarrow> bytes) \<Rightarrow> bool" where
  "byte_source read content \<longleftrightarrow>
     (\<forall>s buf. case read s buf of
        (Ready (Inr n), s', buf') \<Rightarrow>
          n \<le> length buf \<and> length buf' = length buf \<and> drop n buf' = drop n buf \<and>
          content s = take n buf' @ content s'
      | (_, s', buf') \<Rightarrow> content s' = content s)"

text \<open>Reading with one buffer after another: the bytes delivered and the source left.\<close>

fun read_seq ::
  "('s \<Rightarrow> bytes \<Rightarrow> (io_error + nat) poll \<times> 's \<times> bytes) \<Rightarrow> bytes list \<Rightarrow> 's \<Rightarrow> bytes \<times> 's" where
  "read_seq read [] s = ([], s)"
| "read_seq read (buf # bufs) s =
     (case read s buf of (r, s', buf') \<Rightarrow>
        case read_seq read bufs s' of (d, s'') \<Rightarrow>
          ((case r of Ready (Inr n) \<Rightarrow> take n buf' | _ \<Rightarrow> []) @ d, s''))"

lemma byte_sourceD:
  assumes "byte_source read content" and "read s buf = (r, s', buf')"
  shows "content s = (case r of Ready (Inr n) \<Rightarrow> take n buf' | _ \<Rightarrow> []) @ content s'"
  using assms(1) [unfolded byte_source_def, rule_format, of s buf] assms(2)
  by (auto split: poll.splits sum.splits)

lemma read_seq_content:
  "byte_source read content \<Longrightarrow> read_seq read bufs s = (d, s') \<Longrightarrow> content s = d @ content s'"
proof (induction bufs arbitrary: s d s')
  case Nil
  then show ?case by simp
next
  case (Cons buf bufs)
  obtain r s1 buf' where rd: "read s buf = (r, s1, buf')"
    by (cases "read s buf") auto
  obtain d' s2 where sq: "read_seq read bufs s1 = (d', s2)"
    by (cases "read_seq read bufs s1") auto
  show ?case
    using Cons.prems(2) byte_sourceD [OF Cons.prems(1) rd] Cons.IH [OF Cons.prems(1) sq] rd sq
    by auto
qed

definition connection_content :: "('ss \<Rightarrow> bytes) \<Rightarrow> 'ss connection \<Rightarrow> bytes" where
  "connection_content content c = remaining_buf c @ content (sub_stream c)"

lemma connection_byte_source:
  assumes "byte_source (ss_read ops) content"
  shows "byte_source (poll_read ops) (connection_content content)"
proof -
  have "case poll_read ops c buf of
        (Ready (Inr n), c', buf') \<Rightarrow>
          n \<le> length buf \<and> length buf' = length buf \<and> drop n buf' = drop n buf \<and>
          connection_content content c = take n buf' @ connection_content content c'
      | (_, c', buf') \<Rightarrow> connection_content content c' = connection_content content c" for c buf
  proof (cases "remaining_buf c = []")
    case True
    then show ?thesis
      using assms [unfolded byte_source_def, rule_format, of "sub_stream c" buf]
      by (auto simp: poll_read_def connection_content_def split: prod.splits poll.splits sum.splits)
  next
    case False
    have "remaining_buf c = take (min (length (remaining_buf c)) (length buf)) (remaining_buf c)
        @ drop (min (length (remaining_buf c)) (length buf)) (remaining_buf c)"
      by simp
    with False show ?thesis
      by (auto simp: poll_read_def connection_content_def Let_def min_def)
  qed
  then show ?thesis
    unfolding byte_source_def by blast
qed

text \<open>
  C13: For every sequence of reads of a connection, with buffers of any sizes, the bytes delivered
  followed by what the connection still holds are the bytes the codec had read ahead followed by
  the bytes of the substream: relaying loses, repeats and reorders nothing at the point where the
  handshake ends and the data begins.
\<close>

theorem connection_reads_stream:
  assumes "byte_source (ss_read ops) content"
    and "read_seq (poll_read ops) bufs c = (delivered, c')"
  shows "delivered @ connection_content content c' = remaining_buf c @ content (sub_stream c)"
  using read_seq_content [OF connection_byte_source [OF assms(1)] assms(2)]
  by (simp add: connection_content_def)

text \<open>A substream over a list of bytes, for evaluation.\<close>

definition list_read :: "bytes \<Rightarrow> bytes \<Rightarrow> (io_error + nat) poll \<times> bytes \<times> bytes" where
  "list_read s buf =
     (let n = min (length s) (length buf)
      in (Ready (Inr n), drop n s, take n s @ drop n buf))"

definition list_ops :: "bytes io_ops" where
  "list_ops = \<lparr>ss_read = list_read,
     ss_read_vectored = (\<lambda>s bufs. (Ready (Inr 0), s, bufs)),
     ss_write = (\<lambda>s buf. (Ready (Inr (length buf)), s @ buf)),
     ss_write_vectored = (\<lambda>s bufs. (Ready (Inr (length (concat bufs))), s @ concat bufs)),
     ss_flush = (\<lambda>s. (Ready (Inr ()), s)),
     ss_close = (\<lambda>s. (Ready (Inr ()), s))\<rparr>"

lemma list_ops_source: "byte_source (ss_read list_ops) (\<lambda>s. s)"
  by (auto simp: byte_source_def list_ops_def list_read_def Let_def min_def)

theorem connection_reads_stream_witness:
  "read_seq (poll_read list_ops) [[0, 0], [0, 0]] (new_connection (Multiaddr []) [1, 2, 3] [4, 5])
     = ([1, 2, 3], new_connection (Multiaddr []) [] [4, 5]) \<and>
   [1, 2, 3] @ connection_content (\<lambda>s. s) (new_connection (Multiaddr []) [] [4, 5])
     = [1, 2, 3] @ ([4, 5] :: bytes)"
proof -
  have e: "read_seq (poll_read list_ops) [[0, 0], [0, 0]]
      (new_connection (Multiaddr []) [1, 2, 3] [4, 5])
     = ([1, 2, 3], new_connection (Multiaddr []) [] [4, 5])"
    by (simp add: poll_read_def new_connection_def)
  show ?thesis
    using e connection_reads_stream [OF list_ops_source e] by (simp add: new_connection_def)
qed

section \<open>The vectored read\<close>

text \<open>When the loop returns, it has moved \<open>tot\<close> bytes from the buffer into the slices.\<close>

lemma read_vectored_loop_moves:
  "read_vectored_loop rem bufs tot = Inr (tot', rem', bufs') \<Longrightarrow>
     \<exists>n. tot' = tot + n \<and> n \<le> length rem \<and> n \<le> length (concat bufs) \<and> rem' = drop n rem \<and>
         concat bufs' = take n rem @ drop n (concat bufs) \<and> map length bufs' = map length bufs"
proof (induction rem bufs tot arbitrary: tot' rem' bufs' rule: read_vectored_loop.induct)
  case (1 rem tot)
  then show ?case by simp
next
  case (2 rem buf bufs tot)
  define k where "k = min (length rem) (length buf)"
  show ?case
  proof (cases "k = 0")
    case True
    with "2.prems" show ?thesis by (auto simp: Let_def k_def intro!: exI [of _ 0])
  next
    case False
    with "2.prems" obtain bufs1 where k: "length buf = k" and bufs': "bufs' = take k rem # bufs1"
      and r: "read_vectored_loop (drop k rem) bufs (tot + k) = Inr (tot', rem', bufs1)"
      by (auto simp: Let_def k_def [symmetric] split: if_splits sum.splits)
    have kr: "k \<le> length rem"
      by (simp add: k_def)
    from "2.IH" [OF k_def] False k r obtain n where
      "tot' = tot + k + n" "n \<le> length (drop k rem)" "n \<le> length (concat bufs)"
      "rem' = drop n (drop k rem)"
      "concat bufs1 = take n (drop k rem) @ drop n (concat bufs)"
      "map length bufs1 = map length bufs"
      by blast
    then show ?thesis
      using k kr bufs' by (intro exI [of _ "k + n"]) (auto simp: take_add add.commute)
  qed
qed

lemma poll_read_vectored_delivers:
  assumes "remaining_buf c \<noteq> []"
    and "poll_read_vectored ops c bufs = Inr (r, c', bufs')"
  shows "\<exists>n. r = Ready (Inr n) \<and> n \<le> length (remaining_buf c) \<and>
     c' = c\<lparr>remaining_buf := drop n (remaining_buf c)\<rparr> \<and>
     concat bufs' = take n (remaining_buf c) @ drop n (concat bufs) \<and>
     map length bufs' = map length bufs"
proof -
  from assms obtain n rem' where r: "r = Ready (Inr n)" and c': "c' = c\<lparr>remaining_buf := rem'\<rparr>"
    and l: "read_vectored_loop (remaining_buf c) bufs 0 = Inr (n, rem', bufs')"
    by (auto simp: poll_read_vectored_def split: sum.splits)
  with read_vectored_loop_moves [OF l] show ?thesis by auto
qed

text \<open>How far the loop gets: through the slices before the first empty one, or to the end of the
  buffer. The slices from the first empty one on are not touched.\<close>

lemma read_vectored_loop_extent:
  "read_vectored_loop rem bufs tot = Inr (tot', rem', bufs') \<Longrightarrow>
     tot' = tot + min (length rem) (length (concat (takeWhile (\<lambda>b. b \<noteq> []) bufs))) \<and>
     (\<exists>front'. bufs' = front' @ dropWhile (\<lambda>b. b \<noteq> []) bufs)"
proof (induction rem bufs tot arbitrary: tot' rem' bufs' rule: read_vectored_loop.induct)
  case (1 rem tot)
  then show ?case by simp
next
  case (2 rem buf bufs tot)
  define k where "k = min (length rem) (length buf)"
  show ?case
  proof (cases "k = 0")
    case True
    then have "rem = [] \<or> buf = []"
      by (auto simp: k_def min_def split: if_splits)
    with True "2.prems" show ?thesis
      by (cases "buf = []")
         (auto simp: Let_def k_def intro: exI [of _ "buf # takeWhile (\<lambda>b. b \<noteq> []) bufs"])
  next
    case False
    with "2.prems" obtain bufs1 where k: "length buf = k" and bufs': "bufs' = take k rem # bufs1"
      and r: "read_vectored_loop (drop k rem) bufs (tot + k) = Inr (tot', rem', bufs1)"
      by (auto simp: Let_def k_def [symmetric] split: if_splits sum.splits)
    have kr: "k \<le> length rem"
      by (simp add: k_def)
    from "2.IH" [OF k_def] False k r obtain front' where
      "tot' = tot + k + min (length (drop k rem)) (length (concat (takeWhile (\<lambda>b. b \<noteq> []) bufs)))"
      and "bufs1 = front' @ dropWhile (\<lambda>b. b \<noteq> []) bufs"
      by blast
    with False k kr bufs' show ?thesis
      by (auto simp: min_def)
  qed
qed

text \<open>
  C29: When the vectored read of the buffered bytes returns, it is the contiguous read into the
  slices before the first empty one, taken as one buffer: the same answer, the same connection
  afterwards and the same bytes, with every slice of its old length. The slices from the first
  empty one on stay as they were.
\<close>

theorem poll_read_vectored_contiguous:
  assumes "remaining_buf c \<noteq> []"
    and "poll_read_vectored ops c bufs = Inr (r, c', bufs')"
  shows "\<exists>front'. bufs' = front' @ dropWhile (\<lambda>b. b \<noteq> []) bufs \<and>
     map length front' = map length (takeWhile (\<lambda>b. b \<noteq> []) bufs) \<and>
     poll_read ops c (concat (takeWhile (\<lambda>b. b \<noteq> []) bufs)) = (r, c', concat front')"
proof -
  let ?front = "takeWhile (\<lambda>b. b \<noteq> []) bufs" and ?rest = "dropWhile (\<lambda>b. b \<noteq> []) bufs"
  from assms obtain n rem' where r: "r = Ready (Inr n)" and c': "c' = c\<lparr>remaining_buf := rem'\<rparr>"
    and l: "read_vectored_loop (remaining_buf c) bufs 0 = Inr (n, rem', bufs')"
    by (auto simp: poll_read_vectored_def split: sum.splits)
  from read_vectored_loop_extent [OF l] obtain front' where
    n: "n = min (length (remaining_buf c)) (length (concat ?front))"
    and bufs': "bufs' = front' @ ?rest"
    by auto
  from read_vectored_loop_moves [OF l] have rem': "rem' = drop n (remaining_buf c)"
    and bytes: "concat bufs' = take n (remaining_buf c) @ drop n (concat bufs)"
    and len: "map length bufs' = map length bufs"
    by auto
  have bufs: "bufs = ?front @ ?rest"
    by simp
  then have "concat bufs = concat ?front @ concat ?rest"
    by (metis concat_append)
  with n have split: "drop n (concat bufs) = drop n (concat ?front) @ concat ?rest"
    by simp
  have front: "map length front' = map length ?front"
    using len bufs' by (metis append_same_eq bufs map_append)
  have "concat front' @ concat ?rest = (take n (remaining_buf c) @ drop n (concat ?front)) @ concat ?rest"
    using bytes by (simp add: bufs' split)
  then have "concat front' = take n (remaining_buf c) @ drop n (concat ?front)"
    by simp
  with assms(1) r c' rem' n front bufs' show ?thesis
    by (auto simp: poll_read_def Let_def)
qed

theorem poll_read_vectored_contiguous_witness:
  "poll_read list_ops (new_connection (Multiaddr []) [1, 2, 3] []) (concat [[0], [0, 0]]) =
     (Ready (Inr 3), new_connection (Multiaddr []) [] ([] :: bytes), [1, 2, 3])"
proof -
  let ?c = "new_connection (Multiaddr []) [1, 2, 3] [] :: bytes connection"
  have e: "poll_read_vectored list_ops ?c [[0], [0, 0], [], [0]]
     = Inr (Ready (Inr 3), new_connection (Multiaddr []) [] [], [[1], [2, 3], [], [0]])"
    by (simp add: poll_read_vectored_def new_connection_def Let_def)
  have "remaining_buf ?c \<noteq> []"
    by (simp add: new_connection_def)
  from poll_read_vectored_contiguous [OF this e] show ?thesis
    by auto
qed

text \<open>The exact condition under which the loop panics: the bytes run out inside a slice.\<close>

lemma read_vectored_loop_panics:
  "(\<exists>p. read_vectored_loop rem bufs tot = Inl p) \<longleftrightarrow>
   (\<exists>pre buf post. bufs = pre @ buf # post \<and> [] \<notin> set pre \<and>
      length (concat pre) < length rem \<and> length rem < length (concat pre) + length buf)"
proof (induction rem bufs tot rule: read_vectored_loop.induct)
  case (1 rem tot)
  then show ?case by simp
next
  case (2 rem buf bufs tot)
  define k where "k = min (length rem) (length buf)"
  have split: "(\<exists>pre b post. buf # bufs = pre @ b # post \<and> [] \<notin> set pre \<and>
        length (concat pre) < length rem \<and> length rem < length (concat pre) + length b) \<longleftrightarrow>
      (0 < length rem \<and> length rem < length buf) \<or>
      (buf \<noteq> [] \<and> (\<exists>pre b post. bufs = pre @ b # post \<and> [] \<notin> set pre \<and>
        length buf + length (concat pre) < length rem \<and>
        length rem < length buf + length (concat pre) + length b))" (is "?L \<longleftrightarrow> ?A \<or> ?B")
  proof
    assume ?L
    then obtain pre b post where p: "buf # bufs = pre @ b # post" "[] \<notin> set pre"
      "length (concat pre) < length rem" "length rem < length (concat pre) + length b"
      by blast
    show "?A \<or> ?B"
    proof (cases pre)
      case Nil
      with p show ?thesis by auto
    next
      case (Cons x pre')
      with p show ?thesis by auto
    qed
  next
    assume "?A \<or> ?B"
    then show ?L
    proof
      assume ?A
      then show ?L
        by (intro exI [of _ "[]"] exI [of _ buf] exI [of _ bufs]) simp
    next
      assume ?B
      then obtain pre b post where "buf \<noteq> []" "bufs = pre @ b # post" "[] \<notin> set pre"
        "length buf + length (concat pre) < length rem"
        "length rem < length buf + length (concat pre) + length b"
        by blast
      then show ?L
        by (intro exI [of _ "buf # pre"] exI [of _ b] exI [of _ post]) auto
    qed
  qed
  show ?case
  proof (cases "k = 0 \<or> length buf \<noteq> k")
    case True
    then show ?thesis
      unfolding split by (auto simp: k_def Let_def min_def split: if_splits)
  next
    case False
    then have kb: "length buf = k" "k \<le> length rem" "k \<noteq> 0"
      by (auto simp: k_def)
    have "(\<exists>p. read_vectored_loop rem (buf # bufs) tot = Inl p) \<longleftrightarrow>
        (\<exists>p. read_vectored_loop (drop k rem) bufs (tot + k) = Inl p)"
      using kb by (auto simp: Let_def k_def [symmetric] split: sum.splits)
    also have "\<dots> \<longleftrightarrow> (\<exists>pre b post. bufs = pre @ b # post \<and> [] \<notin> set pre \<and>
        length (concat pre) < length (drop k rem) \<and>
        length (drop k rem) < length (concat pre) + length b)"
      using "2.IH" [OF k_def] kb by simp
    also have "\<dots> \<longleftrightarrow> ?A \<or> ?B"
      using kb by (auto simp: less_diff_conv less_diff_conv2 ac_simps)
    finally show ?thesis
      unfolding split .
  qed
qed

text \<open>
  C39: While buffered bytes remain, the vectored read panics exactly when some slice would be
  filled only in part: the slices before it are not empty and leave fewer bytes than it holds.
  In particular one slice longer than what is buffered is enough.
\<close>

theorem poll_read_vectored_panics_iff:
  "(\<exists>p. poll_read_vectored ops c bufs = Inl p) \<longleftrightarrow>
   remaining_buf c \<noteq> [] \<and>
   (\<exists>pre buf post. bufs = pre @ buf # post \<and> [] \<notin> set pre \<and>
      length (concat pre) < length (remaining_buf c) \<and>
      length (remaining_buf c) < length (concat pre) + length buf)"
proof (cases "remaining_buf c = []")
  case True
  then show ?thesis
    by (simp add: poll_read_vectored_def split: prod.splits)
next
  case False
  have "(\<exists>p. poll_read_vectored ops c bufs = Inl p) \<longleftrightarrow>
      (\<exists>p. read_vectored_loop (remaining_buf c) bufs 0 = Inl p)"
    using False by (auto simp: poll_read_vectored_def split: sum.splits)
  then show ?thesis
    using False read_vectored_loop_panics [of "remaining_buf c" bufs 0] by simp
qed

section \<open>Reading and writing are independent\<close>

text \<open>
  While buffered bytes remain, a read and a write of the two halves of one connection
  commute: in either order the read returns the same bytes, the write gets the same answer from
  the substream, and the connection ends in the same state.
\<close>

lemma buffered_read_write_commute:
  assumes "remaining_buf c \<noteq> []"
    and "poll_read ops c buf = (r, c1, buf')" and "poll_write ops c1 out = (w, c2)"
  shows "\<exists>c1'. poll_write ops c out = (w, c1') \<and> poll_read ops c1' buf = (r, c2, buf')"
  using assms by (auto simp: poll_read_def poll_write_def Let_def split: prod.splits)

end
