(* ===== verification/Channels.thy ===== *)
theory Channels
  imports Connection
begin

text \<open>
  What the components exchange with the asynchronous runtime. Wakers and the sending halves of
  \<open>oneshot\<close> channels are third-party objects of which the program only calls the operations, so a
  call is an \<open>effect\<close> of the operation that makes it, in the order of the calls. The sending half
  of a bounded \<open>mpsc\<close> channel and the receiving half answer, so they are parameters: the records
  \<open>sender_ops\<close> and \<open>receiver_ops\<close>, with the promises of their documentation as predicates.
\<close>

section \<open>Effects\<close>

text \<open>
  \<open>Wake\<close> and \<open>Register\<close> are \<open>AtomicWaker::wake\<close> and \<open>register\<close>; \<open>Answer\<close> is
  \<open>oneshot::Sender::send\<close>, which consumes the sender; \<open>DropSender\<close> is a sender that goes out of
  scope unanswered, which its receiver sees as \<open>Canceled\<close>.
\<close>

datatype 'ss effect =
    Wake
  | Register
  | Answer oneshot "io_error + 'ss connection"
  | DropSender oneshot

text \<open>What a step of a behaviour shows: an effect, or an action returned from \<open>poll\<close>.\<close>

datatype ('ss, 'act) emission = Effect "'ss effect" | Emit 'act

text \<open>The \<open>oneshot\<close> senders an output disposes of.\<close>

fun settled :: "'ss effect \<Rightarrow> oneshot multiset" where
  "settled (Answer tx r) = {#tx#}"
| "settled (DropSender tx) = {#tx#}"
| "settled Wake = {#}"
| "settled Register = {#}"

section \<open>The halves of a bounded channel\<close>

record ('s, 'm) sender_ops =
  tx_poll_ready :: "'s \<Rightarrow> (string + unit) poll \<times> 's"
  tx_start_send :: "'s \<Rightarrow> 'm \<Rightarrow> (string + unit) \<times> 's"
  tx_poll_flush :: "'s \<Rightarrow> (string + unit) poll \<times> 's"

text \<open>
  The documented behaviour of a sender, over the messages \<open>sent\<close> into the channel so far: an
  accepted message goes to the end, nothing else changes what was sent.
\<close>

definition fifo_sender :: "('s, 'm) sender_ops \<Rightarrow> ('s \<Rightarrow> 'm list) \<Rightarrow> bool" where
  "fifo_sender ops sent \<longleftrightarrow>
     (\<forall>s. sent (snd (tx_poll_ready ops s)) = sent s) \<and>
     (\<forall>s. sent (snd (tx_poll_flush ops s)) = sent s) \<and>
     (\<forall>s m. sent (snd (tx_start_send ops s m)) =
        (case fst (tx_start_send ops s m) of Inl e \<Rightarrow> sent s | Inr u \<Rightarrow> sent s @ [m]))"

lemma fifo_poll_ready:
  "fifo_sender ops sent \<Longrightarrow> tx_poll_ready ops s = (r, s') \<Longrightarrow> sent s' = sent s"
  unfolding fifo_sender_def by (metis snd_conv)

lemma fifo_poll_flush:
  "fifo_sender ops sent \<Longrightarrow> tx_poll_flush ops s = (r, s') \<Longrightarrow> sent s' = sent s"
  unfolding fifo_sender_def by (metis snd_conv)

lemma fifo_start_send_Inr:
  "fifo_sender ops sent \<Longrightarrow> tx_start_send ops s m = (Inr u, s') \<Longrightarrow> sent s' = sent s @ [m]"
  unfolding fifo_sender_def by (metis fst_conv snd_conv sum.case(2))

lemma fifo_start_send_Inl:
  "fifo_sender ops sent \<Longrightarrow> tx_start_send ops s m = (Inl e, s') \<Longrightarrow> sent s' = sent s"
  unfolding fifo_sender_def by (metis fst_conv snd_conv sum.case(1))

lemmas fifo_sender_simps =
  fifo_poll_ready fifo_poll_flush fifo_start_send_Inr fifo_start_send_Inl

text \<open>Readiness and acceptance go together in a channel whose receiver stays alive.\<close>

definition live_sender :: "('s, 'm) sender_ops \<Rightarrow> bool" where
  "live_sender ops \<longleftrightarrow>
     (\<forall>s e s'. tx_poll_ready ops s \<noteq> (Ready (Inl e), s')) \<and>
     (\<forall>s e s'. tx_poll_flush ops s \<noteq> (Ready (Inl e), s')) \<and>
     (\<forall>s s' m e s''. tx_poll_ready ops s = (Ready (Inr ()), s') \<longrightarrow>
        tx_start_send ops s' m \<noteq> (Inl e, s''))"

text \<open>
  A concrete channel for evaluating the model: the room left, whether the receiver is alive, and
  what was sent.
\<close>

record 'm chan =
  room :: nat
  alive :: bool
  items :: "'m list"

definition chan_ops :: "('m chan, 'm) sender_ops" where
  "chan_ops = \<lparr>
     tx_poll_ready = (\<lambda>s. (if \<not> alive s then Ready (Inl ''closed'')
                           else if room s = 0 then Pending else Ready (Inr ()), s)),
     tx_start_send = (\<lambda>s m. if alive s \<and> room s \<noteq> 0
                              then (Inr (), s\<lparr>room := room s - 1, items := items s @ [m]\<rparr>)
                              else (Inl ''closed'', s)),
     tx_poll_flush = (\<lambda>s. (if alive s then Ready (Inr ()) else Ready (Inl ''closed''), s))\<rparr>"

lemma chan_ops_fifo: "fifo_sender chan_ops items"
  by (auto simp: fifo_sender_def chan_ops_def)

text \<open>A channel with a live receiver and room for every message, as \<open>live_sender\<close> asks.\<close>

definition open_ops :: "('m list, 'm) sender_ops" where
  "open_ops = \<lparr>tx_poll_ready = (\<lambda>s. (Ready (Inr ()), s)),
     tx_start_send = (\<lambda>s m. (Inr (), s @ [m])),
     tx_poll_flush = (\<lambda>s. (Ready (Inr ()), s))\<rparr>"

lemma open_ops_fifo: "fifo_sender open_ops (\<lambda>s. s)"
  by (simp add: fifo_sender_def open_ops_def)

lemma open_ops_live: "live_sender open_ops"
  by (simp add: live_sender_def open_ops_def)

text \<open>
  A channel that holds at most \<open>cap\<close> messages and whose receiver stays alive, over the messages in
  it: both halves act on the same queue (\<open>list_receiver\<close> is the other one). A channel made with the
  argument \<open>n\<close> holds \<open>n\<close> messages and one more for each sender, so \<open>cap\<close> is any number here.
\<close>

definition bounded_ops :: "nat \<Rightarrow> ('m list, 'm) sender_ops" where
  "bounded_ops cap = \<lparr>
     tx_poll_ready = (\<lambda>q. (if length q < cap then Ready (Inr ()) else Pending, q)),
     tx_start_send = (\<lambda>q m. if length q < cap then (Inr (), q @ [m]) else (Inl ''full'', q)),
     tx_poll_flush = (\<lambda>q. (if length q < cap then Ready (Inr ()) else Pending, q))\<rparr>"

lemma bounded_ops_fifo: "fifo_sender (bounded_ops cap) (\<lambda>q. q)"
  by (auto simp: fifo_sender_def bounded_ops_def)

lemma bounded_ops_live: "live_sender (bounded_ops cap)"
  by (auto simp: live_sender_def bounded_ops_def)

record ('r, 'm) receiver_ops =
  rx_poll_next :: "'r \<Rightarrow> 'm option poll \<times> 'r"

text \<open>
  The documented behaviour of a receiver, over the messages \<open>queued\<close> for it: a message that is
  returned was the oldest one; a pending receiver has none queued.
\<close>

definition fifo_receiver :: "('r, 'm) receiver_ops \<Rightarrow> ('r \<Rightarrow> 'm list) \<Rightarrow> bool" where
  "fifo_receiver ops queued \<longleftrightarrow>
     (\<forall>r. case rx_poll_next ops r of
        (Ready (Some m), r') \<Rightarrow> queued r = m # queued r'
      | (_, r') \<Rightarrow> queued r = [] \<and> queued r' = [])"

lemma fifo_receiver_Some:
  "fifo_receiver ops queued \<Longrightarrow> rx_poll_next ops r = (Ready (Some m), r') \<Longrightarrow>
     queued r = m # queued r'"
  by (auto simp: fifo_receiver_def dest: spec [of _ r])

lemma fifo_receiver_Pending:
  "fifo_receiver ops queued \<Longrightarrow> rx_poll_next ops r = (Pending, r') \<Longrightarrow>
     queued r = [] \<and> queued r' = []"
  by (auto simp: fifo_receiver_def dest: spec [of _ r])

text \<open>A concrete receiver whose sender stays alive.\<close>

definition list_receiver :: "('m list, 'm) receiver_ops" where
  "list_receiver = \<lparr>rx_poll_next =
     (\<lambda>q. case q of [] \<Rightarrow> (Pending, []) | m # ms \<Rightarrow> (Ready (Some m), ms))\<rparr>"

lemma list_receiver_fifo: "fifo_receiver list_receiver (\<lambda>q. q)"
  by (auto simp: fifo_receiver_def list_receiver_def split: list.splits)

end
