(* ===== verification/Swarm.thy ===== *)
theory Swarm
  imports Channels
begin

text \<open>
  The vocabulary of the swarm that drives the handlers and behaviours: the variants of
  \<open>libp2p_swarm\<close>'s enumerations that the program builds or matches on, and the errors it derives
  from them. The swarm itself is third-party: what it calls and when is the environment's choice.
\<close>

datatype keep_alive = KeepAliveYes | KeepAliveNo

text \<open>\<open>ConnectionHandlerEvent\<close>: a request for an outbound substream, with the protocol that
  upgrades it and the information kept for its outcome, or an event for the behaviour.\<close>

datatype ('proto, 'info, 'out) handler_event =
    OutboundSubstreamRequest 'proto 'info
  | Custom 'out

text \<open>\<open>ConnectionHandlerUpgrErr\<close>: the program tells a timeout from the rest, which it keeps by its
  \<open>Display\<close> text.\<close>

datatype upgr_err = UpgrTimeout | UpgrOther string

datatype ('inb, 'outb, 'info) connection_event =
    FullyNegotiatedInbound 'inb
  | FullyNegotiatedOutbound 'outb 'info
  | AddressChange multiaddr
  | DialUpgradeError 'info upgr_err
  | ListenUpgradeError upgr_err

text \<open>The error that both handlers make of a failed upgrade.\<close>

fun upgr_io_error :: "upgr_err \<Rightarrow> io_error" where
  "upgr_io_error UpgrTimeout = IoSimple KindTimedOut"
| "upgr_io_error (UpgrOther s) = IoCustom KindOther s"

text \<open>\<open>NetworkBehaviourAction\<close>; the program notifies any handler of the peer
  (\<open>NotifyHandler::Any\<close>), so only the peer is kept.\<close>

datatype ('ev, 'h, 'inev) action =
    GenerateEvent 'ev
  | DialPeer peer_id "multiaddr list" 'h
  | NotifyHandler peer_id 'inev

datatype from_swarm =
    ConnectionEstablished peer_id connection_id multiaddr
  | ConnectionClosed peer_id connection_id multiaddr
  | SwarmAddressChange
  | DialFailure "peer_id option" string
  | ListenFailure
  | NewListener
  | NewListenAddr
  | ExpiredListenAddr
  | ListenerError
  | ListenerClosed
  | NewExternalAddr
  | ExpiredExternalAddr

end
