(* ===== verification/Proto.thy ===== *)
theory Proto
  imports Prelude
begin

text \<open>
  The wire vocabulary: the messages of \<open>proto/auto_relay.proto\<close> and the constants of
  \<open>src/lib.rs\<close>. A request is decoded as one message type, a response as another (the codec is
  typed), so each message is a type of its own; the bytes of the codec are third-party.
\<close>

record pb_dial_request =
  dial_peer_id :: string
  dial_addr :: string

datatype pb_dial_result = PbDialSuccess | PbDialFailed string
type_synonym pb_dial_response = "pb_dial_result option"

record pb_listen_request =
  req_listen_peer_id :: string
  req_listen_addr :: string

datatype pb_listen_result = PbListenSuccess | PbListenFailed string
type_synonym pb_listen_response = "pb_listen_result option"

record pb_connect_request =
  con_dst_addr :: string
  con_dst_peer_id :: string
  con_dialer_addr :: string

datatype pb_connect_result = PbConnectSuccess | PbConnectFailed string
type_synonym pb_connect_response = "pb_connect_result option"

definition AUTO_RELAY_DIAL_PROTOCOL :: string where
  "AUTO_RELAY_DIAL_PROTOCOL = ''/auto-relay/0.1/dial''"

definition AUTO_RELAY_LISTEN_PROTOCOL :: string where
  "AUTO_RELAY_LISTEN_PROTOCOL = ''/auto-relay/0.1/listen''"

definition AUTO_RELAY_CONNECT_PROTOCOL :: string where
  "AUTO_RELAY_CONNECT_PROTOCOL = ''/auto-relay/0.1/connect''"

definition MAX_MESSAGE_SIZE :: nat where
  "MAX_MESSAGE_SIZE = 4096"

lemmas protocol_defs =
  AUTO_RELAY_DIAL_PROTOCOL_def AUTO_RELAY_LISTEN_PROTOCOL_def AUTO_RELAY_CONNECT_PROTOCOL_def

lemma protocols_distinct [simp]:
  "AUTO_RELAY_DIAL_PROTOCOL \<noteq> AUTO_RELAY_LISTEN_PROTOCOL"
  "AUTO_RELAY_LISTEN_PROTOCOL \<noteq> AUTO_RELAY_DIAL_PROTOCOL"
  "AUTO_RELAY_DIAL_PROTOCOL \<noteq> AUTO_RELAY_CONNECT_PROTOCOL"
  "AUTO_RELAY_CONNECT_PROTOCOL \<noteq> AUTO_RELAY_DIAL_PROTOCOL"
  "AUTO_RELAY_LISTEN_PROTOCOL \<noteq> AUTO_RELAY_CONNECT_PROTOCOL"
  "AUTO_RELAY_CONNECT_PROTOCOL \<noteq> AUTO_RELAY_LISTEN_PROTOCOL"
  by (simp_all add: protocol_defs)

end
