(* ===== verification/Async_Upgrade.thy ===== *)
theory Async_Upgrade
  imports Channels Proto "HOL-Library.Sublist"
begin

text \<open>
  An \<open>async\<close> upgrade function is the tree of its awaits: each constructor is one \<open>.await\<close> (or one
  call on the framed substream), with the continuation that receives the answer. The environment
  (peer, codec, behaviour) chooses the answers, so a statement about all runs is a statement
  about every environment. The codec, the substream and the channels stay third-party.
\<close>

section \<open>Upgrades as trees of awaits\<close>

text \<open>What a relay upgrade asks of its behaviour (\<open>src/relay/upgrade/inbound.rs\<close>).\<close>

record connect_request =
  cr_dst_peer_id :: peer_id
  cr_dst_addr :: multiaddr
  cr_dialer_addr :: multiaddr
  cr_connection_sender :: oneshot

text \<open>
  \<open>TryNext\<close> is \<open>framed.try_next().await\<close>, \<open>SendMsg\<close> is \<open>framed.send(m).await\<close>, \<open>FlushFramed\<close> is
  \<open>framed.flush().await\<close>, \<open>IntoParts\<close> is \<open>framed.into_parts()\<close> with its read buffer and substream;
  \<open>NewOneshot\<close> is \<open>oneshot::channel()\<close>, \<open>SubmitConnect\<close> the send on the behaviour's \<open>mpsc\<close>
  channel, \<open>AwaitConnection\<close> the await of the receiver: \<open>Inl\<close> when the sender was dropped.
\<close>

datatype ('i, 'o, 'ss, 'r) upg =
    Done 'r
  | TryNext "io_error + 'i option \<Rightarrow> ('i, 'o, 'ss, 'r) upg"
  | SendMsg 'o "io_error + unit \<Rightarrow> ('i, 'o, 'ss, 'r) upg"
  | FlushFramed "io_error + unit \<Rightarrow> ('i, 'o, 'ss, 'r) upg"
  | IntoParts "bytes \<times> 'ss \<Rightarrow> ('i, 'o, 'ss, 'r) upg"
  | NewOneshot "oneshot \<Rightarrow> ('i, 'o, 'ss, 'r) upg"
  | SubmitConnect mpsc_tx connect_request "string + unit \<Rightarrow> ('i, 'o, 'ss, 'r) upg"
  | AwaitConnection oneshot "string + (io_error + 'ss connection) \<Rightarrow> ('i, 'o, 'ss, 'r) upg"

text \<open>The ends of an upgrade that returns a \<open>Result\<close> and may panic.\<close>

abbreviation upg_ok :: "'a \<Rightarrow> ('i, 'o, 'ss, panic + 'e + 'a) upg" where
  "upg_ok x \<equiv> Done (Inr (Inr x))"

abbreviation upg_err :: "'e \<Rightarrow> ('i, 'o, 'ss, panic + 'e + 'a) upg" where
  "upg_err e \<equiv> Done (Inr (Inl e))"

abbreviation upg_panic :: "string \<Rightarrow> ('i, 'o, 'ss, panic + 'e + 'a) upg" where
  "upg_panic msg \<equiv> Done (Inl (Panic msg))"

text \<open>Which operation a failed upgrade was after (\<open>UpgradeAction\<close>, the same in both halves).\<close>

datatype upgrade_action = ActionDial | ActionListen | ActionConnect

text \<open>Calling an \<open>async\<close> function and going on with what it returned.\<close>

primrec bind_upg ::
  "('i, 'o, 'ss, 'a) upg \<Rightarrow> ('a \<Rightarrow> ('i, 'o, 'ss, 'b) upg) \<Rightarrow> ('i, 'o, 'ss, 'b) upg" where
  "bind_upg (Done r) f = f r"
| "bind_upg (TryNext k) f = TryNext (\<lambda>x. bind_upg (k x) f)"
| "bind_upg (SendMsg m k) f = SendMsg m (\<lambda>x. bind_upg (k x) f)"
| "bind_upg (FlushFramed k) f = FlushFramed (\<lambda>x. bind_upg (k x) f)"
| "bind_upg (IntoParts k) f = IntoParts (\<lambda>x. bind_upg (k x) f)"
| "bind_upg (NewOneshot k) f = NewOneshot (\<lambda>x. bind_upg (k x) f)"
| "bind_upg (SubmitConnect tx q k) f = SubmitConnect tx q (\<lambda>x. bind_upg (k x) f)"
| "bind_upg (AwaitConnection tx k) f = AwaitConnection tx (\<lambda>x. bind_upg (k x) f)"

lemma bind_upg_assoc: "bind_upg (bind_upg p f) g = bind_upg p (\<lambda>x. bind_upg (f x) g)"
  by (induction p) simp_all

lemma bind_upg_Done: "bind_upg p Done = p"
  by (induction p) simp_all

section \<open>Runs\<close>

datatype ('i, 'o, 'ss) ev =
    EvNext "io_error + 'i option"
  | EvSend 'o "io_error + unit"
  | EvFlush "io_error + unit"
  | EvParts "bytes \<times> 'ss"
  | EvOneshot oneshot
  | EvSubmit mpsc_tx connect_request "string + unit"
  | EvConn oneshot "string + (io_error + 'ss connection)"

inductive resumes ::
  "('i, 'o, 'ss, 'r) upg \<Rightarrow> ('i, 'o, 'ss) ev \<Rightarrow> ('i, 'o, 'ss, 'r) upg \<Rightarrow> bool" where
  resumes_next: "resumes (TryNext k) (EvNext x) (k x)"
| resumes_send: "resumes (SendMsg m k) (EvSend m x) (k x)"
| resumes_flush: "resumes (FlushFramed k) (EvFlush x) (k x)"
| resumes_parts: "resumes (IntoParts k) (EvParts x) (k x)"
| resumes_oneshot: "resumes (NewOneshot k) (EvOneshot t) (k t)"
| resumes_submit: "resumes (SubmitConnect tx q k) (EvSubmit tx q x) (k x)"
| resumes_conn: "resumes (AwaitConnection t k) (EvConn t x) (k x)"

inductive_simps resumes_simps [simp]:
  "resumes (Done r) e q"
  "resumes (TryNext k) e q"
  "resumes (SendMsg m k) e q"
  "resumes (FlushFramed k) e q"
  "resumes (IntoParts k) e q"
  "resumes (NewOneshot k) e q"
  "resumes (SubmitConnect tx c k) e q"
  "resumes (AwaitConnection t k) e q"

inductive runs ::
  "('i, 'o, 'ss, 'r) upg \<Rightarrow> ('i, 'o, 'ss) ev list \<Rightarrow> ('i, 'o, 'ss, 'r) upg \<Rightarrow> bool" where
  runs_stop: "runs p [] p"
| runs_more: "resumes p e p' \<Longrightarrow> runs p' es q \<Longrightarrow> runs p (e # es) q"

inductive_simps runs_Nil [simp]: "runs p [] q"
inductive_simps runs_Cons [simp]: "runs p (e # es) q"

text \<open>A run to the end, with its result.\<close>

abbreviation completes ::
  "('i, 'o, 'ss, 'r) upg \<Rightarrow> ('i, 'o, 'ss) ev list \<Rightarrow> 'r \<Rightarrow> bool" where
  "completes p tr r \<equiv> runs p tr (Done r)"

text \<open>The same resumption as a function of the await and its answer, for evaluation.\<close>

fun resume :: "('i, 'o, 'ss, 'r) upg \<Rightarrow> ('i, 'o, 'ss) ev \<Rightarrow> ('i, 'o, 'ss, 'r) upg option" where
  "resume (TryNext k) (EvNext x) = Some (k x)"
| "resume (SendMsg m k) (EvSend m' x) = (if m' = m then Some (k x) else None)"
| "resume (FlushFramed k) (EvFlush x) = Some (k x)"
| "resume (IntoParts k) (EvParts x) = Some (k x)"
| "resume (NewOneshot k) (EvOneshot t) = Some (k t)"
| "resume (SubmitConnect tx q k) (EvSubmit tx' q' x) =
     (if tx' = tx \<and> q' = q then Some (k x) else None)"
| "resume (AwaitConnection t k) (EvConn t' x) = (if t' = t then Some (k x) else None)"
| "resume p e = None"

lemma resume_iff: "resume p e = Some q \<longleftrightarrow> resumes p e q"
  by (cases p; cases e) auto

lemma runs_snoc: "runs p tr q \<Longrightarrow> resumes q e q' \<Longrightarrow> runs p (tr @ [e]) q'"
  by (induction rule: runs.induct) auto

text \<open>How a run of each kind of await begins.\<close>

lemma completes_Done [simp]: "runs (Done r) tr q \<longleftrightarrow> tr = [] \<and> q = Done r"
  by (cases tr) auto

lemma completes_next:
  "completes (TryNext k) tr r \<longleftrightarrow> (\<exists>x tr'. tr = EvNext x # tr' \<and> completes (k x) tr' r)"
  by (cases tr) auto

lemma completes_send:
  "completes (SendMsg m k) tr r \<longleftrightarrow> (\<exists>x tr'. tr = EvSend m x # tr' \<and> completes (k x) tr' r)"
  by (cases tr) auto

lemma completes_flush:
  "completes (FlushFramed k) tr r \<longleftrightarrow> (\<exists>x tr'. tr = EvFlush x # tr' \<and> completes (k x) tr' r)"
  by (cases tr) auto

lemma completes_parts:
  "completes (IntoParts k) tr r \<longleftrightarrow> (\<exists>x tr'. tr = EvParts x # tr' \<and> completes (k x) tr' r)"
  by (cases tr) auto

lemma completes_oneshot:
  "completes (NewOneshot k) tr r \<longleftrightarrow> (\<exists>x tr'. tr = EvOneshot x # tr' \<and> completes (k x) tr' r)"
  by (cases tr) auto

lemma completes_submit:
  "completes (SubmitConnect tx q k) tr r \<longleftrightarrow>
     (\<exists>x tr'. tr = EvSubmit tx q x # tr' \<and> completes (k x) tr' r)"
  by (cases tr) auto

lemma completes_conn:
  "completes (AwaitConnection t k) tr r \<longleftrightarrow>
     (\<exists>x tr'. tr = EvConn t x # tr' \<and> completes (k x) tr' r)"
  by (cases tr) auto

text \<open>A branch on an answer: as a disjunction, so that a run is followed case by case.\<close>

lemma completes_sum:
  "completes (case x of Inl a \<Rightarrow> f a | Inr b \<Rightarrow> g b) tr r \<longleftrightarrow>
     (\<exists>a. x = Inl a \<and> completes (f a) tr r) \<or> (\<exists>b. x = Inr b \<and> completes (g b) tr r)"
  by (cases x) simp_all

lemma completes_option:
  "completes (case x of None \<Rightarrow> f | Some b \<Rightarrow> g b) tr r \<longleftrightarrow>
     (x = None \<and> completes f tr r) \<or> (\<exists>b. x = Some b \<and> completes (g b) tr r)"
  by (cases x) simp_all

lemma completes_prod:
  "completes (case x of (a, b) \<Rightarrow> f a b) tr r \<longleftrightarrow> (\<exists>a b. x = (a, b) \<and> completes (f a b) tr r)"
  by (cases x) simp_all

lemma completes_dial_result:
  "completes (case x of PbDialSuccess \<Rightarrow> f | PbDialFailed s \<Rightarrow> g s) tr r \<longleftrightarrow>
     (x = PbDialSuccess \<and> completes f tr r) \<or> (\<exists>s. x = PbDialFailed s \<and> completes (g s) tr r)"
  by (cases x) simp_all

lemma completes_listen_result:
  "completes (case x of PbListenSuccess \<Rightarrow> f | PbListenFailed s \<Rightarrow> g s) tr r \<longleftrightarrow>
     (x = PbListenSuccess \<and> completes f tr r) \<or>
     (\<exists>s. x = PbListenFailed s \<and> completes (g s) tr r)"
  by (cases x) simp_all

lemma completes_connect_result:
  "completes (case x of PbConnectSuccess \<Rightarrow> f | PbConnectFailed s \<Rightarrow> g s) tr r \<longleftrightarrow>
     (x = PbConnectSuccess \<and> completes f tr r) \<or>
     (\<exists>s. x = PbConnectFailed s \<and> completes (g s) tr r)"
  by (cases x) simp_all

lemmas completes_simps = completes_sum completes_option completes_prod
  completes_dial_result completes_listen_result completes_connect_result completes_next completes_send completes_flush completes_parts
  completes_oneshot completes_submit completes_conn

text \<open>A run of a call followed by its continuation is a run of the call, then of the continuation.\<close>

lemma completes_head:
  "(\<exists>x tr'. tr = E x # tr' \<and> (\<exists>tr1 tr2. tr' = tr1 @ tr2 \<and> (\<exists>y. P x tr1 y \<and> Q tr2 y))) \<longleftrightarrow>
   (\<exists>tr1 tr2. tr = tr1 @ tr2 \<and> (\<exists>y. (\<exists>x tr'. tr1 = E x # tr' \<and> P x tr' y) \<and> Q tr2 y))"
  (is "?L \<longleftrightarrow> ?R")
proof
  assume ?L
  then obtain x tr1 tr2 y where "tr = (E x # tr1) @ tr2" "P x tr1 y" "Q tr2 y"
    by auto
  then show ?R by blast
next
  assume ?R
  then obtain x tr1 tr2 y where "tr = E x # (tr1 @ tr2)" "P x tr1 y" "Q tr2 y"
    by auto
  then show ?L by blast
qed

lemma completes_bind:
  "completes (bind_upg p f) tr r \<longleftrightarrow>
     (\<exists>tr1 tr2 x. tr = tr1 @ tr2 \<and> completes p tr1 x \<and> completes (f x) tr2 r)"
  by (induction p arbitrary: tr) (simp_all add: completes_simps completes_head del: split_paired_Ex)

lemma resumes_bind_Done:
  "resumes (bind_upg p (\<lambda>r. Done (f r))) e q \<longleftrightarrow>
     (\<exists>p'. resumes p e p' \<and> q = bind_upg p' (\<lambda>r. Done (f r)))"
  by (cases p) auto

text \<open>Tagging the result of a call adds no await.\<close>

lemma runs_bind_Done:
  "runs (bind_upg p (\<lambda>r. Done (f r))) tr q \<longleftrightarrow>
     (\<exists>p'. runs p tr p' \<and> q = bind_upg p' (\<lambda>r. Done (f r)))"
proof (induction tr arbitrary: p)
  case (Cons e tr)
  show ?case
    by (simp add: resumes_bind_Done) (metis Cons.IH)
qed simp

lemma bind_upg_is_Done: "bind_upg p (\<lambda>r. Done (f r)) = Done x \<longleftrightarrow> (\<exists>r. p = Done r \<and> f r = x)"
  by (cases p) auto

lemma Done_is_bind_upg: "Done x = bind_upg p (\<lambda>r. Done (f r)) \<longleftrightarrow> (\<exists>r. p = Done r \<and> f r = x)"
  using bind_upg_is_Done [of p f x] by metis

text \<open>The same for runs that need not be complete.\<close>

lemma runs_next:
  "runs (TryNext k) tr q \<longleftrightarrow> tr = [] \<and> q = TryNext k \<or> (\<exists>x tr'. tr = EvNext x # tr' \<and> runs (k x) tr' q)"
  by (cases tr) auto

lemma runs_send:
  "runs (SendMsg m k) tr q \<longleftrightarrow>
     tr = [] \<and> q = SendMsg m k \<or> (\<exists>x tr'. tr = EvSend m x # tr' \<and> runs (k x) tr' q)"
  by (cases tr) auto

lemma runs_parts:
  "runs (IntoParts k) tr q \<longleftrightarrow>
     tr = [] \<and> q = IntoParts k \<or> (\<exists>x tr'. tr = EvParts x # tr' \<and> runs (k x) tr' q)"
  by (cases tr) auto

lemma runs_oneshot:
  "runs (NewOneshot k) tr q \<longleftrightarrow>
     tr = [] \<and> q = NewOneshot k \<or> (\<exists>x tr'. tr = EvOneshot x # tr' \<and> runs (k x) tr' q)"
  by (cases tr) auto

lemma runs_submit:
  "runs (SubmitConnect tx c k) tr q \<longleftrightarrow>
     tr = [] \<and> q = SubmitConnect tx c k \<or> (\<exists>x tr'. tr = EvSubmit tx c x # tr' \<and> runs (k x) tr' q)"
  by (cases tr) auto

lemma runs_conn:
  "runs (AwaitConnection t k) tr q \<longleftrightarrow>
     tr = [] \<and> q = AwaitConnection t k \<or> (\<exists>x tr'. tr = EvConn t x # tr' \<and> runs (k x) tr' q)"
  by (cases tr) auto

lemma runs_sum:
  "runs (case x of Inl a \<Rightarrow> f a | Inr b \<Rightarrow> g b) tr q \<longleftrightarrow>
     (\<exists>a. x = Inl a \<and> runs (f a) tr q) \<or> (\<exists>b. x = Inr b \<and> runs (g b) tr q)"
  by (cases x) simp_all

lemma runs_option:
  "runs (case x of None \<Rightarrow> f | Some b \<Rightarrow> g b) tr q \<longleftrightarrow>
     (x = None \<and> runs f tr q) \<or> (\<exists>b. x = Some b \<and> runs (g b) tr q)"
  by (cases x) simp_all

lemma runs_prod:
  "runs (case x of (a, b) \<Rightarrow> f a b) tr q \<longleftrightarrow> (\<exists>a b. x = (a, b) \<and> runs (f a b) tr q)"
  by (cases x) simp_all

lemma runs_connect_result:
  "runs (case x of PbConnectSuccess \<Rightarrow> f | PbConnectFailed s \<Rightarrow> g s) tr q \<longleftrightarrow>
     (x = PbConnectSuccess \<and> runs f tr q) \<or> (\<exists>s. x = PbConnectFailed s \<and> runs (g s) tr q)"
  by (cases x) simp_all

lemmas runs_simps = runs_sum runs_option runs_prod runs_connect_result runs_next runs_send
  runs_parts runs_oneshot runs_submit runs_conn

text \<open>The \<open>oneshot\<close> channels an upgrade made, and the requests it handed to the behaviour.\<close>

fun allocated :: "('i, 'o, 'ss) ev list \<Rightarrow> oneshot list" where
  "allocated [] = []"
| "allocated (EvOneshot t # es) = t # allocated es"
| "allocated (e # es) = allocated es"

fun submits :: "('i, 'o, 'ss) ev list \<Rightarrow> connect_request list" where
  "submits [] = []"
| "submits (EvSubmit tx q (Inr u) # es) = q # submits es"
| "submits (e # es) = submits es"

lemma allocated_append [simp]: "allocated (xs @ ys) = allocated xs @ allocated ys"
  by (induction xs rule: allocated.induct) simp_all

lemma submits_append [simp]: "submits (xs @ ys) = submits xs @ submits ys"
  by (induction xs rule: submits.induct) simp_all

lemma in_submits: "EvSubmit tx q (Inr u) \<in> set es \<Longrightarrow> q \<in> set (submits es)"
  by (induction es rule: submits.induct) auto

text \<open>The messages an upgrade tried to send, the ones it sent, and the ones it received.\<close>

fun attempted :: "('i, 'o, 'ss) ev list \<Rightarrow> 'o list" where
  "attempted [] = []"
| "attempted (EvSend m x # es) = m # attempted es"
| "attempted (e # es) = attempted es"

fun sent :: "('i, 'o, 'ss) ev list \<Rightarrow> 'o list" where
  "sent [] = []"
| "sent (EvSend m (Inr u) # es) = m # sent es"
| "sent (e # es) = sent es"

fun received :: "('i, 'o, 'ss) ev list \<Rightarrow> 'i list" where
  "received [] = []"
| "received (EvNext (Inr (Some m)) # es) = m # received es"
| "received (e # es) = received es"

text \<open>
  One direction of a reliable substream between two upgrades: what the reader got is the
  beginning of what the writer tried to send (a send that reported an error may still have
  delivered its message).
\<close>

definition delivers :: "('a, 'm, 's) ev list \<Rightarrow> ('m, 'b, 't) ev list \<Rightarrow> bool" where
  "delivers writer reader \<longleftrightarrow> prefix (received reader) (attempted writer)"

end
