(* ===== verification/Relay_Upgrade.thy ===== *)
theory Relay_Upgrade
  imports Async_Upgrade
begin

text \<open>
  \<open>src/relay/upgrade\<close>: what the relay does on a substream. Inbound it answers a dial request
  (after its behaviour has obtained a connection to the destination) or a listen request;
  outbound it asks a listening endpoint to accept a connection.
\<close>

section \<open>Errors and data\<close>

datatype relay_error =
    RIo io_error
  | RUnexpectedStreamClosed
  | RBehaviourDropped
  | RConnectFailed multiaddr io_error
  | RInvalidDstPeerId string
  | RInvalidDstAddr string
  | RInvalidListenPeerId string
  | RInvalidListenAddr string
  | RUnexpectedResult
  | RActionFailed upgrade_action "string option"

record relay_inbound_upgrade =
  ri_remote_addr :: "multiaddr option"
  ri_connect_request_sender :: mpsc_tx

definition relay_inbound_new :: "multiaddr option \<Rightarrow> mpsc_tx \<Rightarrow> relay_inbound_upgrade" where
  "relay_inbound_new ra tx = \<lparr>ri_remote_addr = ra, ri_connect_request_sender = tx\<rparr>"

definition relay_inbound_protocol_info :: "relay_inbound_upgrade \<Rightarrow> string list" where
  "relay_inbound_protocol_info h = [AUTO_RELAY_DIAL_PROTOCOL, AUTO_RELAY_LISTEN_PROTOCOL]"

record listen_request =
  lr_listen_peer_id :: peer_id
  lr_listen_addr :: multiaddr

record relay_outbound_upgrade =
  ro_dialer_addr :: multiaddr
  ro_dst_peer_id :: peer_id
  ro_dst_addr :: multiaddr

definition relay_outbound_new ::
  "multiaddr \<Rightarrow> peer_id \<Rightarrow> multiaddr \<Rightarrow> relay_outbound_upgrade" where
  "relay_outbound_new dialer_addr dst_peer_id dst_addr =
     \<lparr>ro_dialer_addr = dialer_addr, ro_dst_peer_id = dst_peer_id, ro_dst_addr = dst_addr\<rparr>"

definition relay_outbound_protocol_info :: "relay_outbound_upgrade \<Rightarrow> string list" where
  "relay_outbound_protocol_info u = [AUTO_RELAY_CONNECT_PROTOCOL]"

section \<open>The upgrades\<close>

type_synonym 'ss relay_dial_upg =
  "(pb_dial_request, pb_dial_response, 'ss,
    panic + relay_error + 'ss connection \<times> 'ss connection) upg"

text \<open>The failure response of \<open>dial_upgrade\<close>, whose own result is ignored, and the early return.\<close>

definition dial_fail :: "string \<Rightarrow> relay_error \<Rightarrow> 'ss relay_dial_upg" where
  "dial_fail reason e = SendMsg (Some (PbDialFailed reason)) (\<lambda>_. upg_err e)"

definition relay_dial_upgrade :: "lib \<Rightarrow> relay_inbound_upgrade \<Rightarrow> 'ss relay_dial_upg" where
  "relay_dial_upgrade L h =
     (case ri_remote_addr h of
        None \<Rightarrow> upg_panic ''remote addr is None''
      | Some dialer_addr \<Rightarrow>
          TryNext (\<lambda>m. case m of
            Inl e \<Rightarrow> upg_err (RIo e)
          | Inr None \<Rightarrow> upg_err RUnexpectedStreamClosed
          | Inr (Some req) \<Rightarrow>
              (case parse_peer L (dial_peer_id req) of
                 Inl err \<Rightarrow> dial_fail err (RInvalidDstPeerId (dial_peer_id req))
               | Inr peer_id \<Rightarrow>
                   (case parse_multiaddr L (dial_addr req) of
                      Inl err \<Rightarrow> dial_fail err (RInvalidDstAddr (dial_addr req))
                    | Inr addr \<Rightarrow>
                        NewOneshot (\<lambda>tx.
                          SubmitConnect (ri_connect_request_sender h)
                            \<lparr>cr_dst_peer_id = peer_id, cr_dst_addr = addr,
                             cr_dialer_addr = dialer_addr, cr_connection_sender = tx\<rparr>
                            (\<lambda>r. case r of
                               Inl err \<Rightarrow> dial_fail err RBehaviourDropped
                             | Inr _ \<Rightarrow>
                                 AwaitConnection tx (\<lambda>r. case r of
                                   Inl err \<Rightarrow> dial_fail err RBehaviourDropped
                                 | Inr (Inl err) \<Rightarrow> dial_fail (show_io L err) (RConnectFailed addr err)
                                 | Inr (Inr connection) \<Rightarrow>
                                     SendMsg (Some PbDialSuccess) (\<lambda>r. case r of
                                       Inl _ \<Rightarrow> upg_err RUnexpectedStreamClosed
                                     | Inr _ \<Rightarrow>
                                         IntoParts (\<lambda>(read_buffer, io).
                                           upg_ok (new_connection dialer_addr read_buffer io,
                                                   connection))))))))))"

type_synonym 'ss relay_listen_upg =
  "(pb_listen_request, pb_listen_response, 'ss, panic + relay_error + listen_request) upg"

definition relay_listen_upgrade :: "lib \<Rightarrow> relay_inbound_upgrade \<Rightarrow> 'ss relay_listen_upg" where
  "relay_listen_upgrade L h =
     TryNext (\<lambda>m. case m of
       Inl e \<Rightarrow> upg_err (RIo e)
     | Inr None \<Rightarrow> upg_err RUnexpectedStreamClosed
     | Inr (Some req) \<Rightarrow>
         (case parse_peer L (req_listen_peer_id req) of
            Inl err \<Rightarrow> SendMsg (Some (PbListenFailed err))
                         (\<lambda>_. upg_err (RInvalidListenPeerId (req_listen_peer_id req)))
          | Inr listen_peer_id \<Rightarrow>
              (case parse_multiaddr L (req_listen_addr req) of
                 Inl err \<Rightarrow> SendMsg (Some (PbListenFailed err))
                              (\<lambda>_. upg_err (RInvalidListenAddr (req_listen_addr req)))
               | Inr listen_addr \<Rightarrow>
                   SendMsg (Some PbListenSuccess) (\<lambda>r. case r of
                     Inl e \<Rightarrow> upg_err (RIo e)
                   | Inr _ \<Rightarrow> upg_ok \<lparr>lr_listen_peer_id = listen_peer_id,
                                       lr_listen_addr = listen_addr\<rparr>))))"

text \<open>
  \<open>upgrade_inbound\<close> runs the upgrade of the negotiated protocol and tags its result; the two
  upgrades speak different messages, so what it returns is one tree or the other.
\<close>

definition relay_upgrade_inbound ::
  "lib \<Rightarrow> relay_inbound_upgrade \<Rightarrow> string \<Rightarrow>
     panic +
     (pb_dial_request, pb_dial_response, 'ss,
       panic + relay_error + (('ss connection \<times> 'ss connection) + listen_request)) upg +
     (pb_listen_request, pb_listen_response, 'ss,
       panic + relay_error + (('ss connection \<times> 'ss connection) + listen_request)) upg" where
  "relay_upgrade_inbound L h info =
     (if info = AUTO_RELAY_DIAL_PROTOCOL then
        Inr (Inl (bind_upg (relay_dial_upgrade L h) (\<lambda>r. Done (map_sum id (map_sum id Inl) r))))
      else if info = AUTO_RELAY_LISTEN_PROTOCOL then
        Inr (Inr (bind_upg (relay_listen_upgrade L h) (\<lambda>r. Done (map_sum id (map_sum id Inr) r))))
      else Inl (Panic ''internal error: entered unreachable code''))"

definition relay_upgrade_outbound ::
  "lib \<Rightarrow> relay_outbound_upgrade \<Rightarrow>
     (pb_connect_response, pb_connect_request, 'ss, panic + relay_error + 'ss connection) upg" where
  "relay_upgrade_outbound L u =
     SendMsg \<lparr>con_dst_addr = show_addr L (ro_dst_addr u),
              con_dst_peer_id = show_peer L (ro_dst_peer_id u),
              con_dialer_addr = show_addr L (ro_dialer_addr u)\<rparr>
       (\<lambda>r. case r of
          Inl _ \<Rightarrow> upg_err RUnexpectedStreamClosed
        | Inr _ \<Rightarrow>
            TryNext (\<lambda>m. case m of
              Inl _ \<Rightarrow> upg_err RUnexpectedStreamClosed
            | Inr None \<Rightarrow> upg_err RUnexpectedStreamClosed
            | Inr (Some None) \<Rightarrow> upg_err RUnexpectedResult
            | Inr (Some (Some (PbConnectFailed reason))) \<Rightarrow>
                upg_err (RActionFailed ActionConnect (Some reason))
            | Inr (Some (Some PbConnectSuccess)) \<Rightarrow>
                IntoParts (\<lambda>(read_buffer, io).
                  upg_ok (new_connection (ro_dst_addr u) read_buffer io))))"

section \<open>The inbound dial\<close>

lemmas relay_dial_simps = relay_dial_upgrade_def dial_fail_def completes_simps

text \<open>
  C19: The relay's inbound dial returns a pair of connections exactly on the runs that take every
  step of the handshake: the request parses, the connect request with the parsed destination and
  the dialer's address was accepted by the behaviour, the behaviour answered that request with a
  connection, and the success response was sent. The pair is the dialer's own substream, with
  the bytes read past the request, under the dialer's address, and the behaviour's connection.
\<close>

theorem relay_dial_success_iff:
  "completes (relay_dial_upgrade L h) tr (Inr (Inr (dc, c))) \<longleftrightarrow>
   (\<exists>req ra p a tx buf ss.
      ri_remote_addr h = Some ra \<and>
      parse_peer L (dial_peer_id req) = Inr p \<and> parse_multiaddr L (dial_addr req) = Inr a \<and>
      tr = [EvNext (Inr (Some req)), EvOneshot tx,
            EvSubmit (ri_connect_request_sender h)
              \<lparr>cr_dst_peer_id = p, cr_dst_addr = a, cr_dialer_addr = ra,
               cr_connection_sender = tx\<rparr> (Inr ()),
            EvConn tx (Inr (Inr c)), EvSend (Some PbDialSuccess) (Inr ()),
            EvParts (buf, ss)] \<and>
      dc = new_connection ra buf ss)" (is "?L \<longleftrightarrow> ?R")
proof
  assume ?L
  then show ?R
    by (auto simp: relay_dial_simps)
next
  assume ?R
  then show ?L
    by (elim exE conjE) (simp add: relay_dial_upgrade_def)
qed

text \<open>
  Whatever the environment does, a finished inbound dial has sent no response when it got no
  request and tried exactly one response when it got one; it says success only if the behaviour
  handed it a connection, and it says failure only when it returns an error.
\<close>

theorem relay_dial_one_response:
  assumes "completes (relay_dial_upgrade L h) tr r"
  shows "length (attempted tr) = length (received tr) \<and> length (received tr) \<le> 1 \<and>
     (Some PbDialSuccess \<in> set (attempted tr) \<longleftrightarrow> (\<exists>tx c. EvConn tx (Inr (Inr c)) \<in> set tr)) \<and>
     ((\<exists>reason. Some (PbDialFailed reason) \<in> set (attempted tr)) \<longrightarrow> (\<exists>e. r = Inr (Inl e)))"
  using assms
  by (auto simp: relay_dial_simps)

theorem relay_dial_one_response_witness:
  "\<exists>tr :: (pb_dial_request, pb_dial_response, bytes) ev list.
     completes (relay_dial_upgrade raw_lib (relay_inbound_new (Some (Multiaddr [9])) (MpscTx 0))) tr
       (Inr (Inl RBehaviourDropped)) \<and>
     length (received tr) = 1 \<and> length (attempted tr) = 1"
proof -
  let ?tr = "[EvNext (Inr (Some \<lparr>dial_peer_id = ''p'', dial_addr = ''a''\<rparr>)), EvOneshot (Oneshot 0),
       EvSubmit (MpscTx 0) \<lparr>cr_dst_peer_id = PeerId [112], cr_dst_addr = Multiaddr [97],
          cr_dialer_addr = Multiaddr [9], cr_connection_sender = Oneshot 0\<rparr> (Inl ''gone''),
       EvSend (Some (PbDialFailed ''gone'')) (Inr ()) :: (_, _, bytes) ev]"
  have r: "completes (relay_dial_upgrade raw_lib (relay_inbound_new (Some (Multiaddr [9])) (MpscTx 0)))
      ?tr (Inr (Inl RBehaviourDropped))"
    by (simp add: relay_dial_upgrade_def dial_fail_def relay_inbound_new_def raw_lib_def
        byte_of_char_def)
  have "length (received ?tr) = 1"
    by simp
  with relay_dial_one_response [OF r] r show ?thesis
    by metis
qed

section \<open>The inbound listen\<close>

text \<open>
  A finished inbound listen is one of five runs, and no other: the read fails, the peer hangs
  up, the peer id or the address of the request does not parse (a failure response is tried and
  the text is returned in the error), or the success response is tried; the listen request is
  returned exactly when that response was sent.
\<close>

theorem relay_listen_runs:
  "completes (relay_listen_upgrade L h) tr r \<longleftrightarrow>
     (\<exists>e. tr = [EvNext (Inl e)] \<and> r = Inr (Inl (RIo e))) \<or>
     (tr = [EvNext (Inr None)] \<and> r = Inr (Inl RUnexpectedStreamClosed)) \<or>
     (\<exists>req err x. parse_peer L (req_listen_peer_id req) = Inl err \<and>
        tr = [EvNext (Inr (Some req)), EvSend (Some (PbListenFailed err)) x] \<and>
        r = Inr (Inl (RInvalidListenPeerId (req_listen_peer_id req)))) \<or>
     (\<exists>req p err x. parse_peer L (req_listen_peer_id req) = Inr p \<and>
        parse_multiaddr L (req_listen_addr req) = Inl err \<and>
        tr = [EvNext (Inr (Some req)), EvSend (Some (PbListenFailed err)) x] \<and>
        r = Inr (Inl (RInvalidListenAddr (req_listen_addr req)))) \<or>
     (\<exists>req p a x. parse_peer L (req_listen_peer_id req) = Inr p \<and>
        parse_multiaddr L (req_listen_addr req) = Inr a \<and>
        tr = [EvNext (Inr (Some req)), EvSend (Some PbListenSuccess) x] \<and>
        r = Inr (case x of Inl e \<Rightarrow> Inl (RIo e)
                         | Inr _ \<Rightarrow> Inr \<lparr>lr_listen_peer_id = p, lr_listen_addr = a\<rparr>))"
  (is "?L \<longleftrightarrow> ?R")
proof
  assume ?L
  then show ?R
    unfolding relay_listen_upgrade_def by (simp add: completes_simps) (elim exE disjE conjE; force)
next
  assume ?R
  then show ?L
    by (elim disjE exE conjE) (auto simp: relay_listen_upgrade_def split: sum.splits)
qed

section \<open>The outbound connect\<close>

text \<open>
  The relay's outbound connect asks once, naming the destination and the dialer, and returns
  a connection exactly when the destination's answer is a success; the connection carries the
  destination's address and the bytes read past the answer. A refusal returns the peer's reason.
\<close>

lemma relay_outbound_runs:
  assumes "completes (relay_upgrade_outbound L u) tr r"
  shows "attempted tr = [\<lparr>con_dst_addr = show_addr L (ro_dst_addr u),
              con_dst_peer_id = show_peer L (ro_dst_peer_id u),
              con_dialer_addr = show_addr L (ro_dialer_addr u)\<rparr>] \<and>
     (\<forall>c. r = Inr (Inr c) \<longleftrightarrow>
        received tr = [Some PbConnectSuccess] \<and>
        (\<exists>buf ss. EvParts (buf, ss) \<in> set tr \<and> c = new_connection (ro_dst_addr u) buf ss)) \<and>
     (\<forall>reason. r = Inr (Inl (RActionFailed ActionConnect (Some reason))) \<longleftrightarrow>
        received tr = [Some (PbConnectFailed reason)]) \<and>
     (r = Inr (Inl RUnexpectedResult) \<longleftrightarrow> received tr = [None])"
  using assms
  by (auto simp: relay_upgrade_outbound_def completes_simps)

section \<open>The negotiated protocols\<close>

text \<open>
  For a protocol the upgrade offers, \<open>upgrade_inbound\<close> never reaches its \<open>unreachable!\<close> branch,
  and with the remote address known (as \<open>listen_protocol\<close> supplies it) the upgrade it starts
  never panics, whatever the environment answers.
\<close>

theorem relay_upgrade_inbound_safe:
  assumes "info \<in> set (relay_inbound_protocol_info h)" and "ri_remote_addr h = Some ra"
  shows "(\<exists>u. relay_upgrade_inbound L h info = Inr (Inl u) \<and>
            (\<forall>tr p. \<not> completes u tr (Inl p))) \<or>
         (\<exists>u. relay_upgrade_inbound L h info = Inr (Inr u) \<and>
            (\<forall>tr p. \<not> completes u tr (Inl p)))"
proof -
  have "\<not> completes (relay_dial_upgrade L h) tr (Inl p)" for tr :: "(_, _, 'ss) ev list" and p
    using assms(2) by (auto simp: relay_dial_simps)
  moreover have "\<not> completes (relay_listen_upgrade L h) tr (Inl p)"
    for tr :: "(_, _, 'ss) ev list" and p
    by (auto simp: relay_listen_upgrade_def completes_simps)
  ultimately show ?thesis
    using assms(1)
    by (auto simp: relay_upgrade_inbound_def relay_inbound_protocol_info_def completes_bind)
qed

theorem relay_upgrade_inbound_safe_witness:
  "(\<exists>u. relay_upgrade_inbound raw_lib (relay_inbound_new (Some (Multiaddr [1])) (MpscTx 0))
        AUTO_RELAY_LISTEN_PROTOCOL = Inr (Inl u) \<and>
        (\<forall>(tr :: (_, _, bytes) ev list) p. \<not> completes u tr (Inl p))) \<or>
   (\<exists>u. relay_upgrade_inbound raw_lib (relay_inbound_new (Some (Multiaddr [1])) (MpscTx 0))
        AUTO_RELAY_LISTEN_PROTOCOL = Inr (Inr u) \<and>
        (\<forall>(tr :: (_, _, bytes) ev list) p. \<not> completes u tr (Inl p)))"
  by (rule relay_upgrade_inbound_safe [of _ _ "Multiaddr [1]"])
     (simp_all add: relay_inbound_protocol_info_def relay_inbound_new_def)

end
