(* ===== verification/Relay_Handler.thy ===== *)
theory Relay_Handler
  imports Swarm Relay_Upgrade
begin

text \<open>
  \<open>src/relay/handler.rs\<close>, with the events of \<open>src/relay/event.rs\<close>: the relay's side of one
  connection. It turns a connect event of the behaviour into an outbound substream request and
  the outcome of every upgrade into an event for the behaviour, all through one queue.
\<close>

section \<open>Events\<close>

datatype relay_event =
    RelayStartCopy multiaddr multiaddr
  | RelayListen peer_id multiaddr
  | RelayListenOrDialFailed io_error
  | RelayConnectToNotListenPeer multiaddr peer_id

datatype 'ss relay_out_event =
    RoDialSuccess "'ss connection" "'ss connection"
  | RoConnectSuccess "'ss connection" multiaddr peer_id
  | RoConnectFailed io_error multiaddr peer_id
  | RoListenSuccess peer_id multiaddr
  | RoListenOrDialFailed io_error

text \<open>The one event from the behaviour: the destination's address and peer id, and the dialer's
  address.\<close>

datatype relay_in_event = RiConnect multiaddr peer_id multiaddr

record relay_open_info =
  oi_dst_addr :: multiaddr
  oi_dst_peer_id :: peer_id

type_synonym 'ss relay_handler_event =
  "(relay_outbound_upgrade, relay_open_info, 'ss relay_out_event) handler_event"

type_synonym 'ss relay_connection_event =
  "(('ss connection \<times> 'ss connection) + listen_request, 'ss connection, relay_open_info)
     connection_event"

section \<open>The handler\<close>

record relay_into_connection_handler =
  rih_keepalive :: keep_alive
  rih_connect_request_sender :: mpsc_tx

definition relay_into_handler_new :: "mpsc_tx \<Rightarrow> relay_into_connection_handler" where
  "relay_into_handler_new tx = \<lparr>rih_keepalive = KeepAliveYes, rih_connect_request_sender = tx\<rparr>"

record 'ss relay_handler =
  rh_keepalive :: keep_alive
  rh_remote_addr :: multiaddr
  rh_connect_request_sender :: mpsc_tx
  rh_pending_events :: "'ss relay_handler_event list"

definition relay_into_handler :: "relay_into_connection_handler \<Rightarrow> multiaddr \<Rightarrow> 'ss relay_handler" where
  "relay_into_handler i remote_address =
     \<lparr>rh_keepalive = rih_keepalive i, rh_remote_addr = remote_address,
      rh_connect_request_sender = rih_connect_request_sender i, rh_pending_events = []\<rparr>"

definition relay_into_inbound_protocol :: "relay_into_connection_handler \<Rightarrow> relay_inbound_upgrade" where
  "relay_into_inbound_protocol i = relay_inbound_new None (rih_connect_request_sender i)"

definition relay_listen_protocol :: "'ss relay_handler \<Rightarrow> relay_inbound_upgrade" where
  "relay_listen_protocol h =
     relay_inbound_new (Some (rh_remote_addr h)) (rh_connect_request_sender h)"

definition relay_connection_keep_alive :: "'ss relay_handler \<Rightarrow> keep_alive" where
  "relay_connection_keep_alive h = rh_keepalive h"

definition relay_handler_poll ::
  "'ss relay_handler \<Rightarrow> 'ss relay_handler \<times> 'ss effect list \<times> 'ss relay_handler_event poll" where
  "relay_handler_poll h =
     (case rh_pending_events h of
        event # events \<Rightarrow> (h\<lparr>rh_pending_events := events\<rparr>, [], Ready event)
      | [] \<Rightarrow> (h, [Register], Pending))"

text \<open>\<open>pending_events.push_back\<close>\<close>

definition rh_push :: "'ss relay_handler_event \<Rightarrow> 'ss relay_handler \<Rightarrow> 'ss relay_handler" where
  "rh_push e h = h\<lparr>rh_pending_events := rh_pending_events h @ [e]\<rparr>"

fun relay_on_behaviour_event ::
  "relay_in_event \<Rightarrow> 'ss relay_handler \<Rightarrow> 'ss relay_handler \<times> 'ss effect list" where
  "relay_on_behaviour_event (RiConnect dst_addr dst_peer_id dialer_addr) h =
     (rh_push (OutboundSubstreamRequest
        (relay_outbound_new dialer_addr dst_peer_id dst_addr)
        \<lparr>oi_dst_addr = dst_addr, oi_dst_peer_id = dst_peer_id\<rparr>) h, [Wake])"

fun relay_on_connection_event ::
  "'ss relay_connection_event \<Rightarrow> 'ss relay_handler \<Rightarrow> 'ss relay_handler \<times> 'ss effect list" where
  "relay_on_connection_event (FullyNegotiatedInbound protocol) h =
     (case protocol of
        Inl (dialer_connection, connection) \<Rightarrow>
          (rh_push (Custom (RoDialSuccess dialer_connection connection)) h, [Wake])
      | Inr listen_req \<Rightarrow>
          (rh_push (Custom (RoListenSuccess (lr_listen_peer_id listen_req)
             (lr_listen_addr listen_req))) h, [Wake]))"
| "relay_on_connection_event (FullyNegotiatedOutbound protocol info) h =
     (rh_push (Custom (RoConnectSuccess protocol (oi_dst_addr info) (oi_dst_peer_id info))) h,
      [Wake])"
| "relay_on_connection_event (AddressChange addr) h = (h, [])"
| "relay_on_connection_event (DialUpgradeError info error) h =
     (rh_push (Custom (RoConnectFailed (upgr_io_error error) (oi_dst_addr info)
        (oi_dst_peer_id info))) h, [Wake])"
| "relay_on_connection_event (ListenUpgradeError error) h =
     (rh_push (Custom (RoListenOrDialFailed (upgr_io_error error))) h, [Wake])"

section \<open>The handler is a queue\<close>

text \<open>An operation of the handler, and what it owes for it.\<close>

datatype 'ss relay_handler_op =
    RhBehaviour relay_in_event
  | RhConnection "'ss relay_connection_event"

fun relay_handler_apply ::
  "'ss relay_handler_op \<Rightarrow> 'ss relay_handler \<Rightarrow> panic + 'ss relay_handler \<times> 'ss effect list" where
  "relay_handler_apply (RhBehaviour e) h = Inr (relay_on_behaviour_event e h)"
| "relay_handler_apply (RhConnection e) h = Inr (relay_on_connection_event e h)"

fun relay_handler_owes :: "'ss relay_handler_op \<Rightarrow> 'ss relay_handler_event list" where
  "relay_handler_owes (RhBehaviour (RiConnect a p d)) =
     [OutboundSubstreamRequest \<lparr>ro_dialer_addr = d, ro_dst_peer_id = p, ro_dst_addr = a\<rparr>
        \<lparr>oi_dst_addr = a, oi_dst_peer_id = p\<rparr>]"
| "relay_handler_owes (RhConnection (FullyNegotiatedInbound (Inl (d, c)))) =
     [Custom (RoDialSuccess d c)]"
| "relay_handler_owes (RhConnection (FullyNegotiatedInbound (Inr q))) =
     [Custom (RoListenSuccess (lr_listen_peer_id q) (lr_listen_addr q))]"
| "relay_handler_owes (RhConnection (FullyNegotiatedOutbound c i)) =
     [Custom (RoConnectSuccess c (oi_dst_addr i) (oi_dst_peer_id i))]"
| "relay_handler_owes (RhConnection (AddressChange a)) = []"
| "relay_handler_owes (RhConnection (DialUpgradeError i e)) =
     [Custom (RoConnectFailed (upgr_io_error e) (oi_dst_addr i) (oi_dst_peer_id i))]"
| "relay_handler_owes (RhConnection (ListenUpgradeError e)) =
     [Custom (RoListenOrDialFailed (upgr_io_error e))]"

lemma relay_handler_apply_owes:
  assumes "relay_handler_apply op h = Inr (h', es)"
  shows "rh_pending_events h' = rh_pending_events h @ relay_handler_owes op"
    and "relay_handler_owes op \<noteq> [] \<Longrightarrow> Wake \<in> set es"
  using assms
  by (induction op rule: relay_handler_owes.induct)
     (auto simp: rh_push_def relay_outbound_new_def)

interpretation relay_queue: fifo_queue relay_handler_poll rh_pending_events Register
    relay_handler_apply "\<lambda>h. relay_handler_owes" Wake
proof unfold_locales
  fix h :: "'ss relay_handler" and x :: "'ss relay_handler_event" and xs
  show "rh_pending_events h = [] \<Longrightarrow> relay_handler_poll h = (h, [Register], Pending)"
    by (simp add: relay_handler_poll_def)
  show "rh_pending_events h = x # xs \<Longrightarrow>
      \<exists>h'. relay_handler_poll h = (h', [], Ready x) \<and> rh_pending_events h' = xs"
    by (simp add: relay_handler_poll_def)
next
  fix op and h h' :: "'ss relay_handler" and es
  assume ap: "relay_handler_apply op h = Inr (h', es)"
  show "rh_pending_events h' = rh_pending_events h @ relay_handler_owes op"
    by (rule relay_handler_apply_owes(1) [OF ap])
  then show "mset (rh_pending_events h') = mset (rh_pending_events h) + mset (relay_handler_owes op)"
    by simp
  show "relay_handler_owes op \<noteq> [] \<Longrightarrow> Wake \<in> set es"
    by (rule relay_handler_apply_owes(2) [OF ap])
qed

text \<open>
  However behaviour events, connection events and polls interleave, what the relay's handler
  has returned followed by what it still holds is what it was owed, in the order it was owed:
  one substream request per connect event and one event for the behaviour per finished upgrade,
  each naming the address and peer of its own request.
\<close>

theorem relay_handler_in_order:
  assumes "interleave relay_handler_poll relay_handler_apply (\<lambda>h. relay_handler_owes) acts
      (relay_into_handler i addr) = Inr (h', out, owed, es)"
  shows "out @ rh_pending_events h' = owed"
proof -
  have "rh_pending_events (relay_into_handler i addr :: 'a relay_handler) = []"
    by (simp add: relay_into_handler_def)
  with relay_queue.in_order [OF assms] show ?thesis
    by simp
qed

theorem relay_handler_in_order_witness:
  "\<exists>h' out es. interleave relay_handler_poll relay_handler_apply (\<lambda>h. relay_handler_owes)
      [PollAct, OpAct (RhConnection (FullyNegotiatedInbound (Inr
         \<lparr>lr_listen_peer_id = PeerId [1], lr_listen_addr = Multiaddr [2]\<rparr>))),
       OpAct (RhConnection (ListenUpgradeError UpgrTimeout)), PollAct]
      (relay_into_handler (relay_into_handler_new (MpscTx 0)) (Multiaddr []) :: bytes relay_handler)
    = Inr (h', out, [Custom (RoListenSuccess (PeerId [1]) (Multiaddr [2])),
        Custom (RoListenOrDialFailed (IoSimple KindTimedOut))], es) \<and>
     out = [Custom (RoListenSuccess (PeerId [1]) (Multiaddr [2]))] \<and>
     out @ rh_pending_events h' = [Custom (RoListenSuccess (PeerId [1]) (Multiaddr [2])),
       Custom (RoListenOrDialFailed (IoSimple KindTimedOut))]"
proof -
  let ?i = "relay_into_handler_new (MpscTx 0)"
  let ?q = "\<lparr>lr_listen_peer_id = PeerId [1], lr_listen_addr = Multiaddr [2]\<rparr>"
  have r: "interleave relay_handler_poll relay_handler_apply (\<lambda>h. relay_handler_owes)
      [PollAct, OpAct (RhConnection (FullyNegotiatedInbound (Inr ?q))),
       OpAct (RhConnection (ListenUpgradeError UpgrTimeout)), PollAct]
      (relay_into_handler ?i (Multiaddr []) :: bytes relay_handler)
    = Inr (rh_push (Custom (RoListenOrDialFailed (IoSimple KindTimedOut)))
             (relay_into_handler ?i (Multiaddr [])),
           [Custom (RoListenSuccess (PeerId [1]) (Multiaddr [2]))],
           [Custom (RoListenSuccess (PeerId [1]) (Multiaddr [2])),
            Custom (RoListenOrDialFailed (IoSimple KindTimedOut))],
           [Register, Wake, Wake])"
    by (simp add: relay_handler_poll_def relay_into_handler_def rh_push_def)
  from relay_handler_in_order [OF r] r show ?thesis by blast
qed

lemma relay_handler_no_lost_wakeup:
  assumes "snd (snd (relay_handler_poll h)) = Pending"
    and "interleave relay_handler_poll relay_handler_apply (\<lambda>h. relay_handler_owes)
      (map OpAct ops) (fst (relay_handler_poll h)) = Inr (h', out, owed, es)"
    and "snd (snd (relay_handler_poll h')) \<noteq> Pending"
  shows "Wake \<in> set es"
  using relay_queue.woken_before_ready [OF assms(1,2)] assms(3)
  by (simp add: relay_queue.pending_iff)

lemma relay_handler_keeps_alive:
  "relay_handler_apply op h = Inr (h', es) \<Longrightarrow>
     relay_connection_keep_alive h' = relay_connection_keep_alive h \<and>
     relay_listen_protocol h' = relay_listen_protocol h"
  by (induction op rule: relay_handler_owes.induct)
     (auto simp: rh_push_def relay_connection_keep_alive_def relay_listen_protocol_def)

end
