(* ===== verification/Relay_Behaviour.thy ===== *)
theory Relay_Behaviour
  imports Relay_Handler
begin

text \<open>
  \<open>src/relay/behaviour.rs\<close>: the relay itself. It remembers which peers listen, passes each connect
  request to a handler of its destination, hands the connection that comes back to the upgrade
  that waits for it, and copies bytes between the two connections of a finished dial.

  The receiver of connect requests and the set of running copies are third-party: what they
  answer when polled is an input of \<open>relay_poll\<close>.
\<close>

section \<open>State\<close>

type_synonym u64 = "64 word"

text \<open>A running \<open>copy\<close>: from the read half of one connection to the write half of the other.\<close>

datatype 'ss copy_job = CopyJob "'ss connection" "'ss connection"

type_synonym relay_action = "(relay_event, relay_into_connection_handler, relay_in_event) action"

record 'ss relay_behaviour =
  rb_listening_clients :: "peer_id set"
  rb_connect_request_sender :: mpsc_tx
  rb_connecting_requests :: "peer_id \<rightharpoonup> oneshot"
  rb_io_copy_futures :: "'ss copy_job list"
  rb_pending_actions :: "relay_action list"

definition relay_behaviour_new :: "mpsc_tx \<Rightarrow> 'ss relay_behaviour" where
  "relay_behaviour_new tx = \<lparr>rb_listening_clients = {}, rb_connect_request_sender = tx,
     rb_connecting_requests = Map.empty, rb_io_copy_futures = [], rb_pending_actions = []\<rparr>"

definition relay_new_handler :: "'ss relay_behaviour \<Rightarrow> relay_into_connection_handler" where
  "relay_new_handler s = relay_into_handler_new (rb_connect_request_sender s)"

section \<open>Operations\<close>

text \<open>\<open>on_swarm_event\<close> matches every event and does nothing.\<close>

fun relay_on_swarm_event :: "from_swarm \<Rightarrow> 'ss relay_behaviour \<Rightarrow> 'ss relay_behaviour \<times> 'ss effect list"
where
  "relay_on_swarm_event (ConnectionEstablished p c a) s = (s, [])"
| "relay_on_swarm_event (ConnectionClosed p c a) s = (s, [])"
| "relay_on_swarm_event SwarmAddressChange s = (s, [])"
| "relay_on_swarm_event (DialFailure p e) s = (s, [])"
| "relay_on_swarm_event ListenFailure s = (s, [])"
| "relay_on_swarm_event NewListener s = (s, [])"
| "relay_on_swarm_event NewListenAddr s = (s, [])"
| "relay_on_swarm_event ExpiredListenAddr s = (s, [])"
| "relay_on_swarm_event ListenerError s = (s, [])"
| "relay_on_swarm_event ListenerClosed s = (s, [])"
| "relay_on_swarm_event NewExternalAddr s = (s, [])"
| "relay_on_swarm_event ExpiredExternalAddr s = (s, [])"

fun relay_on_handler_event ::
  "'ss relay_out_event \<Rightarrow> 'ss relay_behaviour \<Rightarrow> 'ss relay_behaviour \<times> 'ss effect list" where
  "relay_on_handler_event (RoDialSuccess dialer_connection connection) s =
     (s\<lparr>rb_io_copy_futures := rb_io_copy_futures s @
          [CopyJob dialer_connection connection, CopyJob connection dialer_connection],
        rb_pending_actions := rb_pending_actions s @
          [GenerateEvent (RelayStartCopy (remote_addr dialer_connection) (remote_addr connection))]\<rparr>,
      [Wake])"
| "relay_on_handler_event (RoConnectSuccess connection dst_addr dst_peer_id) s =
     (case rb_connecting_requests s dst_peer_id of
        None \<Rightarrow> (s, [])
      | Some sender \<Rightarrow>
          (s\<lparr>rb_connecting_requests := (rb_connecting_requests s)(dst_peer_id := None)\<rparr>,
           [Answer sender (Inr connection)]))"
| "relay_on_handler_event (RoConnectFailed err dst_addr dst_peer_id) s =
     (case rb_connecting_requests s dst_peer_id of
        None \<Rightarrow> (s, [])
      | Some sender \<Rightarrow>
          (s\<lparr>rb_connecting_requests := (rb_connecting_requests s)(dst_peer_id := None)\<rparr>,
           [Answer sender (Inl err)]))"
| "relay_on_handler_event (RoListenSuccess listen_peer_id listen_addr) s =
     (s\<lparr>rb_listening_clients := insert listen_peer_id (rb_listening_clients s),
        rb_pending_actions := rb_pending_actions s @
          [GenerateEvent (RelayListen listen_peer_id listen_addr)]\<rparr>, [Wake])"
| "relay_on_handler_event (RoListenOrDialFailed err) s =
     (s\<lparr>rb_pending_actions := rb_pending_actions s @
          [GenerateEvent (RelayListenOrDialFailed err)]\<rparr>, [Wake])"

text \<open>Polling the set of copies: a copy that finished (its position and result) leaves the set.\<close>

fun relay_reap :: "(nat \<times> (io_error + u64)) option poll \<Rightarrow> 'ss copy_job list \<Rightarrow> 'ss copy_job list" where
  "relay_reap (Ready (Some (i, r))) jobs = take i jobs @ drop (Suc i) jobs"
| "relay_reap (Ready None) jobs = jobs"
| "relay_reap Pending jobs = jobs"

definition not_listened :: "lib \<Rightarrow> peer_id \<Rightarrow> io_error" where
  "not_listened L p =
     IoCustom KindConnectionRefused (''dst peer id '' @ show_peer L p @ '' is not listened'')"

definition relay_poll ::
  "lib \<Rightarrow> (nat \<times> (io_error + u64)) option poll \<Rightarrow> connect_request option poll \<Rightarrow>
     'ss relay_behaviour \<Rightarrow> 'ss relay_behaviour \<times> 'ss effect list \<times> relay_action poll" where
  "relay_poll L copied recv s0 =
     (let s = s0\<lparr>rb_io_copy_futures := relay_reap copied (rb_io_copy_futures s0)\<rparr> in
      case recv of
        Ready (Some q) \<Rightarrow>
          (let dst_peer_id = cr_dst_peer_id q; sender = cr_connection_sender q in
           if dst_peer_id \<notin> rb_listening_clients s then
             (s, [Answer sender (Inl (not_listened L dst_peer_id))],
              Ready (GenerateEvent (RelayConnectToNotListenPeer (cr_dialer_addr q) dst_peer_id)))
           else
             (s\<lparr>rb_connecting_requests := (rb_connecting_requests s)(dst_peer_id \<mapsto> sender)\<rparr>,
              (case rb_connecting_requests s dst_peer_id of
                 None \<Rightarrow> [] | Some replaced \<Rightarrow> [DropSender replaced]),
              Ready (NotifyHandler dst_peer_id
                (RiConnect (cr_dst_addr q) dst_peer_id (cr_dialer_addr q)))))
      | _ \<Rightarrow>
          (case rb_pending_actions s of
             action # actions \<Rightarrow> (s\<lparr>rb_pending_actions := actions\<rparr>, [], Ready action)
           | [] \<Rightarrow> (s, [Register], Pending)))"

section \<open>The behaviour as a machine\<close>

datatype 'ss relay_input =
    RbPoll "(nat \<times> (io_error + u64)) option poll" "connect_request option poll"
  | RbHandler peer_id connection_id "'ss relay_out_event"
  | RbSwarm from_swarm

fun relay_step ::
  "lib \<Rightarrow> 'ss relay_input \<Rightarrow> 'ss relay_behaviour \<Rightarrow>
     panic + 'ss relay_behaviour \<times> ('ss, relay_action) emission list" where
  "relay_step L (RbPoll copied recv) s =
     (case relay_poll L copied recv s of (s', es, r) \<Rightarrow>
        Inr (s', map Effect es @ (case r of Pending \<Rightarrow> [] | Ready a \<Rightarrow> [Emit a])))"
| "relay_step L (RbHandler p c e) s =
     (case relay_on_handler_event e s of (s', es) \<Rightarrow> Inr (s', map Effect es))"
| "relay_step L (RbSwarm e) s =
     (case relay_on_swarm_event e s of (s', es) \<Rightarrow> Inr (s', map Effect es))"

text \<open>Requests wait only for peers that listen, and there are finitely many of them.\<close>

definition relay_inv :: "'ss relay_behaviour \<Rightarrow> bool" where
  "relay_inv s \<longleftrightarrow> finite (dom (rb_connecting_requests s)) \<and>
     dom (rb_connecting_requests s) \<subseteq> rb_listening_clients s"

lemma relay_inv_new: "relay_inv (relay_behaviour_new tx)"
  by (simp add: relay_inv_def relay_behaviour_new_def)

lemma relay_swarm_ignored [simp]: "relay_on_swarm_event e s = (s, [])"
  by (cases e) simp_all

lemma relay_poll_cases:
  "(\<exists>q. recv = Ready (Some q)) \<or> recv = Ready None \<or> recv = Pending"
  by (cases recv) (auto simp: option.nchotomy)

lemma relay_step_inv:
  assumes "relay_inv s" and "relay_step L i s = Inr (s', os)"
  shows "relay_inv s'"
proof (cases i)
  case (RbPoll copied recv)
  then show ?thesis
    using assms relay_poll_cases [of recv]
    by (auto simp: relay_inv_def relay_poll_def Let_def subset_iff domIff
        split: if_splits list.splits)
next
  case (RbHandler p c e)
  then show ?thesis
    using assms
    by (cases e) (auto simp: relay_inv_def subset_iff domIff split: option.splits if_splits)
next
  case (RbSwarm e)
  then show ?thesis
    using assms by simp
qed

interpretation relay_machine: machine "relay_step L" relay_inv
  for L
  by unfold_locales (rule relay_step_inv)

section \<open>No request is lost\<close>

text \<open>The answer senders a step takes in, holds and disposes of.\<close>

fun relay_taken :: "'ss relay_input \<Rightarrow> oneshot multiset" where
  "relay_taken (RbPoll copied (Ready (Some q))) = {#cr_connection_sender q#}"
| "relay_taken i = {#}"

definition relay_held :: "'ss relay_behaviour \<Rightarrow> oneshot multiset" where
  "relay_held s = ran_mset (rb_connecting_requests s)"

fun relay_given :: "('ss, relay_action) emission \<Rightarrow> oneshot multiset" where
  "relay_given (Effect e) = settled e"
| "relay_given (Emit a) = {#}"

lemma relay_poll_balance:
  assumes "relay_inv s" and "relay_poll L copied recv s = (s', es, r)"
  shows "relay_held s + relay_taken (RbPoll copied recv) = relay_held s' + sum_list (map settled es)"
proof -
  consider (req) q where "recv = Ready (Some q)" | (none) "recv = Ready None \<or> recv = Pending"
    using relay_poll_cases [of recv] by blast
  then show ?thesis
  proof cases
    case req
    let ?p = "cr_dst_peer_id q" and ?m = "rb_connecting_requests s"
    have fin: "finite (dom ?m)"
      using assms(1) by (simp add: relay_inv_def)
    show ?thesis
    proof (cases "?m ?p")
      case None
      with assms req fin show ?thesis
        by (auto simp: relay_poll_def Let_def relay_held_def ran_mset_update map_delete_absent
            split: if_splits)
    next
      case (Some old)
      then have "?p \<in> rb_listening_clients s"
        using assms(1) by (auto simp: relay_inv_def)
      with assms(2) req Some have "rb_connecting_requests s' = ?m(?p \<mapsto> cr_connection_sender q)"
        and "es = [DropSender old]"
        by (auto simp: relay_poll_def Let_def)
      moreover have "ran_mset ?m = add_mset old (ran_mset (?m(?p := None)))"
        by (rule ran_mset_split [OF fin Some])
      ultimately show ?thesis
        by (simp add: relay_held_def req ran_mset_update [OF fin])
    qed
  next
    case none
    with assms(2) show ?thesis
      by (auto simp: relay_poll_def Let_def relay_held_def split: list.splits)
  qed
qed

lemma relay_handler_balance:
  assumes "relay_inv s" and "relay_on_handler_event e s = (s', es)"
  shows "relay_held s = relay_held s' + sum_list (map settled es)"
proof -
  have fin: "finite (dom (rb_connecting_requests s))"
    using assms(1) by (simp add: relay_inv_def)
  show ?thesis
    using assms(2) ran_mset_split [OF fin]
    by (cases e) (auto simp: relay_held_def split: option.splits)
qed

interpretation relay_ledger: ledger "relay_step L" relay_inv relay_taken relay_held relay_given
  for L
proof unfold_locales
  fix s s' :: "'ss relay_behaviour" and i os
  assume inv: "relay_inv s" and st: "relay_step L i s = Inr (s', os)"
  have given: "sum_list (map relay_given (map Effect es)) = sum_list (map settled es)"
    for es :: "'ss effect list"
    by (simp add: comp_def)
  show "relay_held s + relay_taken i = relay_held s' + sum_list (map relay_given os)"
  proof (cases i)
    case (RbPoll copied recv)
    with st obtain es r where "relay_poll L copied recv s = (s', es, r)"
      and "os = map Effect es @ (case r of Pending \<Rightarrow> [] | Ready a \<Rightarrow> [Emit a])"
      by (auto split: prod.splits)
    with relay_poll_balance [OF inv] RbPoll given show ?thesis
      by (cases r) auto
  next
    case (RbHandler p c e)
    with st obtain es where "relay_on_handler_event e s = (s', es)" and "os = map Effect es"
      by (auto split: prod.splits)
    with relay_handler_balance [OF inv] RbHandler given show ?thesis
      by auto
  next
    case (RbSwarm e)
    with st show ?thesis by simp
  qed
qed

text \<open>
  C6: In every run of the relay from its start, the senders of the connect requests it received
  are exactly those still waiting in \<open>connecting_requests\<close> together with those it answered or
  dropped: each request is settled at most once and none disappears.
\<close>

theorem relay_requests_conserved:
  assumes "run (relay_step L) is (relay_behaviour_new tx) = Inr (s', os)"
  shows "sum_list (map relay_taken is) =
     ran_mset (rb_connecting_requests s') + sum_list (map relay_given os)"
  using relay_ledger.run_balance [OF relay_inv_new assms]
  by (simp add: relay_held_def relay_behaviour_new_def)

theorem relay_requests_conserved_witness:
  "\<exists>s' os. run (relay_step raw_lib)
      [RbPoll Pending (Ready (Some \<lparr>cr_dst_peer_id = PeerId [5], cr_dst_addr = Multiaddr [],
         cr_dialer_addr = Multiaddr [], cr_connection_sender = Oneshot 1\<rparr>)),
       RbHandler (PeerId [7]) (ConnectionId 0) (RoListenSuccess (PeerId [7]) (Multiaddr [])),
       RbPoll Pending (Ready (Some \<lparr>cr_dst_peer_id = PeerId [7], cr_dst_addr = Multiaddr [],
         cr_dialer_addr = Multiaddr [], cr_connection_sender = Oneshot 2\<rparr>))]
      (relay_behaviour_new (MpscTx 0) :: bytes relay_behaviour) = Inr (s', os) \<and>
     {#Oneshot 1, Oneshot 2#} = ran_mset (rb_connecting_requests s') + sum_list (map relay_given os)"
  (is "\<exists>s' os. run ?step ?is ?new = Inr (s', os) \<and> _")
proof -
  obtain s' os where r: "run ?step ?is ?new = Inr (s', os)"
    by (simp add: relay_poll_def relay_behaviour_new_def Let_def)
  have "sum_list (map relay_taken ?is) = {#Oneshot 1, Oneshot 2#}"
    by (simp add: add_mset_commute)
  with relay_requests_conserved [OF r] r show ?thesis
    by metis
qed

section \<open>Who is connected to whom\<close>

definition requested :: "'ss relay_input list \<Rightarrow> connect_request set" where
  "requested is = {q. \<exists>copied. RbPoll copied (Ready (Some q)) \<in> set is}"

definition announced :: "'ss relay_input list \<Rightarrow> peer_id set" where
  "announced is = {p. \<exists>pid cid a. RbHandler pid cid (RoListenSuccess p a) \<in> set is}"

lemma requested_announced_Nil [simp]: "requested [] = {}" "announced [] = {}"
  by (simp_all add: requested_def announced_def)

lemma requested_Cons: "requested (i # is) = requested [i] \<union> requested is"
  by (auto simp: requested_def)

lemma announced_Cons: "announced (i # is) = announced [i] \<union> announced is"
  by (auto simp: announced_def)

lemma relay_step_listening:
  "relay_step L i s = Inr (s', os) \<Longrightarrow>
     rb_listening_clients s' = rb_listening_clients s \<union> announced [i]"
proof (cases i)
  case (RbPoll copied recv)
  then show "relay_step L i s = Inr (s', os) \<Longrightarrow> ?thesis"
    using relay_poll_cases [of recv]
    by (auto simp: announced_def relay_poll_def Let_def split: if_splits list.splits)
next
  case (RbHandler p c e)
  then show "relay_step L i s = Inr (s', os) \<Longrightarrow> ?thesis"
    by (cases e) (auto simp: announced_def split: option.splits)
qed (auto simp: announced_def)

lemma relay_run_listening:
  "run (relay_step L) is s = Inr (s', os) \<Longrightarrow>
     rb_listening_clients s' = rb_listening_clients s \<union> announced is"
proof (induction "is" arbitrary: s os)
  case Nil
  then show ?case by simp
next
  case (Cons i "is")
  from run_Cons_Inr [OF Cons.prems] obtain s1 os1 os2 where
    s1: "relay_step L i s = Inr (s1, os1)" and r: "run (relay_step L) is s1 = Inr (s', os2)"
    by blast
  show ?case
    unfolding announced_Cons [of i "is"] Cons.IH [OF r] relay_step_listening [OF s1]
    by (rule Un_assoc)
qed

lemma relay_step_connecting:
  assumes "relay_step L i s = Inr (s', os)" and "rb_connecting_requests s' p = Some tx"
  shows "rb_connecting_requests s p = Some tx \<or>
    (\<exists>q \<in> requested [i]. cr_dst_peer_id q = p \<and> cr_connection_sender q = tx)"
proof (cases i)
  case (RbPoll copied recv)
  then show ?thesis
    using assms relay_poll_cases [of recv]
    by (auto simp: requested_def relay_poll_def Let_def split: if_splits list.splits)
next
  case (RbHandler pid c e)
  then show ?thesis
    using assms by (cases e) (auto split: option.splits if_splits)
next
  case (RbSwarm e)
  then show ?thesis
    using assms by simp
qed

lemma relay_run_connecting:
  "run (relay_step L) is s = Inr (s', os) \<Longrightarrow> rb_connecting_requests s' p = Some tx \<Longrightarrow>
     rb_connecting_requests s p = Some tx \<or>
     (\<exists>q \<in> requested is. cr_dst_peer_id q = p \<and> cr_connection_sender q = tx)"
proof (induction "is" arbitrary: s os)
  case Nil
  then show ?case by simp
next
  case (Cons i "is")
  from run_Cons_Inr [OF Cons.prems(1)] obtain s1 os1 os2 where
    s1: "relay_step L i s = Inr (s1, os1)" and r: "run (relay_step L) is s1 = Inr (s', os2)"
    by blast
  from Cons.IH [OF r Cons.prems(2)] show ?case
    unfolding requested_Cons [of i "is"]
    using relay_step_connecting [OF s1] by blast
qed

lemma relay_step_answers_ok:
  assumes "relay_step L i s = Inr (s', os)" and "Effect (Answer tx (Inr c)) \<in> set os"
  shows "\<exists>pid cid a p. i = RbHandler pid cid (RoConnectSuccess c a p) \<and>
    rb_connecting_requests s p = Some tx"
proof (cases i)
  case (RbPoll copied recv)
  then show ?thesis
    using assms relay_poll_cases [of recv]
    by (auto simp: relay_poll_def Let_def split: if_splits list.splits option.splits)
next
  case (RbHandler pid cid e)
  then show ?thesis
    using assms by (cases e) (auto split: option.splits)
next
  case (RbSwarm e)
  then show ?thesis
    using assms by simp
qed

lemma relay_answers_requested:
  assumes "run (relay_step L) is (relay_behaviour_new mtx) = Inr (s', os)"
    and "Effect (Answer tx (Inr c)) \<in> set os"
  shows "\<exists>pre pid cid a q post.
     is = pre @ RbHandler pid cid (RoConnectSuccess c a (cr_dst_peer_id q)) # post \<and>
     q \<in> requested pre \<and> cr_connection_sender q = tx \<and> cr_dst_peer_id q \<in> announced pre"
proof -
  from run_emits [OF assms] obtain pre i post s1 os1 s2 os2 where
    split: "is = pre @ i # post" and pre: "run (relay_step L) pre (relay_behaviour_new mtx) = Inr (s1, os1)"
    and i: "relay_step L i s1 = Inr (s2, os2)" "Effect (Answer tx (Inr c)) \<in> set os2"
    by blast
  from relay_step_answers_ok [OF i] obtain pid cid a p where
    ip: "i = RbHandler pid cid (RoConnectSuccess c a p)" and m: "rb_connecting_requests s1 p = Some tx"
    by blast
  from relay_run_connecting [OF pre m] obtain q where
    q: "q \<in> requested pre" "cr_dst_peer_id q = p" "cr_connection_sender q = tx"
    by (auto simp: relay_behaviour_new_def)
  from relay_machine.run_inv [OF relay_inv_new pre] m have "p \<in> rb_listening_clients s1"
    by (auto simp: relay_inv_def)
  with relay_run_listening [OF pre] have "p \<in> announced pre"
    by (simp add: relay_behaviour_new_def)
  with split ip q show ?thesis by blast
qed

text \<open>
  In every run of the relay, a dialer's sender is answered with a connection only by the
  success of a connect to the very peer that its request named, after the request came in and
  after that peer was announced as listening.
\<close>

theorem relay_answers_requested_peer:
  assumes "run (relay_step L) is (relay_behaviour_new mtx) = Inr (s', os)"
    and "Effect (Answer tx (Inr c)) \<in> set os"
  shows "\<exists>pre pid cid a q post.
     is = pre @ RbHandler pid cid (RoConnectSuccess c a (cr_dst_peer_id q)) # post \<and>
     q \<in> requested pre \<and> cr_connection_sender q = tx \<and> cr_dst_peer_id q \<in> announced pre"
  by (rule relay_answers_requested [OF assms])

theorem relay_answers_requested_peer_witness:
  "\<exists>pre pid cid a q post.
     [RbHandler (PeerId [7]) (ConnectionId 0) (RoListenSuccess (PeerId [7]) (Multiaddr [])),
      RbPoll Pending (Ready (Some \<lparr>cr_dst_peer_id = PeerId [7], cr_dst_addr = Multiaddr [],
        cr_dialer_addr = Multiaddr [], cr_connection_sender = Oneshot 2\<rparr>)),
      RbHandler (PeerId [7]) (ConnectionId 0)
        (RoConnectSuccess (new_connection (Multiaddr []) [] []) (Multiaddr []) (PeerId [7]))]
     = pre @ RbHandler pid cid
         (RoConnectSuccess (new_connection (Multiaddr []) [] ([] :: bytes)) a (cr_dst_peer_id q)) # post \<and>
     q \<in> requested pre \<and> cr_connection_sender q = Oneshot 2 \<and> cr_dst_peer_id q \<in> announced pre"
proof -
  let ?q = "\<lparr>cr_dst_peer_id = PeerId [7], cr_dst_addr = Multiaddr [], cr_dialer_addr = Multiaddr [],
    cr_connection_sender = Oneshot 2\<rparr>"
  let ?c = "new_connection (Multiaddr []) [] ([] :: bytes)"
  let ?is = "[RbHandler (PeerId [7]) (ConnectionId 0) (RoListenSuccess (PeerId [7]) (Multiaddr [])),
      RbPoll Pending (Ready (Some ?q)),
      RbHandler (PeerId [7]) (ConnectionId 0) (RoConnectSuccess ?c (Multiaddr []) (PeerId [7]))]"
  obtain s' os where "run (relay_step raw_lib) ?is (relay_behaviour_new (MpscTx 0)) = Inr (s', os)"
    and "Effect (Answer (Oneshot 2) (Inr ?c)) \<in> set os"
    by (simp add: relay_poll_def relay_behaviour_new_def Let_def)
  from relay_answers_requested_peer [OF this] show ?thesis .
qed

lemma relay_step_notifies:
  assumes "relay_step L i s = Inr (s', os)" and "Emit (NotifyHandler p e) \<in> set os"
  shows "p \<in> rb_listening_clients s \<or> NotifyHandler p e \<in> set (rb_pending_actions s)"
proof (cases i)
  case (RbPoll copied recv)
  then show ?thesis
    using assms relay_poll_cases [of recv]
    by (auto simp: relay_poll_def Let_def split: if_splits list.splits)
qed (use assms in \<open>auto split: prod.splits\<close>)

lemma relay_step_queues:
  assumes "relay_step L i s = Inr (s', os)" and "a \<in> set (rb_pending_actions s')"
  shows "a \<in> set (rb_pending_actions s) \<or> (\<exists>ev. a = GenerateEvent ev)"
proof (cases i)
  case (RbPoll copied recv)
  then show ?thesis
    using assms relay_poll_cases [of recv]
    by (auto simp: relay_poll_def Let_def split: if_splits list.splits)
next
  case (RbHandler pid cid ev)
  then show ?thesis
    using assms by (cases ev) (auto split: option.splits)
qed (use assms in auto)

text \<open>The queue of actions only ever holds events for the application.\<close>

definition relay_queues_events :: "'ss relay_behaviour \<Rightarrow> bool" where
  "relay_queues_events s \<longleftrightarrow> (\<forall>a \<in> set (rb_pending_actions s). \<exists>ev. a = GenerateEvent ev)"

interpretation relay_events: machine "relay_step L" relay_queues_events
  for L
proof unfold_locales
  fix s s' :: "'ss relay_behaviour" and i os
  assume "relay_queues_events s" and "relay_step L i s = Inr (s', os)"
  then show "relay_queues_events s'"
    unfolding relay_queues_events_def by (meson relay_step_queues)
qed

lemma relay_step_refuses:
  assumes "relay_step L i s = Inr (s', os)" and "q \<in> requested [i]"
    and "cr_dst_peer_id q \<notin> rb_listening_clients s"
  shows "Effect (Answer (cr_connection_sender q) (Inl (not_listened L (cr_dst_peer_id q)))) \<in> set os"
  using assms by (auto simp: requested_def relay_poll_def Let_def)

text \<open>
  C27: As long as no handler has announced a peer as listening, the relay sends nothing towards
  that peer, and every request that names it is refused in the poll that receives it, with
  \<open>ConnectionRefused\<close>.
\<close>

theorem relay_refuses_unannounced:
  assumes "run (relay_step L) is (relay_behaviour_new mtx) = Inr (s', os)" and "p \<notin> announced is"
  shows "(\<forall>e. Emit (NotifyHandler p e) \<notin> set os) \<and>
     (\<forall>q \<in> requested is. cr_dst_peer_id q = p \<longrightarrow>
        Effect (Answer (cr_connection_sender q) (Inl (not_listened L p))) \<in> set os)"
proof -
  have unl: "p \<notin> rb_listening_clients s1"
    if "run (relay_step L) pre (relay_behaviour_new mtx) = Inr (s1, os1)" and "is = pre @ post"
    for pre post s1 os1
    using relay_run_listening [OF that(1)] that(2) assms(2)
    by (auto simp: announced_def relay_behaviour_new_def)
  have "Emit (NotifyHandler p e) \<notin> set os" for e
  proof
    assume "Emit (NotifyHandler p e) \<in> set os"
    from run_emits [OF assms(1) this] obtain pre i post s1 os1 s2 os2 where
      "is = pre @ i # post" and pre: "run (relay_step L) pre (relay_behaviour_new mtx) = Inr (s1, os1)"
      and i: "relay_step L i s1 = Inr (s2, os2)" "Emit (NotifyHandler p e) \<in> set os2"
      by blast
    with relay_step_notifies [OF i] unl [OF pre] have "NotifyHandler p e \<in> set (rb_pending_actions s1)"
      by blast
    moreover have "relay_queues_events s1"
      by (rule relay_events.run_inv [OF _ pre])
         (simp add: relay_queues_events_def relay_behaviour_new_def)
    ultimately show False
      unfolding relay_queues_events_def by blast
  qed
  moreover have "Effect (Answer (cr_connection_sender q) (Inl (not_listened L p))) \<in> set os"
    if "q \<in> requested is" and "cr_dst_peer_id q = p" for q
  proof -
    from that(1) obtain copied pre post where is_split: "is = pre @ RbPoll copied (Ready (Some q)) # post"
      by (auto simp: requested_def in_set_conv_decomp)
    from run_append [OF assms(1) [unfolded is_split]]
    obtain s1 os1 os2 where pre: "run (relay_step L) pre (relay_behaviour_new mtx) = Inr (s1, os1)"
      and r: "run (relay_step L) (RbPoll copied (Ready (Some q)) # post) s1 = Inr (s', os2)"
      and os: "os = os1 @ os2"
      by blast
    from run_Cons_Inr [OF r] obtain s2 os3 os4 where
      st: "relay_step L (RbPoll copied (Ready (Some q))) s1 = Inr (s2, os3)" and os2: "os2 = os3 @ os4"
      by blast
    have "q \<in> requested [RbPoll copied (Ready (Some q)) :: 'a relay_input]"
      by (simp add: requested_def)
    from relay_step_refuses [OF st this] unl [OF pre is_split] that(2) show ?thesis
      by (simp add: os os2)
  qed
  ultimately show ?thesis by blast
qed

theorem relay_refuses_unannounced_witness:
  "\<exists>s' os. run (relay_step raw_lib)
      [RbHandler (PeerId [7]) (ConnectionId 0) (RoListenSuccess (PeerId [7]) (Multiaddr [])),
       RbPoll Pending (Ready (Some \<lparr>cr_dst_peer_id = PeerId [9], cr_dst_addr = Multiaddr [],
         cr_dialer_addr = Multiaddr [], cr_connection_sender = Oneshot 2\<rparr>))]
      (relay_behaviour_new (MpscTx 0) :: bytes relay_behaviour) = Inr (s', os) \<and>
     Effect (Answer (Oneshot 2) (Inl (not_listened raw_lib (PeerId [9])))) \<in> set os"
  (is "\<exists>s' os. run ?step ?is ?new = Inr (s', os) \<and> _")
proof -
  let ?q = "\<lparr>cr_dst_peer_id = PeerId [9], cr_dst_addr = Multiaddr [], cr_dialer_addr = Multiaddr [],
    cr_connection_sender = Oneshot 2\<rparr>"
  obtain s' os where r: "run ?step ?is ?new = Inr (s', os)"
    by (simp add: relay_poll_def relay_behaviour_new_def Let_def)
  have p: "PeerId [9] \<notin> announced ?is" and q: "?q \<in> requested ?is"
    by (auto simp: announced_def requested_def)
  from relay_refuses_unannounced [OF r p] q r show ?thesis
    by fastforce
qed

section \<open>Two dialers, one destination\<close>

text \<open>
  C34: The relay keeps one waiting sender per destination. When a second request for a listening
  peer arrives before the first is settled, the first dialer's sender is dropped unanswered, the
  connection the relay obtains for the first request is handed to the second dialer, and the
  connection obtained for the second request is handed to nobody.
\<close>

theorem relay_second_request_displaces_first:
  assumes "p \<in> rb_listening_clients s" and "rb_connecting_requests s p = None"
    and "cr_dst_peer_id q1 = p" and "cr_dst_peer_id q2 = p"
  shows "\<exists>s'. run (relay_step L)
      [RbPoll Pending (Ready (Some q1)), RbPoll Pending (Ready (Some q2)),
       RbHandler p cid1 (RoConnectSuccess c1 (cr_dst_addr q1) p),
       RbHandler p cid2 (RoConnectSuccess c2 (cr_dst_addr q2) p)] s
     = Inr (s',
       [Emit (NotifyHandler p (RiConnect (cr_dst_addr q1) p (cr_dialer_addr q1))),
        Effect (DropSender (cr_connection_sender q1)),
        Emit (NotifyHandler p (RiConnect (cr_dst_addr q2) p (cr_dialer_addr q2))),
        Effect (Answer (cr_connection_sender q2) (Inr c1))])"
  using assms by (simp add: relay_poll_def Let_def)

theorem relay_second_request_displaces_first_witness:
  "\<exists>s'. run (relay_step raw_lib)
      [RbPoll Pending (Ready (Some \<lparr>cr_dst_peer_id = PeerId [7], cr_dst_addr = Multiaddr [1],
         cr_dialer_addr = Multiaddr [2], cr_connection_sender = Oneshot 1\<rparr>)),
       RbPoll Pending (Ready (Some \<lparr>cr_dst_peer_id = PeerId [7], cr_dst_addr = Multiaddr [1],
         cr_dialer_addr = Multiaddr [3], cr_connection_sender = Oneshot 2\<rparr>)),
       RbHandler (PeerId [7]) (ConnectionId 0)
         (RoConnectSuccess (new_connection (Multiaddr [1]) [] [10]) (Multiaddr [1]) (PeerId [7])),
       RbHandler (PeerId [7]) (ConnectionId 0)
         (RoConnectSuccess (new_connection (Multiaddr [1]) [] [20]) (Multiaddr [1]) (PeerId [7]))]
      ((relay_behaviour_new (MpscTx 0) :: bytes relay_behaviour)\<lparr>rb_listening_clients := {PeerId [7]}\<rparr>)
     = Inr (s',
       [Emit (NotifyHandler (PeerId [7]) (RiConnect (Multiaddr [1]) (PeerId [7]) (Multiaddr [2]))),
        Effect (DropSender (Oneshot 1)),
        Emit (NotifyHandler (PeerId [7]) (RiConnect (Multiaddr [1]) (PeerId [7]) (Multiaddr [3]))),
        Effect (Answer (Oneshot 2) (Inr (new_connection (Multiaddr [1]) [] [10])))])"
  using relay_second_request_displaces_first
    [of "PeerId [7]" "(relay_behaviour_new (MpscTx 0) :: bytes relay_behaviour)
         \<lparr>rb_listening_clients := {PeerId [7]}\<rparr>"
       "\<lparr>cr_dst_peer_id = PeerId [7], cr_dst_addr = Multiaddr [1],
         cr_dialer_addr = Multiaddr [2], cr_connection_sender = Oneshot 1\<rparr>"
       "\<lparr>cr_dst_peer_id = PeerId [7], cr_dst_addr = Multiaddr [1],
         cr_dialer_addr = Multiaddr [3], cr_connection_sender = Oneshot 2\<rparr>"
       raw_lib "ConnectionId 0" "new_connection (Multiaddr [1]) [] [10]"
       "ConnectionId 0" "new_connection (Multiaddr [1]) [] [20]"]
  by (simp only: relay_behaviour_new_def) simp

section \<open>Events for the application\<close>

text \<open>What a handler event owes the application.\<close>

fun relay_owed :: "'ss relay_input \<Rightarrow> relay_action list" where
  "relay_owed (RbHandler p c (RoDialSuccess d e)) =
     [GenerateEvent (RelayStartCopy (remote_addr d) (remote_addr e))]"
| "relay_owed (RbHandler p c (RoListenSuccess q a)) = [GenerateEvent (RelayListen q a)]"
| "relay_owed (RbHandler p c (RoListenOrDialFailed err)) =
     [GenerateEvent (RelayListenOrDialFailed err)]"
| "relay_owed i = []"

text \<open>The actions that come out of the queue: all but the answers to connect requests.\<close>

fun relay_queued_action :: "relay_action \<Rightarrow> relay_action list" where
  "relay_queued_action (GenerateEvent (RelayConnectToNotListenPeer d p)) = []"
| "relay_queued_action (NotifyHandler p e) = []"
| "relay_queued_action a = [a]"

fun relay_queued_out :: "('ss, relay_action) emission \<Rightarrow> relay_action list" where
  "relay_queued_out (Emit a) = relay_queued_action a"
| "relay_queued_out (Effect e) = []"

text \<open>The queue holds only what handler events owe.\<close>

definition relay_queue_inv :: "'ss relay_behaviour \<Rightarrow> bool" where
  "relay_queue_inv s \<longleftrightarrow>
     (\<forall>a \<in> set (rb_pending_actions s). relay_queued_action a = [a])"

lemma relay_poll_flow:
  assumes "relay_queue_inv s" and "relay_poll L copied recv s = (s', es, r)"
  shows "rb_pending_actions s = (case r of Pending \<Rightarrow> [] | Ready a \<Rightarrow> relay_queued_action a)
      @ rb_pending_actions s'"
  using assms relay_poll_cases [of recv]
  by (auto simp: relay_poll_def Let_def relay_queue_inv_def split: if_splits list.splits)

lemma relay_effects_silent: "concat (map (relay_queued_out \<circ> Effect) es) = []"
  by (induction es) simp_all

interpretation relay_event_queue: ordered_ledger "relay_step L" relay_queue_inv
    relay_owed rb_pending_actions relay_queued_out
  for L
proof unfold_locales
  fix s s' :: "'ss relay_behaviour" and i os
  assume inv: "relay_queue_inv s" and st: "relay_step L i s = Inr (s', os)"
  show "relay_queue_inv s'"
    using inv st relay_poll_cases
    by (induction i rule: relay_owed.induct)
       (auto simp: relay_queue_inv_def relay_poll_def Let_def
         split: if_splits list.splits option.splits poll.splits prod.splits)
  show "rb_pending_actions s @ relay_owed i
      = concat (map relay_queued_out os) @ rb_pending_actions s'"
  proof (cases i)
    case (RbPoll copied recv)
    with st obtain es r where p: "relay_poll L copied recv s = (s', es, r)"
      and "os = map Effect es @ (case r of Pending \<Rightarrow> [] | Ready a \<Rightarrow> [Emit a])"
      by (auto split: prod.splits)
    with relay_poll_flow [OF inv p] RbPoll relay_effects_silent [of es] show ?thesis
      by (cases r) simp_all
  next
    case (RbHandler p c e)
    with st show ?thesis
      by (cases e) (auto split: option.splits)
  next
    case (RbSwarm e)
    with st show ?thesis by simp
  qed
qed

text \<open>
  In every run of the relay, the application sees one event per finished dial, listen and
  failed upgrade, in the order in which the handlers reported them, and what it has not seen yet
  is still queued: none is lost, repeated or overtaken.
\<close>

theorem relay_events_in_order:
  assumes "run (relay_step L) is (relay_behaviour_new mtx) = Inr (s', os)"
  shows "concat (map relay_owed is) = concat (map relay_queued_out os) @ rb_pending_actions s'"
proof -
  have "relay_queue_inv (relay_behaviour_new mtx :: 'a relay_behaviour)"
    by (simp add: relay_queue_inv_def relay_behaviour_new_def)
  from relay_event_queue.run_flow [OF this assms] show ?thesis
    by (simp add: relay_behaviour_new_def)
qed

theorem relay_events_in_order_witness:
  "\<exists>s' os. run (relay_step raw_lib)
      [RbHandler (PeerId [7]) (ConnectionId 0) (RoListenSuccess (PeerId [7]) (Multiaddr [1])),
       RbHandler (PeerId [8]) (ConnectionId 1) (RoListenOrDialFailed (IoSimple KindTimedOut)),
       RbPoll Pending Pending]
      (relay_behaviour_new (MpscTx 0) :: bytes relay_behaviour) = Inr (s', os) \<and>
     [GenerateEvent (RelayListen (PeerId [7]) (Multiaddr [1])),
      GenerateEvent (RelayListenOrDialFailed (IoSimple KindTimedOut))] =
       concat (map relay_queued_out os) @ rb_pending_actions s'"
  (is "\<exists>s' os. run ?step ?is ?new = Inr (s', os) \<and> _")
proof -
  obtain s' os where r: "run ?step ?is ?new = Inr (s', os)"
    by (simp add: relay_poll_def relay_behaviour_new_def Let_def)
  from relay_events_in_order [OF r] r show ?thesis
    by simp
qed

section \<open>Copying\<close>

text \<open>
  The \<open>copy\<close> future, to its end: \<open>io::copy\<close>, then \<open>flush\<close>, then \<open>close\<close>, each returning early on an
  error. The three operations are third-party.
\<close>

definition relay_copy ::
  "('r \<Rightarrow> 'w \<Rightarrow> (io_error + u64) \<times> 'r \<times> 'w) \<Rightarrow> ('w \<Rightarrow> (io_error + unit) \<times> 'w) \<Rightarrow>
     ('w \<Rightarrow> (io_error + unit) \<times> 'w) \<Rightarrow> 'r \<Rightarrow> 'w \<Rightarrow> (io_error + u64) \<times> 'r \<times> 'w" where
  "relay_copy io_copy flush close reader writer =
     (case io_copy reader writer of
        (Inl e, r, w) \<Rightarrow> (Inl e, r, w)
      | (Inr n, r, w) \<Rightarrow>
          (case flush w of
             (Inl e, w1) \<Rightarrow> (Inl e, r, w1)
           | (Inr _, w1) \<Rightarrow>
               (case close w1 of
                  (Inl e, w2) \<Rightarrow> (Inl e, r, w2)
                | (Inr _, w2) \<Rightarrow> (Inr n, r, w2))))"

text \<open>
  What \<open>io::copy\<close> documents: on success it has read from the reader until a read into a buffer with
  room gave nothing, has written to the writer what the reads gave, and counts these bytes.
\<close>

definition copies_by_reading ::
  "('r \<Rightarrow> 'w \<Rightarrow> (io_error + u64) \<times> 'r \<times> 'w) \<Rightarrow>
     ('r \<Rightarrow> bytes \<Rightarrow> (io_error + nat) poll \<times> 'r \<times> bytes) \<Rightarrow> ('w \<Rightarrow> bytes) \<Rightarrow> bool" where
  "copies_by_reading io_copy read written \<longleftrightarrow>
     (\<forall>r w n r' w'. io_copy r w = (Inr n, r', w') \<longrightarrow>
        (\<exists>bufs delivered r1 buf buf'. read_seq read bufs r = (delivered, r1) \<and>
           buf \<noteq> [] \<and> read r1 buf = (Ready (Inr 0), r', buf') \<and>
           written w' = written w @ delivered \<and> n = word_of_nat (length delivered)))"

text \<open>
  What \<open>AsyncRead\<close> documents of the end: a read into a buffer with room gives nothing only when
  nothing is left. A connection keeps this promise of its substream: while it holds bytes that the
  codec had read ahead, a read gives some of them.
\<close>

definition ends_when_empty ::
  "('s \<Rightarrow> bytes \<Rightarrow> (io_error + nat) poll \<times> 's \<times> bytes) \<Rightarrow> ('s \<Rightarrow> bytes) \<Rightarrow> bool" where
  "ends_when_empty read content \<longleftrightarrow>
     (\<forall>s buf s' buf'. read s buf = (Ready (Inr 0), s', buf') \<and> buf \<noteq> [] \<longrightarrow> content s = [])"

lemma connection_ends_when_empty:
  assumes "ends_when_empty (ss_read ops) content"
  shows "ends_when_empty (poll_read ops) (connection_content content)"
  unfolding ends_when_empty_def
proof (intro allI impI, elim conjE)
  fix c buf c' buf'
  assume read: "poll_read ops c buf = (Ready (Inr 0), c', buf')" and room: "buf \<noteq> []"
  then have "remaining_buf c = []"
    by (auto simp: poll_read_def Let_def min_def split: if_splits)
  moreover from this read obtain ss where "ss_read ops (sub_stream c) buf = (Ready (Inr 0), ss, buf')"
    by (auto simp: poll_read_def split: prod.splits)
  then have "content (sub_stream c) = []"
    using assms room unfolding ends_when_empty_def by blast
  ultimately show "connection_content content c = []"
    by (simp add: connection_content_def)
qed

text \<open>Flushing and closing write no data.\<close>

definition writes_nothing :: "('w \<Rightarrow> (io_error + unit) \<times> 'w) \<Rightarrow> ('w \<Rightarrow> bytes) \<Rightarrow> bool" where
  "writes_nothing f written \<longleftrightarrow> (\<forall>w. written (snd (f w)) = written w)"

lemma writes_nothingD: "writes_nothing f written \<Longrightarrow> f w = (r, w') \<Longrightarrow> written w' = written w"
  unfolding writes_nothing_def by (metis snd_conv)

text \<open>
  C38: A copy that reports success has forwarded the whole connection. What the reads of the
  connection gave, to the end of its substream, is the bytes that the handshake had read ahead and
  then the bytes of the substream; all of it, in this order, is what the other side got, its length
  modulo \<open>2 ^ 64\<close> is the count, and nothing is left in the connection. The writer was flushed after
  the last byte and then closed, both without an error.
\<close>

theorem relay_copy_forwards:
  assumes "byte_source (ss_read ops) content" and "ends_when_empty (ss_read ops) content"
    and "copies_by_reading io_copy (poll_read ops) written"
    and "writes_nothing flush written" and "writes_nothing close written"
    and "relay_copy io_copy flush close c w = (Inr n, c', w')"
  shows "written w' = written w @ remaining_buf c @ content (sub_stream c) \<and>
     unat n = length (remaining_buf c @ content (sub_stream c)) mod 2 ^ 64 \<and>
     connection_content content c' = [] \<and>
     (\<exists>w0 w1 u. written w0 = written w' \<and> flush w0 = (Inr u, w1) \<and> close w1 = (Inr u, w'))"
proof -
  from assms(6) obtain w0 w1 where
    io: "io_copy c w = (Inr n, c', w0)" and fl: "flush w0 = (Inr (), w1)"
    and cl: "close w1 = (Inr (), w')"
    by (auto simp: relay_copy_def split: prod.splits sum.splits)
  from assms(3) io obtain bufs delivered c1 buf buf' where
    reads: "read_seq (poll_read ops) bufs c = (delivered, c1)"
    and last: "buf \<noteq> []" "poll_read ops c1 buf = (Ready (Inr 0), c', buf')"
    and w0: "written w0 = written w @ delivered" and n: "n = word_of_nat (length delivered)"
    unfolding copies_by_reading_def by blast
  note source = connection_byte_source [OF assms(1)]
  have "connection_content content c1 = []"
    using connection_ends_when_empty [OF assms(2)] last unfolding ends_when_empty_def by blast
  with read_seq_content [OF source reads] byte_sourceD [OF source last(2)]
  have "delivered = remaining_buf c @ content (sub_stream c)" and "connection_content content c' = []"
    by (simp_all add: connection_content_def)
  moreover have "written w' = written w0"
    using writes_nothingD [OF assms(4) fl] writes_nothingD [OF assms(5) cl] by simp
  moreover have "unat n = length delivered mod 2 ^ 64"
    unfolding n unat_of_nat by simp
  ultimately show ?thesis
    using w0 fl cl by auto
qed

text \<open>A writer that is the bytes written to it, for evaluation.\<close>

definition list_copy :: "bytes connection \<Rightarrow> bytes \<Rightarrow> (io_error + u64) \<times> bytes connection \<times> bytes" where
  "list_copy c w =
     (Inr (word_of_nat (length (remaining_buf c @ sub_stream c))),
      c\<lparr>remaining_buf := [], sub_stream := []\<rparr>, w @ remaining_buf c @ sub_stream c)"

lemma list_copy_reads: "copies_by_reading list_copy (poll_read list_ops) (\<lambda>w. w)"
  unfolding copies_by_reading_def
proof (intro allI impI)
  fix c w n c' w'
  assume "list_copy c w = (Inr n, c', w')"
  then have n: "n = word_of_nat (length (remaining_buf c @ sub_stream c))"
    and c': "c' = c\<lparr>remaining_buf := [], sub_stream := []\<rparr>" and w': "w' = w @ remaining_buf c @ sub_stream c"
    by (simp_all add: list_copy_def)
  let ?bufs = "[replicate (length (remaining_buf c)) 0, replicate (length (sub_stream c)) 0]"
  have "read_seq (poll_read list_ops) ?bufs c = (remaining_buf c @ sub_stream c, c')"
    unfolding c' by (simp add: poll_read_def list_ops_def list_read_def Let_def)
  moreover have "poll_read list_ops c' [0] = (Ready (Inr 0), c', [0])"
    unfolding c' by (simp add: poll_read_def list_ops_def list_read_def)
  ultimately show "\<exists>bufs delivered c1 buf buf'. read_seq (poll_read list_ops) bufs c = (delivered, c1) \<and>
      buf \<noteq> [] \<and> poll_read list_ops c1 buf = (Ready (Inr 0), c', buf') \<and>
      w' = w @ delivered \<and> n = word_of_nat (length delivered)"
    using n w' by blast
qed

lemma list_ops_ends: "ends_when_empty (ss_read list_ops) (\<lambda>s. s)"
  by (auto simp: ends_when_empty_def list_ops_def list_read_def Let_def min_def split: if_splits)

theorem relay_copy_forwards_witness:
  "\<exists>n c' w'. relay_copy list_copy (\<lambda>w. (Inr () :: io_error + unit, w)) (\<lambda>w. (Inr (), w))
      (new_connection (Multiaddr []) [1, 2] [3]) [] = (Inr n, c', w') \<and>
     w' = [] @ [1, 2] @ [3 :: 8 word] \<and> unat n = 3 mod 2 ^ 64"
proof -
  let ?ok = "\<lambda>w :: bytes. (Inr () :: io_error + unit, w)"
  have n: "writes_nothing ?ok (\<lambda>w. w)"
    by (simp add: writes_nothing_def)
  obtain n c' w' where r: "relay_copy list_copy ?ok ?ok (new_connection (Multiaddr []) [1, 2] [3]) []
      = (Inr n, c', w')"
    by (simp add: relay_copy_def list_copy_def new_connection_def)
  from relay_copy_forwards [OF list_ops_source list_ops_ends list_copy_reads n n this]
  have "w' = [] @ [1, 2] @ [3]" and "unat n = 3 mod 2 ^ 64"
    by (simp_all add: new_connection_def)
  with r show ?thesis by blast
qed

end
