(* ===== verification/Relay_System.thy ===== *)
theory Relay_System
  imports Relay_Behaviour
begin

text \<open>
  The relay as a whole: its behaviour (\<open>src/relay/behaviour.rs\<close>), one handler per connection
  (\<open>src/relay/handler.rs\<close>), the upgrades that run on the substreams (\<open>src/relay/upgrade\<close>), the
  channel of connect requests from the upgrades to the behaviour and the \<open>oneshot\<close> channels that
  answer them, with every interleaving of their operations.

  The swarm is the environment. It opens and closes connections, polls what it likes when it likes,
  and passes events both ways: a handler's event reaches the behaviour after any delay, an event
  for the handler of a peer reaches one of the handlers of that peer, or is lost. An input that the
  state does not allow leaves the state alone.
\<close>

section \<open>The composed state\<close>

text \<open>A connection: the peer at its other end, as the swarm authenticated it, and its handler.\<close>

record 'ss relay_link =
  lk_peer :: peer_id
  lk_handler :: "'ss relay_handler"

type_synonym 'ss dial_trace = "(pb_dial_request, pb_dial_response, 'ss) ev list"
type_synonym 'ss listen_trace = "(pb_listen_request, pb_listen_response, 'ss) ev list"
type_synonym 'ss connect_trace = "(pb_connect_response, pb_connect_request, 'ss) ev list"

type_synonym 'ss relay_inbound_result =
  "panic + relay_error + (('ss connection \<times> 'ss connection) + listen_request)"

text \<open>
  A running upgrade: the connection its substream belongs to, what it was started with, the answers
  that its awaits got so far (which the code does not keep), and what is left to run of it.
\<close>

datatype 'ss relay_task =
    DialTask connection_id relay_inbound_upgrade "'ss dial_trace"
      "(pb_dial_request, pb_dial_response, 'ss, 'ss relay_inbound_result) upg"
  | ListenTask connection_id relay_inbound_upgrade "'ss listen_trace"
      "(pb_listen_request, pb_listen_response, 'ss, 'ss relay_inbound_result) upg"
  | ConnectTask connection_id relay_outbound_upgrade relay_open_info "'ss connect_trace"
      "(pb_connect_response, pb_connect_request, 'ss, panic + relay_error + 'ss connection) upg"

fun task_link :: "'ss relay_task \<Rightarrow> connection_id" where
  "task_link (DialTask cid h tr u) = cid"
| "task_link (ListenTask cid h tr u) = cid"
| "task_link (ConnectTask cid v info tr u) = cid"

record 'ss relay_system =
  rs_behaviour :: "'ss relay_behaviour"
  rs_links :: "connection_id \<rightharpoonup> 'ss relay_link"
  rs_tasks :: "nat \<rightharpoonup> 'ss relay_task"
  rs_requests :: "connect_request list"
  rs_answers :: "oneshot \<rightharpoonup> string + (io_error + 'ss connection)"
  rs_oneshots :: nat
  rs_notices :: "(peer_id \<times> relay_in_event) list"
  rs_events :: "(peer_id \<times> connection_id \<times> 'ss relay_out_event) list"

definition relay_system_new :: "mpsc_tx \<Rightarrow> 'ss relay_system" where
  "relay_system_new tx = \<lparr>rs_behaviour = relay_behaviour_new tx, rs_links = Map.empty,
     rs_tasks = Map.empty, rs_requests = [], rs_answers = Map.empty, rs_oneshots = 0,
     rs_notices = [], rs_events = []\<rparr>"

text \<open>
  What the environment does. An upgrade is named by a number of its choice; \<open>RsFinish\<close> passes the
  result of a finished upgrade to the handler, with the text that the swarm makes of an error;
  \<open>RsGiveUp\<close> is an upgrade that the swarm ends itself (a timeout, a failed negotiation).
\<close>

datatype 'ss relay_system_input =
    RsOpen connection_id peer_id multiaddr
  | RsClose connection_id
  | RsSwarm from_swarm
  | RsInbound connection_id nat string
  | RsDialAwait nat "(pb_dial_request, pb_dial_response, 'ss) ev"
  | RsListenAwait nat "(pb_listen_request, pb_listen_response, 'ss) ev"
  | RsConnectAwait nat "(pb_connect_response, pb_connect_request, 'ss) ev"
  | RsFinish nat string
  | RsGiveUp nat upgr_err
  | RsHandlerPoll connection_id nat
  | RsDeliver
  | RsPoll "(nat \<times> (io_error + u64)) option poll"
  | RsNotify connection_id
  | RsLoseNotice

text \<open>What a step shows: the behaviour's inputs and outputs, and the upgrades that finished, with
  the peer of their connection, what they were started with, their awaits and their result.\<close>

datatype 'ss relay_log =
    LogIn "'ss relay_input"
  | LogOut "('ss, relay_action) emission"
  | LogDial peer_id relay_inbound_upgrade "'ss dial_trace" "relay_error + (('ss connection \<times> 'ss connection) + listen_request)"
  | LogListen peer_id relay_inbound_upgrade "'ss listen_trace" "relay_error + (('ss connection \<times> 'ss connection) + listen_request)"
  | LogConnect peer_id relay_outbound_upgrade "'ss connect_trace" "relay_error + 'ss connection"

section \<open>Operations\<close>

text \<open>What an emission of the behaviour does to the channels: an answer resolves its \<open>oneshot\<close>, a
  dropped sender cancels it, an action for a handler is queued.\<close>

fun resolve ::
  "('ss, relay_action) emission \<Rightarrow> (oneshot \<rightharpoonup> string + (io_error + 'ss connection)) \<Rightarrow>
     (oneshot \<rightharpoonup> string + (io_error + 'ss connection))" where
  "resolve (Effect (Answer tx r)) m = m(tx \<mapsto> Inr r)"
| "resolve (Effect (DropSender tx)) m = m(tx \<mapsto> Inl ''oneshot canceled'')"
| "resolve ob m = m"

fun notices :: "('ss, relay_action) emission \<Rightarrow> (peer_id \<times> relay_in_event) list" where
  "notices (Emit (NotifyHandler p e)) = [(p, e)]"
| "notices ob = []"

definition behave ::
  "lib \<Rightarrow> 'ss relay_input \<Rightarrow> 'ss relay_system \<Rightarrow> panic + 'ss relay_system \<times> 'ss relay_log list" where
  "behave L i s =
     (case relay_step L i (rs_behaviour s) of
        Inl p \<Rightarrow> Inl p
      | Inr (b, os) \<Rightarrow>
          Inr (s\<lparr>rs_behaviour := b, rs_answers := fold resolve os (rs_answers s),
                 rs_notices := rs_notices s @ concat (map notices os)\<rparr>,
               LogIn i # map LogOut os))"

definition set_link :: "connection_id \<Rightarrow> 'ss relay_link \<Rightarrow> 'ss relay_system \<Rightarrow> 'ss relay_system" where
  "set_link cid l s = s\<lparr>rs_links := (rs_links s)(cid \<mapsto> l)\<rparr>"

definition set_handler ::
  "connection_id \<Rightarrow> 'ss relay_link \<Rightarrow> 'ss relay_handler \<Rightarrow> 'ss relay_system \<Rightarrow> 'ss relay_system" where
  "set_handler cid l h = set_link cid (l\<lparr>lk_handler := h\<rparr>)"

definition set_task :: "nat \<Rightarrow> 'ss relay_task \<Rightarrow> 'ss relay_system \<Rightarrow> 'ss relay_system" where
  "set_task k t s = s\<lparr>rs_tasks := (rs_tasks s)(k \<mapsto> t)\<rparr>"

definition end_task :: "nat \<Rightarrow> 'ss relay_system \<Rightarrow> 'ss relay_system" where
  "end_task k s = s\<lparr>rs_tasks := (rs_tasks s)(k := None)\<rparr>"

definition tasks_without :: "connection_id \<Rightarrow> (nat \<rightharpoonup> 'ss relay_task) \<Rightarrow> (nat \<rightharpoonup> 'ss relay_task)" where
  "tasks_without cid m = (\<lambda>k. case m k of None \<Rightarrow> None
     | Some t \<Rightarrow> if task_link t = cid then None else Some t)"

text \<open>
  The answers that are not the peer's: a new \<open>oneshot\<close> channel has an identity of its own, the
  behaviour's receiver lives so a send on its channel succeeds, and the await of a \<open>oneshot\<close> gives
  what it was resolved to.
\<close>

fun answerable :: "'ss relay_system \<Rightarrow> ('i, 'o, 'ss) ev \<Rightarrow> bool" where
  "answerable s (EvOneshot t) \<longleftrightarrow> t = Oneshot (rs_oneshots s)"
| "answerable s (EvSubmit tx q r) \<longleftrightarrow> r = Inr ()"
| "answerable s (EvConn t r) \<longleftrightarrow> rs_answers s t = Some r"
| "answerable s e \<longleftrightarrow> True"

fun communicate :: "('i, 'o, 'ss) ev \<Rightarrow> 'ss relay_system \<Rightarrow> 'ss relay_system" where
  "communicate (EvOneshot t) s = s\<lparr>rs_oneshots := Suc (rs_oneshots s)\<rparr>"
| "communicate (EvSubmit tx q r) s = s\<lparr>rs_requests := rs_requests s @ [q]\<rparr>"
| "communicate e s = s"

text \<open>The result of an upgrade, as the swarm hands it to the handler.\<close>

fun inbound_event ::
  "string \<Rightarrow> relay_error + (('ss connection \<times> 'ss connection) + listen_request) \<Rightarrow>
     'ss relay_connection_event" where
  "inbound_event text (Inl e) = ListenUpgradeError (UpgrOther text)"
| "inbound_event text (Inr out) = FullyNegotiatedInbound out"

fun outbound_event ::
  "string \<Rightarrow> relay_open_info \<Rightarrow> relay_error + 'ss connection \<Rightarrow> 'ss relay_connection_event" where
  "outbound_event text info (Inl e) = DialUpgradeError info (UpgrOther text)"
| "outbound_event text info (Inr c) = FullyNegotiatedOutbound c info"

definition tell_handler ::
  "connection_id \<Rightarrow> 'ss relay_link \<Rightarrow> 'ss relay_connection_event \<Rightarrow> 'ss relay_system \<Rightarrow>
     'ss relay_system" where
  "tell_handler cid l e = set_handler cid l (fst (relay_on_connection_event e (lk_handler l)))"

definition finish ::
  "string \<Rightarrow> nat \<Rightarrow> 'ss relay_task \<Rightarrow> 'ss relay_link \<Rightarrow> 'ss relay_system \<Rightarrow>
     panic + 'ss relay_system \<times> 'ss relay_log list" where
  "finish text k t l s =
     (case t of
        DialTask cid h tr (Done (Inl p)) \<Rightarrow> Inl p
      | DialTask cid h tr (Done (Inr r)) \<Rightarrow>
          Inr (tell_handler cid l (inbound_event text r) (end_task k s), [LogDial (lk_peer l) h tr r])
      | ListenTask cid h tr (Done (Inl p)) \<Rightarrow> Inl p
      | ListenTask cid h tr (Done (Inr r)) \<Rightarrow>
          Inr (tell_handler cid l (inbound_event text r) (end_task k s), [LogListen (lk_peer l) h tr r])
      | ConnectTask cid v info tr (Done (Inl p)) \<Rightarrow> Inl p
      | ConnectTask cid v info tr (Done (Inr r)) \<Rightarrow>
          Inr (tell_handler cid l (outbound_event text info r) (end_task k s),
               [LogConnect (lk_peer l) v tr r])
      | _ \<Rightarrow> Inr (s, []))"

definition give_up ::
  "upgr_err \<Rightarrow> nat \<Rightarrow> 'ss relay_task \<Rightarrow> 'ss relay_link \<Rightarrow> 'ss relay_system \<Rightarrow> 'ss relay_system" where
  "give_up err k t l s =
     (case t of
        ConnectTask cid v info tr u \<Rightarrow> tell_handler cid l (DialUpgradeError info err) (end_task k s)
      | DialTask cid h tr u \<Rightarrow> tell_handler cid l (ListenUpgradeError err) (end_task k s)
      | ListenTask cid h tr u \<Rightarrow> tell_handler cid l (ListenUpgradeError err) (end_task k s))"

text \<open>A running upgrade with the link of its connection.\<close>

definition task_at :: "nat \<Rightarrow> 'ss relay_system \<Rightarrow> ('ss relay_task \<times> 'ss relay_link) option" where
  "task_at k s =
     (case rs_tasks s k of
        None \<Rightarrow> None
      | Some t \<Rightarrow> (case rs_links s (task_link t) of None \<Rightarrow> None | Some l \<Rightarrow> Some (t, l)))"

fun relay_system_step ::
  "lib \<Rightarrow> 'ss relay_system_input \<Rightarrow> 'ss relay_system \<Rightarrow>
     panic + 'ss relay_system \<times> 'ss relay_log list" where
  "relay_system_step L (RsOpen cid p addr) s =
     (case rs_links s cid of
        Some l \<Rightarrow> Inr (s, [])
      | None \<Rightarrow> behave L (RbSwarm (ConnectionEstablished p cid addr))
          (set_link cid \<lparr>lk_peer = p,
             lk_handler = relay_into_handler (relay_new_handler (rs_behaviour s)) addr\<rparr> s))"
| "relay_system_step L (RsClose cid) s =
     (case rs_links s cid of
        None \<Rightarrow> Inr (s, [])
      | Some l \<Rightarrow> behave L (RbSwarm (ConnectionClosed (lk_peer l) cid (rh_remote_addr (lk_handler l))))
          (s\<lparr>rs_links := (rs_links s)(cid := None), rs_tasks := tasks_without cid (rs_tasks s)\<rparr>))"
| "relay_system_step L (RsSwarm e) s = behave L (RbSwarm e) s"
| "relay_system_step L (RsInbound cid k info) s =
     (case (rs_links s cid, rs_tasks s k) of
        (Some l, None) \<Rightarrow>
          (let h = relay_listen_protocol (lk_handler l) in
           if info \<notin> set (relay_inbound_protocol_info h) then Inr (s, [])
           else (case relay_upgrade_inbound L h info of
                   Inl p \<Rightarrow> Inl p
                 | Inr (Inl u) \<Rightarrow> Inr (set_task k (DialTask cid h [] u) s, [])
                 | Inr (Inr u) \<Rightarrow> Inr (set_task k (ListenTask cid h [] u) s, [])))
      | _ \<Rightarrow> Inr (s, []))"
| "relay_system_step L (RsDialAwait k e) s =
     (case rs_tasks s k of
        Some (DialTask cid h tr u) \<Rightarrow>
          (case resume u e of
             None \<Rightarrow> Inr (s, [])
           | Some u' \<Rightarrow> if answerable s e
               then Inr (communicate e (set_task k (DialTask cid h (tr @ [e]) u') s), [])
               else Inr (s, []))
      | _ \<Rightarrow> Inr (s, []))"
| "relay_system_step L (RsListenAwait k e) s =
     (case rs_tasks s k of
        Some (ListenTask cid h tr u) \<Rightarrow>
          (case resume u e of
             None \<Rightarrow> Inr (s, [])
           | Some u' \<Rightarrow> if answerable s e
               then Inr (communicate e (set_task k (ListenTask cid h (tr @ [e]) u') s), [])
               else Inr (s, []))
      | _ \<Rightarrow> Inr (s, []))"
| "relay_system_step L (RsConnectAwait k e) s =
     (case rs_tasks s k of
        Some (ConnectTask cid v info tr u) \<Rightarrow>
          (case resume u e of
             None \<Rightarrow> Inr (s, [])
           | Some u' \<Rightarrow> if answerable s e
               then Inr (communicate e (set_task k (ConnectTask cid v info (tr @ [e]) u') s), [])
               else Inr (s, []))
      | _ \<Rightarrow> Inr (s, []))"
| "relay_system_step L (RsFinish k text) s =
     (case task_at k s of None \<Rightarrow> Inr (s, []) | Some (t, l) \<Rightarrow> finish text k t l s)"
| "relay_system_step L (RsGiveUp k err) s =
     (case task_at k s of None \<Rightarrow> Inr (s, []) | Some (t, l) \<Rightarrow> Inr (give_up err k t l s, []))"
| "relay_system_step L (RsHandlerPoll cid k) s =
     (case (rs_links s cid, rs_tasks s k) of
        (Some l, None) \<Rightarrow>
          (case relay_handler_poll (lk_handler l) of
             (h, es, Pending) \<Rightarrow> Inr (set_handler cid l h s, [])
           | (h, es, Ready (Custom e)) \<Rightarrow>
               Inr ((set_handler cid l h s)\<lparr>rs_events := rs_events s @ [(lk_peer l, cid, e)]\<rparr>, [])
           | (h, es, Ready (OutboundSubstreamRequest v info)) \<Rightarrow>
               Inr (set_task k (ConnectTask cid v info [] (relay_upgrade_outbound L v))
                      (set_handler cid l h s), []))
      | _ \<Rightarrow> Inr (s, []))"
| "relay_system_step L RsDeliver s =
     (case rs_events s of
        [] \<Rightarrow> Inr (s, [])
      | (p, cid, e) # evs \<Rightarrow> behave L (RbHandler p cid e) (s\<lparr>rs_events := evs\<rparr>))"
| "relay_system_step L (RsPoll copied) s =
     (case rs_requests s of
        [] \<Rightarrow> behave L (RbPoll copied Pending) s
      | q # qs \<Rightarrow> behave L (RbPoll copied (Ready (Some q))) (s\<lparr>rs_requests := qs\<rparr>))"
| "relay_system_step L (RsNotify cid) s =
     (case (rs_notices s, rs_links s cid) of
        ((p, e) # ns, Some l) \<Rightarrow>
          (if lk_peer l = p
           then Inr ((set_handler cid l (fst (relay_on_behaviour_event e (lk_handler l))) s)
                  \<lparr>rs_notices := ns\<rparr>, [])
           else Inr (s, []))
      | _ \<Rightarrow> Inr (s, []))"
| "relay_system_step L RsLoseNotice s = Inr (s\<lparr>rs_notices := tl (rs_notices s)\<rparr>, [])"

section \<open>The steps, case by case\<close>

text \<open>The relay's behaviour ignores the swarm's events.\<close>

lemma behave_swarm [simp]: "behave L (RbSwarm e) s = Inr (s, [LogIn (RbSwarm e)])"
  by (simp add: behave_def)

lemma task_at_Some:
  "task_at k s = Some (t, l) \<longleftrightarrow> rs_tasks s k = Some t \<and> rs_links s (task_link t) = Some l"
  by (auto simp: task_at_def split: option.splits)

lemma relay_system_step_cases [consumes 1, case_names idle opened closed swarm dial_start
    listen_start dial_await listen_await connect_await dial_done listen_done connect_done
    inbound_given_up connect_given_up custom request deliver poll_empty poll_some notify lose]:
  assumes "relay_system_step L i s = Inr (s', os)"
  obtains
      (idle) "s' = s" "os = []"
    | (opened) cid p addr where "rs_links s cid = None"
        "s' = set_link cid \<lparr>lk_peer = p,
           lk_handler = relay_into_handler (relay_new_handler (rs_behaviour s)) addr\<rparr> s"
        "os = [LogIn (RbSwarm (ConnectionEstablished p cid addr))]" "i = RsOpen cid p addr"
    | (closed) cid l where "rs_links s cid = Some l"
        "s' = s\<lparr>rs_links := (rs_links s)(cid := None), rs_tasks := tasks_without cid (rs_tasks s)\<rparr>"
        "os = [LogIn (RbSwarm (ConnectionClosed (lk_peer l) cid (rh_remote_addr (lk_handler l))))]"
    | (swarm) e where "s' = s" "os = [LogIn (RbSwarm e)]"
    | (dial_start) cid k info l u where "rs_links s cid = Some l" "rs_tasks s k = None"
        "relay_upgrade_inbound L (relay_listen_protocol (lk_handler l)) info = Inr (Inl u)"
        "s' = set_task k (DialTask cid (relay_listen_protocol (lk_handler l)) [] u) s" "os = []"
    | (listen_start) cid k info l u where "rs_links s cid = Some l" "rs_tasks s k = None"
        "relay_upgrade_inbound L (relay_listen_protocol (lk_handler l)) info = Inr (Inr u)"
        "s' = set_task k (ListenTask cid (relay_listen_protocol (lk_handler l)) [] u) s" "os = []"
    | (dial_await) k e cid h tr u u' where "rs_tasks s k = Some (DialTask cid h tr u)"
        "resumes u e u'" "answerable s e"
        "s' = communicate e (set_task k (DialTask cid h (tr @ [e]) u') s)" "os = []"
    | (listen_await) k e cid h tr u u' where "rs_tasks s k = Some (ListenTask cid h tr u)"
        "resumes u e u'" "answerable s e"
        "s' = communicate e (set_task k (ListenTask cid h (tr @ [e]) u') s)" "os = []"
    | (connect_await) k e cid v info tr u u' where
        "rs_tasks s k = Some (ConnectTask cid v info tr u)" "resumes u e u'" "answerable s e"
        "s' = communicate e (set_task k (ConnectTask cid v info (tr @ [e]) u') s)" "os = []"
    | (dial_done) k cid h tr r l msg where
        "rs_tasks s k = Some (DialTask cid h tr (Done (Inr r)))" "rs_links s cid = Some l"
        "s' = tell_handler cid l (inbound_event msg r) (end_task k s)"
        "os = [LogDial (lk_peer l) h tr r]"
    | (listen_done) k cid h tr r l msg where
        "rs_tasks s k = Some (ListenTask cid h tr (Done (Inr r)))" "rs_links s cid = Some l"
        "s' = tell_handler cid l (inbound_event msg r) (end_task k s)"
        "os = [LogListen (lk_peer l) h tr r]"
    | (connect_done) k cid v info tr r l msg where
        "rs_tasks s k = Some (ConnectTask cid v info tr (Done (Inr r)))" "rs_links s cid = Some l"
        "s' = tell_handler cid l (outbound_event msg info r) (end_task k s)"
        "os = [LogConnect (lk_peer l) v tr r]"
    | (inbound_given_up) k cid l err where "rs_links s cid = Some l"
        "s' = tell_handler cid l (ListenUpgradeError err) (end_task k s)" "os = []"
    | (connect_given_up) k cid v info tr u l err where
        "rs_tasks s k = Some (ConnectTask cid v info tr u)" "rs_links s cid = Some l"
        "s' = tell_handler cid l (DialUpgradeError info err) (end_task k s)" "os = []"
    | (custom) cid l e evs where "rs_links s cid = Some l"
        "rh_pending_events (lk_handler l) = Custom e # evs"
        "s' = (set_handler cid l (lk_handler l\<lparr>rh_pending_events := evs\<rparr>) s)
           \<lparr>rs_events := rs_events s @ [(lk_peer l, cid, e)]\<rparr>" "os = []"
    | (request) cid k l v info evs where "rs_links s cid = Some l" "rs_tasks s k = None"
        "rh_pending_events (lk_handler l) = OutboundSubstreamRequest v info # evs"
        "s' = set_task k (ConnectTask cid v info [] (relay_upgrade_outbound L v))
           (set_handler cid l (lk_handler l\<lparr>rh_pending_events := evs\<rparr>) s)" "os = []"
    | (deliver) p cid e evs where "rs_events s = (p, cid, e) # evs"
        "behave L (RbHandler p cid e) (s\<lparr>rs_events := evs\<rparr>) = Inr (s', os)"
    | (poll_empty) copied where "rs_requests s = []" "behave L (RbPoll copied Pending) s = Inr (s', os)"
    | (poll_some) copied q qs where "rs_requests s = q # qs"
        "behave L (RbPoll copied (Ready (Some q))) (s\<lparr>rs_requests := qs\<rparr>) = Inr (s', os)"
    | (notify) cid l e ns where "rs_notices s = (lk_peer l, e) # ns" "rs_links s cid = Some l"
        "s' = (set_handler cid l (fst (relay_on_behaviour_event e (lk_handler l))) s)\<lparr>rs_notices := ns\<rparr>"
        "os = []"
    | (lose) "s' = s\<lparr>rs_notices := tl (rs_notices s)\<rparr>" "os = []"
proof (cases i)
  case (RsFinish k msg)
  show ?thesis
  proof (cases "task_at k s")
    case (Some x)
    then obtain t l where x: "rs_tasks s k = Some t" "rs_links s (task_link t) = Some l"
      and at: "task_at k s = Some (t, l)"
      by (cases x) (auto simp: task_at_Some)
    from assms RsFinish at have f: "finish msg k t l s = Inr (s', os)"
      by simp
    show ?thesis
    proof (cases t)
      case (DialTask cid h tr u)
      with f x show ?thesis
        by (cases u) (auto simp: finish_def split: sum.splits intro: idle dial_done)
    next
      case (ListenTask cid h tr u)
      with f x show ?thesis
        by (cases u) (auto simp: finish_def split: sum.splits intro: idle listen_done)
    next
      case (ConnectTask cid v info tr u)
      with f x show ?thesis
        by (cases u) (auto simp: finish_def split: sum.splits intro: idle connect_done)
    qed
  qed (use assms RsFinish in \<open>auto intro: idle\<close>)
next
  case (RsGiveUp k err)
  show ?thesis
  proof (cases "task_at k s")
    case (Some x)
    then obtain t l where x: "rs_tasks s k = Some t" "rs_links s (task_link t) = Some l"
      and "task_at k s = Some (t, l)"
      by (cases x) (auto simp: task_at_Some)
    with assms RsGiveUp show ?thesis
      by (cases t) (auto simp: give_up_def intro: inbound_given_up connect_given_up)
  qed (use assms RsGiveUp in \<open>auto intro: idle\<close>)
next
  case (RsHandlerPoll cid k)
  show ?thesis
  proof (cases "rs_links s cid")
    case (Some l)
    show ?thesis
    proof (cases "rs_tasks s k")
      case None
      show ?thesis
      proof (cases "rh_pending_events (lk_handler l)")
        case Nil
        with assms RsHandlerPoll Some None have "s' = s" "os = []"
          by (auto simp: relay_handler_poll_def set_handler_def set_link_def fun_upd_idem)
        then show ?thesis by (rule idle)
      next
        case (Cons ev evs)
        with assms RsHandlerPoll Some None show ?thesis
          by (cases ev) (auto simp: relay_handler_poll_def intro: custom request)
      qed
    qed (use assms RsHandlerPoll Some in \<open>auto intro: idle\<close>)
  qed (use assms RsHandlerPoll in \<open>auto intro: idle\<close>)
next
  case (RsInbound cid k info)
  with assms show ?thesis
    by (auto simp: Let_def split: option.splits sum.splits if_splits
        intro: idle dial_start listen_start)
next
  case (RsDialAwait k e)
  with assms show ?thesis
    by (auto simp: resume_iff split: option.splits relay_task.splits if_splits intro: idle dial_await)
next
  case (RsListenAwait k e)
  with assms show ?thesis
    by (auto simp: resume_iff split: option.splits relay_task.splits if_splits intro: idle listen_await)
next
  case (RsConnectAwait k e)
  with assms show ?thesis
    by (auto simp: resume_iff split: option.splits relay_task.splits if_splits intro: idle connect_await)
next
  case (RsNotify cid)
  with assms show ?thesis
    by (auto split: option.splits list.splits if_splits intro: idle notify)
next
  case (RsOpen cid p addr)
  with assms show ?thesis
    by (cases "rs_links s cid") (auto intro: idle opened)
next
  case (RsClose cid)
  with assms show ?thesis
    by (cases "rs_links s cid") (auto intro: idle closed)
next
  case (RsSwarm e)
  with assms show ?thesis
    by (auto intro: swarm)
next
  case RsDeliver
  with assms show ?thesis
    by (cases "rs_events s") (auto intro: idle deliver)
next
  case (RsPoll copied)
  with assms show ?thesis
    by (cases "rs_requests s") (auto intro: poll_empty poll_some)
next
  case RsLoseNotice
  with assms show ?thesis
    by (auto intro: lose)
qed

lemmas relay_system_updates = set_link_def set_handler_def set_task_def end_task_def tell_handler_def

lemma communicate_frame [simp]:
  "rs_behaviour (communicate e s) = rs_behaviour s" "rs_links (communicate e s) = rs_links s"
  "rs_tasks (communicate e s) = rs_tasks s" "rs_answers (communicate e s) = rs_answers s"
  "rs_notices (communicate e s) = rs_notices s" "rs_events (communicate e s) = rs_events s"
  by (cases e; simp)+

lemma relay_system_updates_frame [simp]:
  "rs_behaviour (set_link cid l s) = rs_behaviour s" "rs_behaviour (set_handler cid l h s) = rs_behaviour s"
  "rs_behaviour (set_task k t s) = rs_behaviour s" "rs_behaviour (end_task k s) = rs_behaviour s"
  "rs_behaviour (tell_handler cid l ce s) = rs_behaviour s"
  "rs_answers (set_link cid l s) = rs_answers s" "rs_answers (set_handler cid l h s) = rs_answers s"
  "rs_answers (set_task k t s) = rs_answers s" "rs_answers (end_task k s) = rs_answers s"
  "rs_answers (tell_handler cid l ce s) = rs_answers s"
  "rs_events (set_link cid l s) = rs_events s" "rs_events (set_handler cid l h s) = rs_events s"
  "rs_events (set_task k t s) = rs_events s" "rs_events (end_task k s) = rs_events s"
  "rs_events (tell_handler cid l ce s) = rs_events s"
  "rs_notices (set_link cid l s) = rs_notices s" "rs_notices (set_handler cid l h s) = rs_notices s"
  "rs_notices (set_task k t s) = rs_notices s" "rs_notices (end_task k s) = rs_notices s"
  "rs_notices (tell_handler cid l ce s) = rs_notices s"
  "rs_requests (set_link cid l s) = rs_requests s" "rs_requests (set_handler cid l h s) = rs_requests s"
  "rs_requests (set_task k t s) = rs_requests s" "rs_requests (end_task k s) = rs_requests s"
  "rs_requests (tell_handler cid l ce s) = rs_requests s"
  "rs_oneshots (set_link cid l s) = rs_oneshots s" "rs_oneshots (set_handler cid l h s) = rs_oneshots s"
  "rs_oneshots (set_task k t s) = rs_oneshots s" "rs_oneshots (end_task k s) = rs_oneshots s"
  "rs_oneshots (tell_handler cid l ce s) = rs_oneshots s"
  "rs_links (set_task k t s) = rs_links s" "rs_links (end_task k s) = rs_links s"
  "rs_links (set_link cid l s) = (rs_links s)(cid \<mapsto> l)"
  "rs_links (set_handler cid l h s) = (rs_links s)(cid \<mapsto> l\<lparr>lk_handler := h\<rparr>)"
  "rs_links (tell_handler cid l ce s) =
     (rs_links s)(cid \<mapsto> l\<lparr>lk_handler := fst (relay_on_connection_event ce (lk_handler l))\<rparr>)"
  "rs_tasks (set_link cid l s) = rs_tasks s" "rs_tasks (set_handler cid l h s) = rs_tasks s"
  "rs_tasks (tell_handler cid l ce s) = rs_tasks s"
  "rs_tasks (set_task k t s) = (rs_tasks s)(k \<mapsto> t)" "rs_tasks (end_task k s) = (rs_tasks s)(k := None)"
  by (simp_all add: relay_system_updates)

lemma behave_frame:
  assumes "behave L i s = Inr (s', os)"
  shows "rs_links s' = rs_links s" "rs_tasks s' = rs_tasks s" "rs_events s' = rs_events s"
    "rs_requests s' = rs_requests s" "rs_oneshots s' = rs_oneshots s"
  using assms by (auto simp: behave_def split: sum.splits prod.splits)

section \<open>The behaviour's own run\<close>

text \<open>A run of the system contains a run of the behaviour: the inputs and outputs in the log.\<close>

fun log_in :: "'ss relay_log \<Rightarrow> 'ss relay_input list" where
  "log_in (LogIn i) = [i]"
| "log_in l = []"

fun log_out :: "'ss relay_log \<Rightarrow> ('ss, relay_action) emission list" where
  "log_out (LogOut ob) = [ob]"
| "log_out l = []"

definition ins :: "'ss relay_log list \<Rightarrow> 'ss relay_input list" where
  "ins log = concat (map log_in log)"

definition outs :: "'ss relay_log list \<Rightarrow> ('ss, relay_action) emission list" where
  "outs log = concat (map log_out log)"

lemma ins_outs_simps [simp]:
  "ins [] = []" "outs [] = []"
  "ins (l # log) = log_in l @ ins log" "outs (l # log) = log_out l @ outs log"
  "ins (log1 @ log2) = ins log1 @ ins log2" "outs (log1 @ log2) = outs log1 @ outs log2"
  "ins (map LogOut os) = []" "outs (map LogOut os) = os"
  by (simp_all add: ins_def outs_def comp_def)

lemma in_ins [simp]: "i \<in> set (ins log) \<longleftrightarrow> LogIn i \<in> set log"
proof (induction log)
  case (Cons l log)
  then show ?case by (cases l) auto
qed simp

lemma in_outs [simp]: "ob \<in> set (outs log) \<longleftrightarrow> LogOut ob \<in> set log"
proof (induction log)
  case (Cons l log)
  then show ?case by (cases l) auto
qed simp

text \<open>
  The behaviour's state is that of its own run, and a \<open>oneshot\<close> is resolved exactly when the
  behaviour disposed of its sender, to what the behaviour answered.
\<close>

definition relay_projects :: "lib \<Rightarrow> mpsc_tx \<Rightarrow> 'ss relay_log list \<Rightarrow> 'ss relay_system \<Rightarrow> bool" where
  "relay_projects L tx log s \<longleftrightarrow>
     run (relay_step L) (ins log) (relay_behaviour_new tx) = Inr (rs_behaviour s, outs log) \<and>
     (\<forall>t r. rs_answers s t = Some (Inr r) \<longrightarrow> LogOut (Effect (Answer t r)) \<in> set log) \<and>
     dom (rs_answers s) = set_mset (sum_list (map relay_given (outs log)))"

lemma fold_resolve_dom:
  "dom (fold resolve os m) = dom m \<union> set_mset (sum_list (map relay_given os))"
proof (induction os arbitrary: m)
  case (Cons ob os)
  have "dom (resolve ob m) = dom m \<union> set_mset (relay_given ob)"
    by (induction ob m rule: resolve.induct) auto
  with Cons.IH [of "resolve ob m"] show ?case by auto
qed simp

lemma fold_resolve_answer:
  "fold resolve os m t = Some (Inr r) \<Longrightarrow> m t = Some (Inr r) \<or> Effect (Answer t r) \<in> set os"
proof (induction os arbitrary: m)
  case (Cons ob os)
  have "resolve ob m t = Some (Inr r) \<Longrightarrow> m t = Some (Inr r) \<or> ob = Effect (Answer t r)"
    by (induction ob m rule: resolve.induct) (auto split: if_splits)
  with Cons show ?case by auto
qed simp

lemma behave_projects:
  assumes "relay_projects L tx log s"
    and "rs_behaviour s0 = rs_behaviour s" and "rs_answers s0 = rs_answers s"
    and "behave L i s0 = Inr (s', os)"
  shows "relay_projects L tx (log @ os) s'"
proof -
  from assms(4) obtain b bs where st: "relay_step L i (rs_behaviour s) = Inr (b, bs)"
    and s': "rs_behaviour s' = b" "rs_answers s' = fold resolve bs (rs_answers s)"
    and os: "os = LogIn i # map LogOut bs"
    by (auto simp: behave_def assms(2,3) split: sum.splits prod.splits)
  from st have "run (relay_step L) [i] (rs_behaviour s) = Inr (b, bs)"
    by simp
  from run_trans [OF _ this] assms(1)
  have "run (relay_step L) (ins log @ [i]) (relay_behaviour_new tx) = Inr (b, outs log @ bs)"
    by (simp add: relay_projects_def)
  moreover have "LogOut (Effect (Answer t r)) \<in> set (log @ os)"
    if "fold resolve bs (rs_answers s) t = Some (Inr r)" for t r
    using fold_resolve_answer [OF that] assms(1) by (auto simp: relay_projects_def os)
  ultimately show ?thesis
    using assms(1) by (simp add: relay_projects_def s' os fold_resolve_dom)
qed

interpretation relay_projection: history_machine "relay_system_step L" "relay_projects L tx"
  for L tx
proof unfold_locales
  fix log s i s' and os :: "'ss relay_log list"
  assume inv: "relay_projects L tx log s" and st: "relay_system_step L i s = Inr (s', os)"
  from st show "relay_projects L tx (log @ os) s'"
  proof (cases rule: relay_system_step_cases)
    case (deliver p cid e evs)
    from behave_projects [OF inv _ _ deliver(2)] show ?thesis by simp
  next
    case (poll_empty copied)
    from behave_projects [OF inv _ _ poll_empty(2)] show ?thesis by simp
  next
    case (poll_some copied q qs)
    from behave_projects [OF inv _ _ poll_some(2)] show ?thesis by simp
  next
    case (swarm e)
    from behave_projects [OF inv, of s "RbSwarm e"] swarm show ?thesis by simp
  next
    case (opened cid p addr)
    from behave_projects [OF inv, of s' "RbSwarm (ConnectionEstablished p cid addr)"] opened
    show ?thesis by simp
  next
    case (closed cid l)
    from behave_projects [OF inv, of s'
        "RbSwarm (ConnectionClosed (lk_peer l) cid (rh_remote_addr (lk_handler l)))"] closed
    show ?thesis by simp
  qed (use inv in \<open>auto simp: relay_projects_def\<close>)
qed

lemma relay_projects_new: "relay_projects L tx [] (relay_system_new tx)"
  by (simp add: relay_projects_def relay_system_new_def)

section \<open>Tasks, queues and notices\<close>

text \<open>
  Every running upgrade is a run of what it was started with, on a connection that is open; a
  connect runs on a connection to the peer that it names, with the information its handler kept.
  What waits in the queues on the way to such an upgrade names the peer it is on the way to.
\<close>

definition peers :: "'ss relay_system \<Rightarrow> (connection_id \<rightharpoonup> peer_id)" where
  "peers s = (\<lambda>cid. map_option lk_peer (rs_links s cid))"

fun task_ok :: "lib \<Rightarrow> (connection_id \<rightharpoonup> peer_id) \<Rightarrow> 'ss relay_task \<Rightarrow> bool" where
  "task_ok L ps (DialTask cid h tr u) \<longleftrightarrow> ps cid \<noteq> None \<and> ri_remote_addr h \<noteq> None \<and>
     (\<exists>p. runs (relay_dial_upgrade L h) tr p \<and>
        u = bind_upg p (\<lambda>r. Done (map_sum id (map_sum id Inl) r)))"
| "task_ok L ps (ListenTask cid h tr u) \<longleftrightarrow> ps cid \<noteq> None \<and>
     (\<exists>p. runs (relay_listen_upgrade L h) tr p \<and>
        u = bind_upg p (\<lambda>r. Done (map_sum id (map_sum id Inr) r)))"
| "task_ok L ps (ConnectTask cid v info tr u) \<longleftrightarrow> ps cid = Some (ro_dst_peer_id v) \<and>
     oi_dst_peer_id info = ro_dst_peer_id v \<and> oi_dst_addr info = ro_dst_addr v \<and>
     runs (relay_upgrade_outbound L v) tr u"

fun asks_peer :: "peer_id \<Rightarrow> 'ss relay_handler_event \<Rightarrow> bool" where
  "asks_peer p (OutboundSubstreamRequest v info) \<longleftrightarrow>
     ro_dst_peer_id v = p \<and> oi_dst_peer_id info = p \<and> oi_dst_addr info = ro_dst_addr v"
| "asks_peer p (Custom e) \<longleftrightarrow> True"

fun notice_ok :: "peer_id \<times> relay_in_event \<Rightarrow> bool" where
  "notice_ok (p, RiConnect a q d) \<longleftrightarrow> q = p"

definition relay_wired :: "lib \<Rightarrow> 'ss relay_system \<Rightarrow> bool" where
  "relay_wired L s \<longleftrightarrow>
     (\<forall>k t. rs_tasks s k = Some t \<longrightarrow> task_ok L (peers s) t) \<and>
     (\<forall>cid l. rs_links s cid = Some l \<longrightarrow>
        list_all (asks_peer (lk_peer l)) (rh_pending_events (lk_handler l))) \<and>
     list_all notice_ok (rs_notices s) \<and> relay_queues_events (rs_behaviour s)"

lemma task_ok_cong: "ps' (task_link t) = ps (task_link t) \<Longrightarrow> task_ok L ps' t = task_ok L ps t"
  by (cases t) simp_all

lemma peers_update [simp]:
  "peers (set_task k t s) = peers s" "peers (end_task k s) = peers s"
  "peers (communicate e s) = peers s" "peers (set_link cid l s) = (peers s)(cid \<mapsto> lk_peer l)"
  "peers (s\<lparr>rs_events := evs\<rparr>) = peers s" "peers (s\<lparr>rs_notices := ns\<rparr>) = peers s"
  "peers (s\<lparr>rs_requests := qs\<rparr>) = peers s"
  by (auto simp: peers_def)

lemma peers_set_handler:
  "rs_links s cid = Some l \<Longrightarrow> peers (set_handler cid l h s) = peers s"
  "rs_links s cid = Some l \<Longrightarrow> peers (tell_handler cid l ce s) = peers s"
  by (auto simp: peers_def tell_handler_def)

lemma connection_event_asks:
  "list_all (asks_peer p) (rh_pending_events (fst (relay_on_connection_event ce h))) \<longleftrightarrow>
     list_all (asks_peer p) (rh_pending_events h)"
  by (cases ce) (auto simp: rh_push_def split: sum.splits prod.splits)

lemma behaviour_event_asks:
  "notice_ok (p, e) \<Longrightarrow> list_all (asks_peer p) (rh_pending_events h) \<Longrightarrow>
     list_all (asks_peer p) (rh_pending_events (fst (relay_on_behaviour_event e h)))"
  by (cases e) (simp add: rh_push_def relay_outbound_new_def)

lemma effects_notice_nothing [simp]: "concat (map (\<lambda>x. []) xs) = []"
  by (induction xs) simp_all

lemma relay_step_notices:
  assumes "relay_queues_events b" and "relay_step L i b = Inr (b', os)"
  shows "list_all notice_ok (concat (map notices os))"
proof (cases i)
  case (RbPoll copied recv)
  then show ?thesis
    using assms relay_poll_cases [of recv]
    by (auto simp: relay_poll_def Let_def relay_queues_events_def split: if_splits list.splits option.splits)
qed (use assms in \<open>auto simp: comp_def split: prod.splits\<close>)

lemma behave_wired:
  assumes "relay_wired L s" and "behave L i s = Inr (s', os)"
  shows "relay_wired L s'"
proof -
  from assms(2) obtain b bs where st: "relay_step L i (rs_behaviour s) = Inr (b, bs)"
    and s': "rs_behaviour s' = b" "rs_notices s' = rs_notices s @ concat (map notices bs)"
    by (auto simp: behave_def split: sum.splits prod.splits)
  have "relay_queues_events b"
    using relay_events.inv_step st assms(1) by (auto simp: relay_wired_def)
  moreover have "list_all notice_ok (concat (map notices bs))"
    using relay_step_notices st assms(1) by (auto simp: relay_wired_def)
  moreover have "peers s' = peers s"
    by (simp add: peers_def behave_frame [OF assms(2)])
  ultimately show ?thesis
    using assms(1) by (simp add: relay_wired_def s' behave_frame [OF assms(2)])
qed

lemma inbound_dial_tree:
  "relay_upgrade_inbound L h info = Inr (Inl u) \<Longrightarrow>
     u = bind_upg (relay_dial_upgrade L h) (\<lambda>r. Done (map_sum id (map_sum id Inl) r))"
  by (auto simp: relay_upgrade_inbound_def split: if_splits)

lemma inbound_listen_tree:
  "relay_upgrade_inbound L h info = Inr (Inr u) \<Longrightarrow>
     u = bind_upg (relay_listen_upgrade L h) (\<lambda>r. Done (map_sum id (map_sum id Inr) r))"
  by (auto simp: relay_upgrade_inbound_def split: if_splits)

lemma task_ok_dial_step:
  "task_ok L ps (DialTask cid h tr u) \<Longrightarrow> resumes u e u' \<Longrightarrow> task_ok L ps (DialTask cid h (tr @ [e]) u')"
  by (auto simp: resumes_bind_Done; blast intro: runs_snoc)

lemma task_ok_listen_step:
  "task_ok L ps (ListenTask cid h tr u) \<Longrightarrow> resumes u e u' \<Longrightarrow>
     task_ok L ps (ListenTask cid h (tr @ [e]) u')"
  by (auto simp: resumes_bind_Done; blast intro: runs_snoc)

lemma task_ok_connect_step:
  "task_ok L ps (ConnectTask cid v info tr u) \<Longrightarrow> resumes u e u' \<Longrightarrow>
     task_ok L ps (ConnectTask cid v info (tr @ [e]) u')"
  by (auto intro: runs_snoc)

lemma relay_wired_task: "relay_wired L s \<Longrightarrow> rs_tasks s k = Some t \<Longrightarrow> task_ok L (peers s) t"
  by (simp add: relay_wired_def)

lemma relay_wired_queue:
  "relay_wired L s \<Longrightarrow> rs_links s cid = Some l \<Longrightarrow>
     list_all (asks_peer (lk_peer l)) (rh_pending_events (lk_handler l))"
  by (simp add: relay_wired_def)

text \<open>Three ways to change the state that keep it wired.\<close>

lemma wired_set_task:
  "relay_wired L s \<Longrightarrow> task_ok L (peers s) t \<Longrightarrow> relay_wired L (set_task k t s)"
  by (auto simp: relay_wired_def)

lemma wired_end_task: "relay_wired L s \<Longrightarrow> relay_wired L (end_task k s)"
  by (auto simp: relay_wired_def)

lemma wired_set_handler:
  "relay_wired L s \<Longrightarrow> rs_links s cid = Some l \<Longrightarrow>
     list_all (asks_peer (lk_peer l)) (rh_pending_events h) \<Longrightarrow> relay_wired L (set_handler cid l h s)"
  by (auto simp: relay_wired_def peers_set_handler)

lemma wired_frame:
  "relay_wired L (s\<lparr>rs_events := evs\<rparr>) = relay_wired L s"
  "relay_wired L (s\<lparr>rs_requests := qs\<rparr>) = relay_wired L s"
  "relay_wired L (communicate e s) = relay_wired L s"
  by (simp_all add: relay_wired_def)

lemma wired_tell_handler:
  "relay_wired L s \<Longrightarrow> rs_links s cid = Some l \<Longrightarrow> relay_wired L (tell_handler cid l ce s)"
  unfolding tell_handler_def
  by (rule wired_set_handler) (simp_all add: connection_event_asks relay_wired_queue)

interpretation relay_wiring: machine "relay_system_step L" "relay_wired L"
  for L
proof unfold_locales
  fix s s' :: "'ss relay_system" and i os
  assume inv: "relay_wired L s" and st: "relay_system_step L i s = Inr (s', os)"
  note task = relay_wired_task [OF inv] and queue = relay_wired_queue [OF inv]
  from st show "relay_wired L s'"
  proof (cases rule: relay_system_step_cases)
    case (opened cid p addr)
    have "task_ok L ((peers s)(cid \<mapsto> p)) t" if "rs_tasks s k = Some t" for k t
    proof -
      from task [OF that] have "peers s (task_link t) \<noteq> None"
        by (cases t) auto
      with opened(1) have "task_link t \<noteq> cid"
        by (auto simp: peers_def)
      with task [OF that] task_ok_cong [of "(peers s)(cid \<mapsto> p)" t "peers s"] show ?thesis
        by simp
    qed
    with inv opened(2) show ?thesis
      by (simp add: relay_wired_def relay_into_handler_def)
  next
    case (closed cid l)
    have "task_ok L (peers s') t" if "rs_tasks s' k = Some t" for k t
    proof -
      from that closed(2) have "rs_tasks s k = Some t" "task_link t \<noteq> cid"
        by (auto simp: tasks_without_def split: option.splits if_splits)
      with task closed(2) task_ok_cong [of "peers s'" t "peers s"] show ?thesis
        by (simp add: peers_def)
    qed
    with inv closed(2) show ?thesis
      by (auto simp: relay_wired_def)
  next
    case (dial_start cid k info l u)
    have "task_ok L (peers s) (DialTask cid (relay_listen_protocol (lk_handler l)) [] u)"
      using dial_start(1) inbound_dial_tree [OF dial_start(3)]
      by (auto simp: peers_def relay_listen_protocol_def relay_inbound_new_def)
    with inv dial_start(4) show ?thesis
      by (simp add: wired_set_task)
  next
    case (listen_start cid k info l u)
    have "task_ok L (peers s) (ListenTask cid (relay_listen_protocol (lk_handler l)) [] u)"
      using listen_start(1) inbound_listen_tree [OF listen_start(3)] by (auto simp: peers_def)
    with inv listen_start(4) show ?thesis
      by (simp add: wired_set_task)
  next
    case (dial_await k e cid h tr u u')
    with inv task_ok_dial_step [OF task [OF dial_await(1)] dial_await(2)] show ?thesis
      by (simp add: wired_frame wired_set_task del: task_ok.simps)
  next
    case (listen_await k e cid h tr u u')
    with inv task_ok_listen_step [OF task [OF listen_await(1)] listen_await(2)] show ?thesis
      by (simp add: wired_frame wired_set_task del: task_ok.simps)
  next
    case (connect_await k e cid v info tr u u')
    with inv task_ok_connect_step [OF task [OF connect_await(1)] connect_await(2)] show ?thesis
      by (simp add: wired_frame wired_set_task del: task_ok.simps)
  next
    case (custom cid l e evs)
    with inv queue [OF custom(1)] show ?thesis
      by (simp add: wired_frame wired_set_handler)
  next
    case (request cid k l v info evs)
    with queue [OF request(1)] have ok: "asks_peer (lk_peer l) (OutboundSubstreamRequest v info)"
      and evs: "list_all (asks_peer (lk_peer l)) evs"
      by auto
    from ok request(1) have "task_ok L (peers s) (ConnectTask cid v info [] (relay_upgrade_outbound L v))"
      by (simp add: peers_def)
    then have "task_ok L (peers (set_handler cid l (lk_handler l\<lparr>rh_pending_events := evs\<rparr>) s))
        (ConnectTask cid v info [] (relay_upgrade_outbound L v))"
      by (simp only: peers_set_handler [OF request(1)])
    moreover have "relay_wired L (set_handler cid l (lk_handler l\<lparr>rh_pending_events := evs\<rparr>) s)"
      by (rule wired_set_handler [OF inv request(1)]) (simp add: evs)
    ultimately show ?thesis
      unfolding request(4) by (rule wired_set_task [rotated])
  next
    case (deliver p cid e evs)
    with inv behave_wired [OF _ deliver(2)] show ?thesis by (simp add: wired_frame)
  next
    case (poll_empty copied)
    with inv behave_wired [OF _ poll_empty(2)] show ?thesis by simp
  next
    case (poll_some copied q qs)
    with inv behave_wired [OF _ poll_some(2)] show ?thesis by (simp add: wired_frame)
  next
    case (notify cid l e ns)
    with inv have "notice_ok (lk_peer l, e)"
      by (simp add: relay_wired_def)
    from behaviour_event_asks [OF this queue [OF notify(2)]]
    have "relay_wired L (set_handler cid l (fst (relay_on_behaviour_event e (lk_handler l))) s)"
      by (rule wired_set_handler [OF inv notify(2)])
    with notify show ?thesis
      by (auto simp: relay_wired_def)
  next
    case lose
    with inv show ?thesis
      by (cases "rs_notices s") (auto simp: relay_wired_def)
  qed (use inv in \<open>simp_all add: wired_tell_handler wired_end_task\<close>)
qed

lemma relay_wired_new: "relay_wired L (relay_system_new tx)"
  by (simp add: relay_wired_def relay_system_new_def relay_queues_events_def relay_behaviour_new_def)

section \<open>No panic\<close>

lemma map_sum_Inr_iff:
  "map_sum id f x = Inr y \<longleftrightarrow> (\<exists>z. x = Inr z \<and> y = f z)"
  by (cases x) auto

text \<open>A finished upgrade of a wired state is a complete run of what it was started with.\<close>

lemma task_ok_dial_done:
  "task_ok L ps (DialTask cid h tr (Done r)) \<longleftrightarrow> ps cid \<noteq> None \<and> ri_remote_addr h \<noteq> None \<and>
     (\<exists>r'. completes (relay_dial_upgrade L h) tr r' \<and> r = map_sum id (map_sum id Inl) r')"
  by (auto simp: Done_is_bind_upg)

lemma task_ok_listen_done:
  "task_ok L ps (ListenTask cid h tr (Done r)) \<longleftrightarrow> ps cid \<noteq> None \<and>
     (\<exists>r'. completes (relay_listen_upgrade L h) tr r' \<and> r = map_sum id (map_sum id Inr) r')"
  by (auto simp: Done_is_bind_upg)

lemma relay_dial_no_panic:
  "ri_remote_addr h \<noteq> None \<Longrightarrow> \<not> completes (relay_dial_upgrade L h) tr (Inl p)"
  by (auto simp: relay_dial_simps)

lemma relay_listen_no_panic: "\<not> completes (relay_listen_upgrade L h) tr (Inl p)"
  by (auto simp: relay_listen_upgrade_def completes_simps)

lemma relay_outbound_no_panic: "\<not> completes (relay_upgrade_outbound L v) tr (Inl p)"
  by (auto simp: relay_upgrade_outbound_def completes_simps)

lemma task_ok_no_panic_dial: "task_ok L ps (DialTask cid h tr (Done r)) \<Longrightarrow> r \<noteq> Inl p"
  using relay_dial_no_panic [of h L tr p] unfolding task_ok_dial_done by auto

lemma task_ok_no_panic_listen: "task_ok L ps (ListenTask cid h tr (Done r)) \<Longrightarrow> r \<noteq> Inl p"
  using relay_listen_no_panic [of L h tr p] unfolding task_ok_listen_done by auto

lemma task_ok_no_panic_connect: "task_ok L ps (ConnectTask cid v info tr (Done r)) \<Longrightarrow> r \<noteq> Inl p"
  using relay_outbound_no_panic [of L v tr p] by auto

lemma relay_step_no_panic: "relay_step L i b \<noteq> Inl p"
  by (cases i) (auto split: prod.splits)

lemma behave_no_panic: "behave L i s \<noteq> Inl p"
  using relay_step_no_panic [of L i "rs_behaviour s"] by (auto simp: behave_def split: sum.splits)

lemma finish_no_panic:
  assumes "relay_wired L s" and "task_at k s = Some (t, l)"
  shows "finish msg k t l s \<noteq> Inl p"
proof -
  from assms(2) have "rs_tasks s k = Some t"
    by (simp add: task_at_Some)
  with assms(1) have ok: "task_ok L (peers s) t"
    by (rule relay_wired_task)
  show ?thesis
  proof (cases t)
    case (DialTask cid h tr u)
    with ok task_ok_no_panic_dial [of L "peers s" cid h tr] show ?thesis
      by (cases u) (auto simp: finish_def simp del: task_ok.simps split: sum.splits)
  next
    case (ListenTask cid h tr u)
    with ok task_ok_no_panic_listen [of L "peers s" cid h tr] show ?thesis
      by (cases u) (auto simp: finish_def simp del: task_ok.simps split: sum.splits)
  next
    case (ConnectTask cid v info tr u)
    with ok task_ok_no_panic_connect [of L "peers s" cid v info tr] show ?thesis
      by (cases u) (auto simp: finish_def simp del: task_ok.simps split: sum.splits)
  qed
qed

lemma relay_system_step_total:
  assumes "relay_wired L s"
  shows "\<exists>s' os. relay_system_step L i s = Inr (s', os) \<and> relay_wired L s'"
proof -
  have "relay_system_step L i s \<noteq> Inl p" for p
  proof (cases i)
    case (RsInbound cid k info)
    then show ?thesis
      by (auto simp: Let_def relay_upgrade_inbound_def relay_inbound_protocol_info_def
          split: option.splits)
  next
    case (RsFinish k msg)
    with finish_no_panic [OF assms] show ?thesis
      by (auto split: option.splits)
  next
    case (RsHandlerPoll cid k)
    then show ?thesis
      by (auto split: option.splits prod.splits poll.splits handler_event.splits)
  qed (auto simp: behave_no_panic split: option.splits list.splits relay_task.splits)
  then obtain s' os where "relay_system_step L i s = Inr (s', os)"
    by (metis old.sum.exhaust surj_pair)
  with relay_wiring.inv_step [OF assms] show ?thesis by blast
qed

text \<open>
  C11: No sequence of steps of the relay, whatever its peers, the swarm and the runtime do, panics:
  the remote address of a dial is always known, a negotiated protocol is always one of the two
  that the handler offers, and no upgrade, handler or behaviour operation ends otherwise.
\<close>

theorem relay_system_never_panics:
  "\<exists>s os. run (relay_system_step L) is (relay_system_new tx) = Inr (s, os)"
  using run_no_panic [of "is" "relay_wired L" "relay_system_step L"]
    relay_system_step_total relay_wired_new by blast

end
