(* ===== verification/Endpoint_Upgrade.thy ===== *)
theory Endpoint_Upgrade
  imports Async_Upgrade
begin

text \<open>
  \<open>src/endpoint/upgrade\<close>: what an endpoint does on a substream to its relay. Outbound it sends a
  dial or a listen request and reads the answer; inbound it accepts or refuses a connection the
  relay brings for a listen address.
\<close>

section \<open>Errors and data\<close>

datatype endpoint_error =
    EIo io_error
  | EUnexpectedStreamClosed
  | EUnexpectedResult upgrade_action
  | EActionFailed upgrade_action "string option"
  | EInvalidAddr string
  | EInvalidPeerId string

text \<open>The \<open>Display\<close> texts of the error, as its attributes give them.\<close>

fun endpoint_error_display :: "lib \<Rightarrow> endpoint_error \<Rightarrow> string" where
  "endpoint_error_display L (EIo e) = ''io error: '' @ show_io L e"
| "endpoint_error_display L EUnexpectedStreamClosed = ''unexpected stream closed''"
| "endpoint_error_display L (EUnexpectedResult action) = ''unexpected result''"
| "endpoint_error_display L (EActionFailed action reason) =
     ''action failed: '' @ debug_reason L reason"
| "endpoint_error_display L (EInvalidAddr s) = ''invalid addr: '' @ s"
| "endpoint_error_display L (EInvalidPeerId s) = ''invalid peer id: '' @ s"

record endpoint_inbound_upgrade =
  ei_local_peer_id :: peer_id
  ei_relay_peer_id :: "peer_id option"

definition endpoint_inbound_new :: "peer_id \<Rightarrow> peer_id option \<Rightarrow> endpoint_inbound_upgrade" where
  "endpoint_inbound_new local_peer_id relay_peer_id =
     \<lparr>ei_local_peer_id = local_peer_id, ei_relay_peer_id = relay_peer_id\<rparr>"

definition endpoint_inbound_protocol_info :: "endpoint_inbound_upgrade \<Rightarrow> string list" where
  "endpoint_inbound_protocol_info u = [AUTO_RELAY_CONNECT_PROTOCOL]"

record 'ss inbound_upgrade_output =
  io_listen_peer_id :: peer_id
  io_listen_addr :: multiaddr
  io_relay_peer_id :: peer_id
  io_connection :: "'ss connection"

datatype endpoint_outbound_upgrade =
    OutDial peer_id multiaddr
  | OutListen peer_id multiaddr

definition new_dial :: "peer_id \<Rightarrow> multiaddr \<Rightarrow> endpoint_outbound_upgrade" where
  "new_dial dst_peer_id dst_addr = OutDial dst_peer_id dst_addr"

definition new_listen :: "peer_id \<Rightarrow> multiaddr \<Rightarrow> endpoint_outbound_upgrade" where
  "new_listen listen_peer_id listen_addr = OutListen listen_peer_id listen_addr"

fun endpoint_outbound_protocol_info :: "endpoint_outbound_upgrade \<Rightarrow> string list" where
  "endpoint_outbound_protocol_info (OutDial p a) = [AUTO_RELAY_DIAL_PROTOCOL]"
| "endpoint_outbound_protocol_info (OutListen p a) = [AUTO_RELAY_LISTEN_PROTOCOL]"

section \<open>The outbound upgrades\<close>

type_synonym 'ss endpoint_dial_upg =
  "(pb_dial_response, pb_dial_request, 'ss, panic + endpoint_error + 'ss connection) upg"

definition endpoint_dial_upgrade :: "lib \<Rightarrow> peer_id \<Rightarrow> multiaddr \<Rightarrow> 'ss endpoint_dial_upg" where
  "endpoint_dial_upgrade L dst_peer dst_addr =
     SendMsg \<lparr>dial_peer_id = show_peer L dst_peer, dial_addr = show_addr L dst_addr\<rparr>
       (\<lambda>r. case r of
          Inl e \<Rightarrow> upg_err (EIo e)
        | Inr _ \<Rightarrow>
            TryNext (\<lambda>m. case m of
              Inl e \<Rightarrow> upg_err (EIo e)
            | Inr None \<Rightarrow> upg_err EUnexpectedStreamClosed
            | Inr (Some None) \<Rightarrow> upg_err (EUnexpectedResult ActionDial)
            | Inr (Some (Some (PbDialFailed reason))) \<Rightarrow>
                upg_err (EActionFailed ActionDial (Some reason))
            | Inr (Some (Some PbDialSuccess)) \<Rightarrow>
                IntoParts (\<lambda>(read_buffer, io). upg_ok (new_connection dst_addr read_buffer io))))"

type_synonym 'ss endpoint_listen_upg =
  "(pb_listen_response, pb_listen_request, 'ss, panic + endpoint_error + unit) upg"

definition endpoint_listen_upgrade :: "lib \<Rightarrow> peer_id \<Rightarrow> multiaddr \<Rightarrow> 'ss endpoint_listen_upg" where
  "endpoint_listen_upgrade L listen_peer_id listen_addr =
     SendMsg \<lparr>req_listen_peer_id = show_peer L listen_peer_id,
              req_listen_addr = show_addr L listen_addr\<rparr>
       (\<lambda>r. case r of
          Inl e \<Rightarrow> upg_err (EIo e)
        | Inr _ \<Rightarrow>
            TryNext (\<lambda>m. case m of
              Inl e \<Rightarrow> upg_err (EIo e)
            | Inr None \<Rightarrow> upg_err EUnexpectedStreamClosed
            | Inr (Some None) \<Rightarrow> upg_err (EUnexpectedResult ActionListen)
            | Inr (Some (Some (PbListenFailed reason))) \<Rightarrow>
                upg_err (EActionFailed ActionListen (Some reason))
            | Inr (Some (Some PbListenSuccess)) \<Rightarrow> upg_ok ()))"

text \<open>\<open>upgrade_outbound\<close>: the result of a dial is tagged left, that of a listen right.\<close>

fun endpoint_upgrade_outbound ::
  "lib \<Rightarrow> endpoint_outbound_upgrade \<Rightarrow>
     (pb_dial_response, pb_dial_request, 'ss,
       panic + endpoint_error + ('ss connection + unit)) upg +
     (pb_listen_response, pb_listen_request, 'ss,
       panic + endpoint_error + ('ss connection + unit)) upg" where
  "endpoint_upgrade_outbound L (OutDial dst_peer dst_addr) =
     Inl (bind_upg (endpoint_dial_upgrade L dst_peer dst_addr)
            (\<lambda>r. Done (map_sum id (map_sum id Inl) r)))"
| "endpoint_upgrade_outbound L (OutListen listen_peer_id listen_addr) =
     Inr (bind_upg (endpoint_listen_upgrade L listen_peer_id listen_addr)
            (\<lambda>r. Done (map_sum id (map_sum id Inr) r)))"

section \<open>The inbound upgrade\<close>

text \<open>
  \<open>parse_addr\<close> and \<open>parse_peer_id\<close>: on a parse failure they try to tell the relay (the result of
  that send is only logged) and return the error.
\<close>

definition parse_addr ::
  "lib \<Rightarrow> string \<Rightarrow> (pb_connect_request, pb_connect_response, 'ss, endpoint_error + multiaddr) upg" where
  "parse_addr L addr =
     (case parse_multiaddr L addr of
        Inl _ \<Rightarrow>
          SendMsg (Some (PbConnectFailed (endpoint_error_display L (EInvalidAddr addr))))
            (\<lambda>_. Done (Inl (EInvalidAddr addr)))
      | Inr a \<Rightarrow> Done (Inr a))"

definition parse_peer_id ::
  "lib \<Rightarrow> string \<Rightarrow> (pb_connect_request, pb_connect_response, 'ss, endpoint_error + peer_id) upg" where
  "parse_peer_id L peer_id =
     (case parse_peer L peer_id of
        Inl _ \<Rightarrow>
          SendMsg (Some (PbConnectFailed (endpoint_error_display L (EInvalidPeerId peer_id))))
            (\<lambda>_. Done (Inl (EInvalidPeerId peer_id)))
      | Inr p \<Rightarrow> Done (Inr p))"

text \<open>The reason given to the relay for a destination that is not this endpoint.\<close>

definition not_listen_reason :: "lib \<Rightarrow> multiaddr \<Rightarrow> string" where
  "not_listen_reason L dst_addr = ''dst addr '' @ show_addr L dst_addr @ '' not listen''"

text \<open>\<open>?\<close> on the result of a call: an error is returned, a value is passed on.\<close>

definition try_upg ::
  "('i, 'o, 'ss, 'e + 'a) upg \<Rightarrow> ('a \<Rightarrow> ('i, 'o, 'ss, panic + 'e + 'b) upg) \<Rightarrow>
     ('i, 'o, 'ss, panic + 'e + 'b) upg" where
  "try_upg p f = bind_upg p (\<lambda>r. case r of Inl e \<Rightarrow> upg_err e | Inr a \<Rightarrow> f a)"

definition endpoint_upgrade_inbound ::
  "lib \<Rightarrow> endpoint_inbound_upgrade \<Rightarrow>
     (pb_connect_request, pb_connect_response, 'ss,
       panic + endpoint_error + 'ss inbound_upgrade_output) upg" where
  "endpoint_upgrade_inbound L u =
     TryNext (\<lambda>m. case m of
       Inl e \<Rightarrow> upg_err (EIo e)
     | Inr None \<Rightarrow> upg_err EUnexpectedStreamClosed
     | Inr (Some req) \<Rightarrow>
         try_upg (parse_addr L (con_dst_addr req)) (\<lambda>dst_addr.
         try_upg (parse_peer_id L (con_dst_peer_id req)) (\<lambda>dst_peer_id.
           if ei_local_peer_id u \<noteq> dst_peer_id then
             SendMsg (Some (PbConnectFailed (not_listen_reason L dst_addr)))
               (\<lambda>_. upg_err (EActionFailed ActionConnect (Some (not_listen_reason L dst_addr))))
           else
             try_upg (parse_addr L (con_dialer_addr req)) (\<lambda>dialer_addr.
               SendMsg (Some PbConnectSuccess) (\<lambda>r. case r of
                 Inl e \<Rightarrow> upg_err (EIo e)
               | Inr _ \<Rightarrow>
                   FlushFramed (\<lambda>r. case r of
                     Inl e \<Rightarrow> upg_err (EIo e)
                   | Inr _ \<Rightarrow>
                       IntoParts (\<lambda>(read_buffer, io).
                         case ei_relay_peer_id u of
                           None \<Rightarrow> upg_panic ''called `Option::unwrap()` on a `None` value''
                         | Some relay_peer_id \<Rightarrow>
                             upg_ok \<lparr>io_listen_peer_id = ei_local_peer_id u,
                               io_listen_addr = dst_addr, io_relay_peer_id = relay_peer_id,
                               io_connection = new_connection dialer_addr read_buffer io\<rparr>)))))))"

lemma completes_try:
  "completes (try_upg p f) tr r \<longleftrightarrow>
     (\<exists>e. completes p tr (Inl e) \<and> r = Inr (Inl e)) \<or>
     (\<exists>tr1 tr2 a. tr = tr1 @ tr2 \<and> completes p tr1 (Inr a) \<and> completes (f a) tr2 r)"
  (is "?L \<longleftrightarrow> ?A \<or> ?B")
proof -
  have "?L \<longleftrightarrow> (\<exists>tr1 tr2 x. tr = tr1 @ tr2 \<and> completes p tr1 x \<and>
      ((\<exists>e. x = Inl e \<and> tr2 = [] \<and> r = Inr (Inl e)) \<or>
       (\<exists>a. x = Inr a \<and> completes (f a) tr2 r)))"
    by (simp add: try_upg_def completes_bind completes_sum)
  also have "\<dots> \<longleftrightarrow> ?A \<or> ?B"
    by (metis append_Nil2)
  finally show ?thesis .
qed

lemma completes_parse_addr:
  "completes (parse_addr L s) tr r \<longleftrightarrow>
     (\<exists>a. parse_multiaddr L s = Inr a \<and> tr = [] \<and> r = Inr a) \<or>
     (\<exists>err x. parse_multiaddr L s = Inl err \<and> r = Inl (EInvalidAddr s) \<and>
        tr = [EvSend (Some (PbConnectFailed (endpoint_error_display L (EInvalidAddr s)))) x])"
  by (auto simp: parse_addr_def completes_simps)

lemma completes_parse_peer_id:
  "completes (parse_peer_id L s) tr r \<longleftrightarrow>
     (\<exists>p. parse_peer L s = Inr p \<and> tr = [] \<and> r = Inr p) \<or>
     (\<exists>err x. parse_peer L s = Inl err \<and> r = Inl (EInvalidPeerId s) \<and>
        tr = [EvSend (Some (PbConnectFailed (endpoint_error_display L (EInvalidPeerId s)))) x])"
  by (auto simp: parse_peer_id_def completes_simps)

lemma completes_if:
  "completes (if b then p else q) tr r \<longleftrightarrow> (b \<and> completes p tr r) \<or> (\<not> b \<and> completes q tr r)"
  by simp

lemmas endpoint_inbound_simps = endpoint_upgrade_inbound_def completes_try completes_parse_addr
  completes_parse_peer_id completes_if completes_simps

text \<open>
  C23: An endpoint accepts a relayed connection exactly on the runs where the request parses in
  all three parts, it names this endpoint as the destination, and the success response was sent
  and flushed. What it hands on is the connection under the dialer's address, with the bytes read
  past the request, for the requested listen address.
\<close>

theorem endpoint_inbound_accepts_iff:
  "completes (endpoint_upgrade_inbound L u) tr (Inr (Inr out)) \<longleftrightarrow>
   (\<exists>req a d relay buf ss.
      parse_multiaddr L (con_dst_addr req) = Inr a \<and>
      parse_peer L (con_dst_peer_id req) = Inr (ei_local_peer_id u) \<and>
      parse_multiaddr L (con_dialer_addr req) = Inr d \<and> ei_relay_peer_id u = Some relay \<and>
      tr = [EvNext (Inr (Some req)), EvSend (Some PbConnectSuccess) (Inr ()), EvFlush (Inr ()),
            EvParts (buf, ss)] \<and>
      out = \<lparr>io_listen_peer_id = ei_local_peer_id u, io_listen_addr = a,
             io_relay_peer_id = relay, io_connection = new_connection d buf ss\<rparr>)"
  (is "?L \<longleftrightarrow> ?R")
proof
  assume ?L
  then show ?R
    by (simp add: endpoint_inbound_simps) (elim exE disjE conjE; fastforce)
next
  assume ?R
  then show ?L
    by (elim exE conjE)
       (simp add: endpoint_upgrade_inbound_def try_upg_def parse_addr_def parse_peer_id_def)
qed

text \<open>
  A connect request for another endpoint is refused: whatever the environment answers, the
  one response tried is a failure naming the address, and the upgrade returns that failure. No
  success is ever tried for it, even if the dialer's address does not parse.
\<close>

theorem endpoint_inbound_refuses_foreign:
  assumes "parse_multiaddr L (con_dst_addr req) = Inr a"
    and "parse_peer L (con_dst_peer_id req) = Inr p" and "p \<noteq> ei_local_peer_id u"
    and "completes (endpoint_upgrade_inbound L u) (EvNext (Inr (Some req)) # tr) r"
  shows "attempted tr = [Some (PbConnectFailed (not_listen_reason L a))] \<and>
     r = Inr (Inl (EActionFailed ActionConnect (Some (not_listen_reason L a))))"
  using assms by (auto simp: endpoint_inbound_simps)

theorem endpoint_inbound_refuses_foreign_witness:
  "attempted [EvSend (Some (PbConnectFailed (not_listen_reason raw_lib (Multiaddr [97])))) (Inr ())
      :: (pb_connect_request, _, bytes) ev]
    = [Some (PbConnectFailed (not_listen_reason raw_lib (Multiaddr [97])))]"
proof -
  let ?req = "\<lparr>con_dst_addr = ''a'', con_dst_peer_id = ''p'', con_dialer_addr = ''d''\<rparr>"
  let ?u = "endpoint_inbound_new (PeerId [113]) (Some (PeerId [1]))"
  have a: "parse_multiaddr raw_lib (con_dst_addr ?req) = Inr (Multiaddr [97])"
    and p: "parse_peer raw_lib (con_dst_peer_id ?req) = Inr (PeerId [112])"
    by code_simp+
  have "completes (endpoint_upgrade_inbound raw_lib ?u)
      [EvNext (Inr (Some ?req)),
       EvSend (Some (PbConnectFailed (not_listen_reason raw_lib (Multiaddr [97])))) (Inr ())
         :: (_, _, bytes) ev]
      (Inr (Inl (EActionFailed ActionConnect (Some (not_listen_reason raw_lib (Multiaddr [97]))))))"
    using a p by (simp add: endpoint_upgrade_inbound_def try_upg_def parse_addr_def
        parse_peer_id_def endpoint_inbound_new_def)
  from endpoint_inbound_refuses_foreign [OF a p _ this] show ?thesis
    by (simp add: endpoint_inbound_new_def)
qed

text \<open>
  With the relay's peer id known (as \<open>listen_protocol\<close> supplies it) the inbound upgrade
  never reaches its \<open>unwrap\<close> of \<open>None\<close>, and a finished run has tried exactly one response to a
  request it got and none otherwise.
\<close>

theorem endpoint_inbound_one_response:
  assumes "ei_relay_peer_id u = Some relay"
    and "completes (endpoint_upgrade_inbound L u) tr r"
  shows "(\<forall>p. r \<noteq> Inl p) \<and> length (attempted tr) = length (received tr) \<and>
     length (received tr) \<le> 1 \<and>
     ((\<exists>out. r = Inr (Inr out)) \<longrightarrow> attempted tr = [Some PbConnectSuccess])"
  using assms by (auto simp: endpoint_inbound_simps)

theorem endpoint_inbound_one_response_witness:
  "\<exists>tr :: (pb_connect_request, pb_connect_response, bytes) ev list.
     completes (endpoint_upgrade_inbound raw_lib (endpoint_inbound_new (PeerId [113]) (Some (PeerId [1]))))
       tr (Inr (Inl EUnexpectedStreamClosed)) \<and>
     length (received tr) = 0 \<and> length (attempted tr) = 0"
proof -
  let ?tr = "[EvNext (Inr None)] :: (pb_connect_request, pb_connect_response, bytes) ev list"
  have r: "completes (endpoint_upgrade_inbound raw_lib
      (endpoint_inbound_new (PeerId [113]) (Some (PeerId [1])))) ?tr (Inr (Inl EUnexpectedStreamClosed))"
    by (simp add: endpoint_upgrade_inbound_def)
  have "ei_relay_peer_id (endpoint_inbound_new (PeerId [113]) (Some (PeerId [1]))) = Some (PeerId [1])"
    by (simp add: endpoint_inbound_new_def)
  from endpoint_inbound_one_response [OF this r] have "length (attempted ?tr) = length (received ?tr)"
    by blast
  moreover have "length (received ?tr) = 0"
    by simp
  ultimately show ?thesis
    using r by metis
qed

section \<open>The outbound dial and listen\<close>

text \<open>
  An endpoint's dial sends one request, which names the destination, and returns a connection
  exactly on the runs where the relay answered success.
\<close>

lemma endpoint_dial_runs:
  "completes (endpoint_dial_upgrade L p a) tr r \<longleftrightarrow>
   (\<exists>x tr'. tr = EvSend \<lparr>dial_peer_id = show_peer L p, dial_addr = show_addr L a\<rparr> x # tr' \<and>
     ((\<exists>e. x = Inl e \<and> tr' = [] \<and> r = Inr (Inl (EIo e))) \<or>
      (x = Inr () \<and>
        ((\<exists>e. tr' = [EvNext (Inl e)] \<and> r = Inr (Inl (EIo e))) \<or>
         (tr' = [EvNext (Inr None)] \<and> r = Inr (Inl EUnexpectedStreamClosed)) \<or>
         (tr' = [EvNext (Inr (Some None))] \<and> r = Inr (Inl (EUnexpectedResult ActionDial))) \<or>
         (\<exists>reason. tr' = [EvNext (Inr (Some (Some (PbDialFailed reason))))] \<and>
            r = Inr (Inl (EActionFailed ActionDial (Some reason)))) \<or>
         (\<exists>buf ss. tr' = [EvNext (Inr (Some (Some PbDialSuccess))), EvParts (buf, ss)] \<and>
            r = Inr (Inr (new_connection a buf ss)))))))"
  (is "?L \<longleftrightarrow> ?R")
proof
  assume ?L
  then show ?R
    by (simp add: endpoint_dial_upgrade_def completes_simps) (elim exE disjE conjE; force)
next
  assume ?R
  then show ?L
    by (elim exE disjE conjE) (auto simp: endpoint_dial_upgrade_def)
qed

lemma endpoint_listen_runs:
  "completes (endpoint_listen_upgrade L p a) tr (Inr (Inr u)) \<longleftrightarrow>
   tr = [EvSend \<lparr>req_listen_peer_id = show_peer L p, req_listen_addr = show_addr L a\<rparr> (Inr ()),
         EvNext (Inr (Some (Some PbListenSuccess)))]"
  by (auto simp: endpoint_listen_upgrade_def completes_simps)

text \<open>The outbound upgrades never panic, and each returns the kind of result its request asks for.\<close>

lemma endpoint_outbound_kind:
  "endpoint_upgrade_outbound L (OutDial p a) = Inl ud \<Longrightarrow> completes ud tr r \<Longrightarrow>
     (\<exists>e. r = Inr (Inl e)) \<or> (\<exists>c. r = Inr (Inr (Inl c)))"
  "endpoint_upgrade_outbound L (OutListen p a) = Inr ul \<Longrightarrow> completes ul tr' r' \<Longrightarrow>
     (\<exists>e. r' = Inr (Inl e)) \<or> r' = Inr (Inr (Inr ()))"
  by (auto simp: endpoint_dial_upgrade_def endpoint_listen_upgrade_def completes_bind
      completes_simps)

end
