(* ===== verification/Handshake.thy ===== *)
theory Handshake
  imports Relay_Behaviour Endpoint_Upgrade
begin

text \<open>
  The handshakes of the protocol, with both sides running: the upgrades of \<open>src/endpoint/upgrade\<close>
  against those of \<open>src/relay/upgrade\<close>, over a substream that delivers in order (\<open>delivers\<close>) and
  with identifiers that survive printing and parsing (\<open>lib_roundtrip\<close>). Nothing is assumed of the
  rest of either side's run: a side may fail, hang or be cut off at any point.
\<close>

section \<open>Listening\<close>

lemma delivers_attempted:
  "delivers w r \<Longrightarrow> received r = m # ms \<Longrightarrow> \<exists>rest. attempted w = m # rest"
  by (auto simp: delivers_def prefix_def)

lemma delivers_received:
  "delivers w r \<Longrightarrow> attempted w = [m] \<Longrightarrow> received r = [] \<or> received r = [m]"
  by (auto simp: delivers_def prefix_Cons)

text \<open>
  C37: When an endpoint's listen succeeds, the relay has parsed the endpoint's own peer id and
  address out of the request and tried the success response; unless that send reported an error,
  the relay's side returns exactly that peer and address.
\<close>

theorem listen_handshake_agrees:
  assumes "lib_roundtrip L"
    and "completes (endpoint_listen_upgrade L p a) tr1 (Inr (Inr u))"
    and "completes (relay_listen_upgrade L h) tr2 r"
    and "delivers tr1 tr2" and "delivers tr2 tr1"
  shows "attempted tr2 = [Some PbListenSuccess] \<and>
     (r = Inr (Inr \<lparr>lr_listen_peer_id = p, lr_listen_addr = a\<rparr>) \<or> (\<exists>e. r = Inr (Inl (RIo e))))"
proof -
  from assms(2) have tr1: "attempted tr1 = [\<lparr>req_listen_peer_id = show_peer L p, req_listen_addr = show_addr L a\<rparr>]"
    "received tr1 = [Some PbListenSuccess]"
    by (simp_all add: endpoint_listen_runs)
  from delivers_received [OF assms(4) tr1(1)] delivers_attempted [OF assms(5) tr1(2)] assms(3)
    lib_roundtrip_peer [OF assms(1)] lib_roundtrip_addr [OF assms(1)]
  show ?thesis
    by (auto simp: relay_listen_upgrade_def completes_simps)
qed

text \<open>One complete handshake of each kind, as both sides see it.\<close>

definition listen_trace1 :: "(pb_listen_response, pb_listen_request, bytes) ev list" where
  "listen_trace1 = [EvSend \<lparr>req_listen_peer_id = show_peer raw_lib (PeerId [7]),
     req_listen_addr = show_addr raw_lib (Multiaddr [7, 1])\<rparr> (Inr ()),
     EvNext (Inr (Some (Some PbListenSuccess)))]"

definition listen_trace2 :: "(pb_listen_request, pb_listen_response, bytes) ev list" where
  "listen_trace2 = [EvNext (Inr (Some \<lparr>req_listen_peer_id = show_peer raw_lib (PeerId [7]),
     req_listen_addr = show_addr raw_lib (Multiaddr [7, 1])\<rparr>)),
     EvSend (Some PbListenSuccess) (Inr ())]"

theorem listen_handshake_agrees_witness:
  "completes (endpoint_listen_upgrade raw_lib (PeerId [7]) (Multiaddr [7, 1])) listen_trace1 (Inr (Inr ())) \<and>
   completes (relay_listen_upgrade raw_lib (relay_inbound_new None (MpscTx 0))) listen_trace2
     (Inr (Inr \<lparr>lr_listen_peer_id = PeerId [7], lr_listen_addr = Multiaddr [7, 1]\<rparr>)) \<and>
   attempted listen_trace2 = [Some PbListenSuccess]"
proof -
  have 1: "completes (endpoint_listen_upgrade raw_lib (PeerId [7]) (Multiaddr [7, 1])) listen_trace1
      (Inr (Inr ()))"
    by (simp add: endpoint_listen_upgrade_def listen_trace1_def)
  have 2: "completes (relay_listen_upgrade raw_lib (relay_inbound_new None (MpscTx 0)))
      listen_trace2 (Inr (Inr \<lparr>lr_listen_peer_id = PeerId [7], lr_listen_addr = Multiaddr [7, 1]\<rparr>))"
    by (simp add: relay_listen_upgrade_def listen_trace2_def
        lib_roundtrip_peer [OF raw_lib_roundtrip] lib_roundtrip_addr [OF raw_lib_roundtrip])
  have 3: "delivers listen_trace1 listen_trace2" and 4: "delivers listen_trace2 listen_trace1"
    by (simp_all add: delivers_def listen_trace1_def listen_trace2_def)
  from listen_handshake_agrees [OF raw_lib_roundtrip 1 2 3 4] 1 2 show ?thesis by blast
qed

section \<open>Dialing\<close>

lemma endpoint_dial_success:
  "completes (endpoint_dial_upgrade L p a) tr (Inr (Inr c)) \<Longrightarrow>
     attempted tr = [\<lparr>dial_peer_id = show_peer L p, dial_addr = show_addr L a\<rparr>] \<and>
     received tr = [Some PbDialSuccess] \<and> remote_addr c = a"
  by (auto simp: endpoint_dial_upgrade_def completes_simps new_connection_def)

lemma dial_handshake:
  assumes "lib_roundtrip L"
    and "completes (endpoint_dial_upgrade L p a) tr1 (Inr (Inr c))"
    and "completes (relay_dial_upgrade L h) tr2 r"
    and "delivers tr1 tr2" and "delivers tr2 tr1"
  shows "\<exists>tx c' ra. ri_remote_addr h = Some ra \<and>
     EvSubmit (ri_connect_request_sender h) \<lparr>cr_dst_peer_id = p, cr_dst_addr = a,
       cr_dialer_addr = ra, cr_connection_sender = tx\<rparr> (Inr ()) \<in> set tr2 \<and>
     EvConn tx (Inr (Inr c')) \<in> set tr2 \<and> attempted tr2 = [Some PbDialSuccess]"
proof -
  note d = endpoint_dial_success [OF assms(2)]
  from delivers_received [OF assms(4)] delivers_attempted [OF assms(5)] d assms(3)
    lib_roundtrip_peer [OF assms(1)] lib_roundtrip_addr [OF assms(1)]
  show ?thesis
    by (auto simp: relay_dial_simps)
qed

text \<open>
  When an endpoint's dial succeeds, the relay has asked its behaviour for a connection to
  exactly the peer and address the endpoint dialed, under the dialer's own address, got one, and
  tried one response, the success.
\<close>

theorem dial_handshake_agrees:
  assumes "lib_roundtrip L"
    and "completes (endpoint_dial_upgrade L p a) tr1 (Inr (Inr c))"
    and "completes (relay_dial_upgrade L h) tr2 r"
    and "delivers tr1 tr2" and "delivers tr2 tr1"
  shows "\<exists>tx c' ra. ri_remote_addr h = Some ra \<and>
     EvSubmit (ri_connect_request_sender h) \<lparr>cr_dst_peer_id = p, cr_dst_addr = a,
       cr_dialer_addr = ra, cr_connection_sender = tx\<rparr> (Inr ()) \<in> set tr2 \<and>
     EvConn tx (Inr (Inr c')) \<in> set tr2 \<and> attempted tr2 = [Some PbDialSuccess]"
  by (rule dial_handshake [OF assms])

definition dial_trace1 :: "(pb_dial_response, pb_dial_request, bytes) ev list" where
  "dial_trace1 = [EvSend \<lparr>dial_peer_id = show_peer raw_lib (PeerId [7]),
     dial_addr = show_addr raw_lib (Multiaddr [7, 1])\<rparr> (Inr ()),
     EvNext (Inr (Some (Some PbDialSuccess))), EvParts ([], [])]"

definition dial_trace2 :: "(pb_dial_request, pb_dial_response, bytes) ev list" where
  "dial_trace2 = [EvNext (Inr (Some \<lparr>dial_peer_id = show_peer raw_lib (PeerId [7]),
     dial_addr = show_addr raw_lib (Multiaddr [7, 1])\<rparr>)), EvOneshot (Oneshot 2),
     EvSubmit (MpscTx 0) \<lparr>cr_dst_peer_id = PeerId [7], cr_dst_addr = Multiaddr [7, 1],
       cr_dialer_addr = Multiaddr [3], cr_connection_sender = Oneshot 2\<rparr> (Inr ()),
     EvConn (Oneshot 2) (Inr (Inr (new_connection (Multiaddr [7, 1]) [] [42]))),
     EvSend (Some PbDialSuccess) (Inr ()), EvParts ([], [])]"

lemma dial_trace1_completes:
  "completes (endpoint_dial_upgrade raw_lib (PeerId [7]) (Multiaddr [7, 1])) dial_trace1
     (Inr (Inr (new_connection (Multiaddr [7, 1]) [] [])))"
  by (simp add: endpoint_dial_upgrade_def dial_trace1_def)

lemma dial_trace2_completes:
  "completes (relay_dial_upgrade raw_lib (relay_inbound_new (Some (Multiaddr [3])) (MpscTx 0)))
     dial_trace2 (Inr (Inr (new_connection (Multiaddr [3]) [] [],
       new_connection (Multiaddr [7, 1]) [] [42])))"
  by (simp add: relay_dial_upgrade_def dial_trace2_def relay_inbound_new_def
      lib_roundtrip_peer [OF raw_lib_roundtrip] lib_roundtrip_addr [OF raw_lib_roundtrip])

lemma dial_traces_deliver: "delivers dial_trace1 dial_trace2" "delivers dial_trace2 dial_trace1"
  by (simp_all add: delivers_def dial_trace1_def dial_trace2_def)

theorem dial_handshake_agrees_witness:
  "completes (relay_dial_upgrade raw_lib (relay_inbound_new (Some (Multiaddr [3])) (MpscTx 0)))
     dial_trace2 (Inr (Inr (new_connection (Multiaddr [3]) [] [], new_connection (Multiaddr [7, 1]) [] [42]))) \<and>
   (\<exists>tx c'. EvConn tx (Inr (Inr c')) \<in> set dial_trace2) \<and>
   attempted dial_trace2 = [Some PbDialSuccess]"
  using dial_handshake_agrees [OF raw_lib_roundtrip dial_trace1_completes dial_trace2_completes
      dial_traces_deliver] dial_trace2_completes by blast

section \<open>Connecting\<close>

lemma relay_connect_success:
  "completes (relay_upgrade_outbound L u) tr (Inr (Inr c)) \<Longrightarrow>
     attempted tr = [\<lparr>con_dst_addr = show_addr L (ro_dst_addr u),
       con_dst_peer_id = show_peer L (ro_dst_peer_id u),
       con_dialer_addr = show_addr L (ro_dialer_addr u)\<rparr>] \<and>
     received tr = [Some PbConnectSuccess] \<and> remote_addr c = ro_dst_addr u"
  by (auto simp: relay_upgrade_outbound_def completes_simps new_connection_def)

lemma connect_handshake:
  assumes "lib_roundtrip L"
    and "completes (relay_upgrade_outbound L u) tr1 (Inr (Inr c))"
    and "completes (endpoint_upgrade_inbound L e) tr2 r"
    and "delivers tr1 tr2" and "delivers tr2 tr1"
  shows "ei_local_peer_id e = ro_dst_peer_id u \<and> attempted tr2 = [Some PbConnectSuccess] \<and>
     (\<forall>out. r = Inr (Inr out) \<longrightarrow>
        io_listen_peer_id out = ro_dst_peer_id u \<and> io_listen_addr out = ro_dst_addr u \<and>
        remote_addr (io_connection out) = ro_dialer_addr u)"
proof -
  note d = relay_connect_success [OF assms(2)]
  from d delivers_attempted [OF assms(5)] obtain rest where
    tried: "attempted tr2 = Some PbConnectSuccess # rest"
    by blast
  from d delivers_received [OF assms(4)] have got: "received tr2 = [] \<or>
      received tr2 = [\<lparr>con_dst_addr = show_addr L (ro_dst_addr u),
        con_dst_peer_id = show_peer L (ro_dst_peer_id u),
        con_dialer_addr = show_addr L (ro_dialer_addr u)\<rparr>]"
    by blast
  from assms(3) tried got lib_roundtrip_peer [OF assms(1)] lib_roundtrip_addr [OF assms(1)]
  show ?thesis
    by (simp add: endpoint_inbound_simps)
       (elim exE disjE conjE; auto simp: new_connection_def)
qed

text \<open>
  When the relay's connect to an endpoint succeeds, the endpoint at the other end is the one
  the connect named, and it tried the success response and nothing else; if its side went through,
  it holds the connection for the listen address the relay asked for, under the dialer's address.
\<close>

theorem connect_handshake_agrees:
  assumes "lib_roundtrip L"
    and "completes (relay_upgrade_outbound L u) tr1 (Inr (Inr c))"
    and "completes (endpoint_upgrade_inbound L e) tr2 r"
    and "delivers tr1 tr2" and "delivers tr2 tr1"
  shows "ei_local_peer_id e = ro_dst_peer_id u \<and> attempted tr2 = [Some PbConnectSuccess] \<and>
     (\<forall>out. r = Inr (Inr out) \<longrightarrow>
        io_listen_peer_id out = ro_dst_peer_id u \<and> io_listen_addr out = ro_dst_addr u \<and>
        remote_addr (io_connection out) = ro_dialer_addr u)"
  by (rule connect_handshake [OF assms])

definition connect_trace1 :: "(pb_connect_response, pb_connect_request, bytes) ev list" where
  "connect_trace1 = [EvSend \<lparr>con_dst_addr = show_addr raw_lib (Multiaddr [7, 1]),
     con_dst_peer_id = show_peer raw_lib (PeerId [7]),
     con_dialer_addr = show_addr raw_lib (Multiaddr [3])\<rparr> (Inr ()),
     EvNext (Inr (Some (Some PbConnectSuccess))), EvParts ([], [42])]"

definition connect_trace2 :: "(pb_connect_request, pb_connect_response, bytes) ev list" where
  "connect_trace2 = [EvNext (Inr (Some \<lparr>con_dst_addr = show_addr raw_lib (Multiaddr [7, 1]),
     con_dst_peer_id = show_peer raw_lib (PeerId [7]),
     con_dialer_addr = show_addr raw_lib (Multiaddr [3])\<rparr>)),
     EvSend (Some PbConnectSuccess) (Inr ()), EvFlush (Inr ()), EvParts ([], [43])]"

lemma connect_trace1_completes:
  "completes (relay_upgrade_outbound raw_lib
       (relay_outbound_new (Multiaddr [3]) (PeerId [7]) (Multiaddr [7, 1]))) connect_trace1
     (Inr (Inr (new_connection (Multiaddr [7, 1]) [] [42])))"
  by (simp add: relay_upgrade_outbound_def relay_outbound_new_def connect_trace1_def)

lemma connect_trace2_completes:
  "completes (endpoint_upgrade_inbound raw_lib
       (endpoint_inbound_new (PeerId [7]) (Some (PeerId [9])))) connect_trace2
     (Inr (Inr \<lparr>io_listen_peer_id = PeerId [7], io_listen_addr = Multiaddr [7, 1],
       io_relay_peer_id = PeerId [9], io_connection = new_connection (Multiaddr [3]) [] [43]\<rparr>))"
  by (simp add: endpoint_upgrade_inbound_def try_upg_def parse_addr_def parse_peer_id_def
      endpoint_inbound_new_def connect_trace2_def
      lib_roundtrip_peer [OF raw_lib_roundtrip] lib_roundtrip_addr [OF raw_lib_roundtrip])

lemma connect_traces_deliver:
  "delivers connect_trace1 connect_trace2" "delivers connect_trace2 connect_trace1"
  by (simp_all add: delivers_def connect_trace1_def connect_trace2_def)

theorem connect_handshake_agrees_witness:
  "completes (relay_upgrade_outbound raw_lib
       (relay_outbound_new (Multiaddr [3]) (PeerId [7]) (Multiaddr [7, 1]))) connect_trace1
     (Inr (Inr (new_connection (Multiaddr [7, 1]) [] [42]))) \<and>
   ei_local_peer_id (endpoint_inbound_new (PeerId [7]) (Some (PeerId [9]))) =
     ro_dst_peer_id (relay_outbound_new (Multiaddr [3]) (PeerId [7]) (Multiaddr [7, 1])) \<and>
   attempted connect_trace2 = [Some PbConnectSuccess]"
  using connect_handshake_agrees [OF raw_lib_roundtrip connect_trace1_completes
      connect_trace2_completes connect_traces_deliver] connect_trace1_completes by blast

section \<open>From end to end\<close>

text \<open>
  What links the parts of the system around one dial, each of which is a promise of the runtime:
  a request that the relay's upgrade submitted is the only one in the behaviour's run with its
  \<open>oneshot\<close> sender; what the upgrade's receiver got, the behaviour answered; and a connection that a
  handler reports for a peer was made by a connect to that peer, with the endpoint \<open>far_end\<close> of the
  connection at the other end of the substream.
\<close>

definition submitted_once ::
  "(pb_dial_request, pb_dial_response, 'ss) ev list \<Rightarrow> 'ss relay_input list \<Rightarrow> bool" where
  "submitted_once tr is \<longleftrightarrow> (\<forall>mtx q. EvSubmit mtx q (Inr ()) \<in> set tr \<longrightarrow>
     (\<forall>q'\<in>requested is. cr_connection_sender q' = cr_connection_sender q \<longrightarrow> q' = q))"

definition answered_by ::
  "(pb_dial_request, pb_dial_response, 'ss) ev list \<Rightarrow> ('ss, relay_action) emission list \<Rightarrow> bool" where
  "answered_by tr os \<longleftrightarrow> (\<forall>tx c. EvConn tx (Inr (Inr c)) \<in> set tr \<longrightarrow>
     Effect (Answer tx (Inr c)) \<in> set os)"

definition connected_through ::
  "lib \<Rightarrow> ('ss connection \<Rightarrow> endpoint_inbound_upgrade) \<Rightarrow> 'ss relay_input list \<Rightarrow> bool" where
  "connected_through L far_end is \<longleftrightarrow>
     (\<forall>pid cid c a p. RbHandler pid cid (RoConnectSuccess c a p) \<in> set is \<longrightarrow>
        (\<exists>u tr1 (tr2 :: (pb_connect_request, pb_connect_response, 'ss) ev list) r.
           ro_dst_peer_id u = p \<and> completes (relay_upgrade_outbound L u) tr1 (Inr (Inr c)) \<and>
           completes (endpoint_upgrade_inbound L (far_end c)) tr2 r \<and>
           delivers tr1 tr2 \<and> delivers tr2 tr1))"

text \<open>
  End to end, a dial that succeeds has reached the endpoint it asked for: the connection that
  the relay joins to the dialer's is one whose far end is the very peer the dialer named, and that
  peer had announced itself to the relay as listening. The relay never joins a dialer to another
  peer.
\<close>

theorem dial_reaches_named_peer:
  fixes tr2 :: "(pb_dial_request, pb_dial_response, 'ss) ev list"
  assumes "lib_roundtrip L"
    and "completes (endpoint_dial_upgrade L p a) tr1 (Inr (Inr c))"
    and "completes (relay_dial_upgrade L h) tr2 r"
    and "delivers tr1 tr2" and "delivers tr2 tr1"
    and "run (relay_step L) is (relay_behaviour_new mtx) = Inr (s', os)"
    and "submitted_once tr2 is" and "answered_by tr2 os" and "connected_through L far_end is"
  shows "\<exists>tx c'. EvConn tx (Inr (Inr c')) \<in> set tr2 \<and> ei_local_peer_id (far_end c') = p \<and>
     p \<in> announced is"
proof -
  from dial_handshake [OF assms(1-5)] obtain tx c' ra where
    sub: "EvSubmit (ri_connect_request_sender h) \<lparr>cr_dst_peer_id = p, cr_dst_addr = a,
      cr_dialer_addr = ra, cr_connection_sender = tx\<rparr> (Inr ()) \<in> set tr2"
    and conn: "EvConn tx (Inr (Inr c')) \<in> set tr2"
    by blast
  from conn assms(8) have "Effect (Answer tx (Inr c')) \<in> set os"
    by (simp add: answered_by_def)
  from relay_answers_requested [OF assms(6) this] obtain pre pid cid a' q post where
    split: "is = pre @ RbHandler pid cid (RoConnectSuccess c' a' (cr_dst_peer_id q)) # post"
    and q: "q \<in> requested pre" "cr_connection_sender q = tx" "cr_dst_peer_id q \<in> announced pre"
    by blast
  have "q \<in> requested is" and ann: "cr_dst_peer_id q \<in> announced is"
    using q split by (auto simp: requested_def announced_def)
  have "q' = \<lparr>cr_dst_peer_id = p, cr_dst_addr = a, cr_dialer_addr = ra, cr_connection_sender = tx\<rparr>"
    if "q' \<in> requested is" "cr_connection_sender q' = tx" for q'
    using assms(7) sub that unfolding submitted_once_def
    by (metis connect_request.select_convs(4))
  from this [OF \<open>q \<in> requested is\<close> q(2)] have p: "cr_dst_peer_id q = p"
    by simp
  from split have "RbHandler pid cid (RoConnectSuccess c' a' p) \<in> set is"
    by (simp add: p)
  with assms(9) obtain u t1 r2 and t2 :: "(pb_connect_request, pb_connect_response, 'ss) ev list"
    where "ro_dst_peer_id u = p"
    "completes (relay_upgrade_outbound L u) t1 (Inr (Inr c'))"
    "completes (endpoint_upgrade_inbound L (far_end c')) t2 r2" "delivers t1 t2" "delivers t2 t1"
    unfolding connected_through_def by blast
  with connect_handshake [OF assms(1)] have "ei_local_peer_id (far_end c') = p"
    by metis
  with conn ann p show ?thesis by auto
qed

theorem dial_reaches_named_peer_witness:
  "\<exists>tx c'. EvConn tx (Inr (Inr c')) \<in> set dial_trace2 \<and>
     ei_local_peer_id ((\<lambda>c. endpoint_inbound_new (PeerId [7]) (Some (PeerId [9]))) c') = PeerId [7] \<and>
     PeerId [7] \<in> announced
       [RbHandler (PeerId [7]) (ConnectionId 0) (RoListenSuccess (PeerId [7]) (Multiaddr [7, 1])),
        RbPoll Pending (Ready (Some \<lparr>cr_dst_peer_id = PeerId [7], cr_dst_addr = Multiaddr [7, 1],
          cr_dialer_addr = Multiaddr [3], cr_connection_sender = Oneshot 2\<rparr>)),
        RbHandler (PeerId [7]) (ConnectionId 0)
          (RoConnectSuccess (new_connection (Multiaddr [7, 1]) [] [42 :: 8 word]) (Multiaddr [7, 1]) (PeerId [7]))]"
proof -
  let ?q = "\<lparr>cr_dst_peer_id = PeerId [7], cr_dst_addr = Multiaddr [7, 1],
    cr_dialer_addr = Multiaddr [3], cr_connection_sender = Oneshot 2\<rparr>"
  let ?c = "new_connection (Multiaddr [7, 1]) [] [42 :: 8 word]"
  let ?is = "[RbHandler (PeerId [7]) (ConnectionId 0) (RoListenSuccess (PeerId [7]) (Multiaddr [7, 1])),
    RbPoll Pending (Ready (Some ?q)),
    RbHandler (PeerId [7]) (ConnectionId 0) (RoConnectSuccess ?c (Multiaddr [7, 1]) (PeerId [7]))]"
  let ?far = "\<lambda>c :: bytes connection. endpoint_inbound_new (PeerId [7]) (Some (PeerId [9]))"
  obtain s' os where r: "run (relay_step raw_lib) ?is (relay_behaviour_new (MpscTx 0)) = Inr (s', os)"
    and os: "Effect (Answer (Oneshot 2) (Inr ?c)) \<in> set os"
    by (simp add: relay_poll_def relay_behaviour_new_def Let_def)
  have "submitted_once dial_trace2 ?is"
    by (auto simp: submitted_once_def dial_trace2_def requested_def)
  moreover have "answered_by dial_trace2 os"
    using os by (auto simp: answered_by_def dial_trace2_def)
  moreover have "connected_through raw_lib ?far ?is"
    using connect_trace1_completes connect_trace2_completes connect_traces_deliver
    by (auto simp: connected_through_def relay_outbound_new_def
        intro!: exI [of _ "\<lparr>ro_dialer_addr = Multiaddr [3], ro_dst_peer_id = PeerId [7],
          ro_dst_addr = Multiaddr [7, 1]\<rparr>"] exI [of _ connect_trace1] exI [of _ connect_trace2])
  ultimately show ?thesis
    using dial_reaches_named_peer [OF raw_lib_roundtrip dial_trace1_completes dial_trace2_completes
      dial_traces_deliver r] by blast
qed

end
