(* ===== verification/Relay_Provenance.thy ===== *)
theory Relay_Provenance
  imports Relay_System Handshake
begin

text \<open>
  Where what the relay does comes from, in every run of the composed relay of \<open>Relay_System\<close>: an
  event that a handler reports to the behaviour is the result of an upgrade that ran to its end on a
  connection, and a dialer's \<open>oneshot\<close> is its own. From these, a dialer is joined only to the peer
  that its request named.
\<close>

section \<open>What handlers report\<close>

text \<open>The upgrades that finished so far and made a connection, announced a peer, joined two.\<close>

definition made :: "lib \<Rightarrow> 'ss relay_log list \<Rightarrow> peer_id \<Rightarrow> 'ss connection \<Rightarrow> bool" where
  "made L log p c \<longleftrightarrow> (\<exists>v tr. LogConnect p v tr (Inr c) \<in> set log \<and> ro_dst_peer_id v = p \<and>
     completes (relay_upgrade_outbound L v) tr (Inr (Inr c)))"

definition heard :: "lib \<Rightarrow> 'ss relay_log list \<Rightarrow> peer_id \<Rightarrow> multiaddr \<Rightarrow> bool" where
  "heard L log p a \<longleftrightarrow> (\<exists>q h tr req. LogListen q h tr (Inr (Inr req)) \<in> set log \<and>
     lr_listen_peer_id req = p \<and> lr_listen_addr req = a \<and>
     completes (relay_listen_upgrade L h) tr (Inr (Inr req)))"

definition joined :: "lib \<Rightarrow> 'ss relay_log list \<Rightarrow> 'ss connection \<Rightarrow> 'ss connection \<Rightarrow> bool" where
  "joined L log d c \<longleftrightarrow> (\<exists>q h tr. LogDial q h tr (Inr (Inl (d, c))) \<in> set log \<and>
     completes (relay_dial_upgrade L h) tr (Inr (Inr (d, c))))"

fun event_ok :: "lib \<Rightarrow> 'ss relay_log list \<Rightarrow> peer_id \<Rightarrow> 'ss relay_out_event \<Rightarrow> bool" where
  "event_ok L log p (RoConnectSuccess c a q) \<longleftrightarrow> q = p \<and> made L log p c"
| "event_ok L log p (RoConnectFailed err a q) \<longleftrightarrow> q = p"
| "event_ok L log p (RoListenSuccess q a) \<longleftrightarrow> heard L log q a"
| "event_ok L log p (RoDialSuccess d c) \<longleftrightarrow> joined L log d c"
| "event_ok L log p (RoListenOrDialFailed err) \<longleftrightarrow> True"

fun handler_event_ok :: "lib \<Rightarrow> 'ss relay_log list \<Rightarrow> peer_id \<Rightarrow> 'ss relay_handler_event \<Rightarrow> bool" where
  "handler_event_ok L log p (Custom e) \<longleftrightarrow> event_ok L log p e"
| "handler_event_ok L log p (OutboundSubstreamRequest v info) \<longleftrightarrow> True"

lemma event_ok_mono: "event_ok L log p e \<Longrightarrow> event_ok L (log @ os) p e"
  by (cases e) (auto simp: made_def heard_def joined_def)

lemma handler_event_ok_mono: "handler_event_ok L log p e \<Longrightarrow> handler_event_ok L (log @ os) p e"
  by (cases e) (auto simp: event_ok_mono)

definition relay_told :: "lib \<Rightarrow> 'ss relay_log list \<Rightarrow> 'ss relay_system \<Rightarrow> bool" where
  "relay_told L log s \<longleftrightarrow> relay_wired L s \<and>
     (\<forall>cid l. rs_links s cid = Some l \<longrightarrow>
        list_all (handler_event_ok L log (lk_peer l)) (rh_pending_events (lk_handler l))) \<and>
     (\<forall>p cid e. (p, cid, e) \<in> set (rs_events s) \<longrightarrow> event_ok L log p e) \<and>
     (\<forall>p cid e. LogIn (RbHandler p cid e) \<in> set log \<longrightarrow> event_ok L log p e)"

lemma relay_told_new: "relay_told L [] (relay_system_new tx)"
  using relay_wired_new by (simp add: relay_told_def relay_system_new_def)

text \<open>What a finished or abandoned upgrade puts into the queue of its handler.\<close>

lemma connection_event_queue:
  "rh_pending_events (fst (relay_on_connection_event ce h)) =
     rh_pending_events h @ relay_handler_owes (RhConnection ce)"
  using relay_handler_apply_owes(1) [of "RhConnection ce" h] by (metis prod.collapse relay_handler_apply.simps(2))

lemma list_all_mono_event:
  "list_all (handler_event_ok L log p) evs \<Longrightarrow> list_all (handler_event_ok L (log @ os) p) evs"
  by (auto simp: list_all_iff handler_event_ok_mono)

lemma tagged_result:
  "Inr r = map_sum id (map_sum id f) r' \<Longrightarrow>
     (\<exists>e. r = Inl e \<and> r' = Inr (Inl e)) \<or> (\<exists>x. r = Inr (f x) \<and> r' = Inr (Inr x))"
proof (cases r')
  case (Inr x)
  then show "Inr r = map_sum id (map_sum id f) r' \<Longrightarrow> ?thesis"
    by (cases x) auto
qed simp

text \<open>The shared part of every step that tells a handler something new.\<close>

lemma told_tell_handler:
  assumes "relay_told L log s" and "rs_links s cid = Some l"
    and "relay_wired L (tell_handler cid l ce (end_task k s))"
    and "list_all (handler_event_ok L (log @ os) (lk_peer l)) (relay_handler_owes (RhConnection ce))"
    and "\<And>p cid e. LogIn (RbHandler p cid e) \<notin> set os"
  shows "relay_told L (log @ os) (tell_handler cid l ce (end_task k s))"
  using assms
  by (auto simp: relay_told_def connection_event_queue list_all_mono_event event_ok_mono)

lemma told_behave:
  assumes "relay_told L log s" and "relay_wired L s'" and "behave L i s0 = Inr (s', os)"
    and "rs_links s0 = rs_links s" and "set (rs_events s0) \<subseteq> set (rs_events s)"
    and "\<And>p cid e. i = RbHandler p cid e \<Longrightarrow> event_ok L log p e"
  shows "relay_told L (log @ os) s'"
proof -
  from assms(3) obtain bs where "os = LogIn i # map LogOut bs"
    by (auto simp: behave_def split: sum.splits prod.splits)
  moreover have "event_ok L (log @ os) p e" if "(p, cid, e) \<in> set (rs_events s')" for p cid e
    using that assms(1,5) behave_frame(3) [OF assms(3)]
    by (auto simp: relay_told_def intro!: event_ok_mono)
  ultimately show ?thesis
    using assms(1,2,4,6) behave_frame(1) [OF assms(3)]
    by (auto simp: relay_told_def list_all_mono_event event_ok_mono)
qed

interpretation relay_reports: history_machine "relay_system_step L" "relay_told L"
  for L
proof unfold_locales
  fix log s i s' and os :: "'ss relay_log list"
  assume inv: "relay_told L log s" and st: "relay_system_step L i s = Inr (s', os)"
  have wired: "relay_wired L s"
    using inv by (simp add: relay_told_def)
  have wired': "relay_wired L s'"
    by (rule relay_wiring.inv_step [OF wired st])
  note task = relay_wired_task [OF wired]
  have queue: "list_all (handler_event_ok L log (lk_peer l)) (rh_pending_events (lk_handler l))"
    if "rs_links s cid = Some l" for cid l
    using inv that by (simp add: relay_told_def)
  from st show "relay_told L (log @ os) s'"
  proof (cases rule: relay_system_step_cases)
    case (dial_done k cid h tr r l msg)
    from task [OF dial_done(1)] obtain r' where c: "completes (relay_dial_upgrade L h) tr r'"
      and "Inr r = map_sum id (map_sum id Inl) r'"
      unfolding task_ok_dial_done by blast
    from tagged_result [OF this(2)] c have "list_all (handler_event_ok L (log @ os) (lk_peer l))
        (relay_handler_owes (RhConnection (inbound_event msg r)))"
      using dial_done(4) by (auto simp: joined_def; blast)
    with told_tell_handler [OF inv dial_done(2)] wired' dial_done show ?thesis by auto
  next
    case (listen_done k cid h tr r l msg)
    from task [OF listen_done(1)] obtain r' where c: "completes (relay_listen_upgrade L h) tr r'"
      and "Inr r = map_sum id (map_sum id Inr) r'"
      unfolding task_ok_listen_done by blast
    from tagged_result [OF this(2)] c have "list_all (handler_event_ok L (log @ os) (lk_peer l))
        (relay_handler_owes (RhConnection (inbound_event msg r)))"
      using listen_done(4) by (auto simp: heard_def; blast)
    with told_tell_handler [OF inv listen_done(2)] wired' listen_done show ?thesis by auto
  next
    case (connect_done k cid v info tr r l msg)
    from task [OF connect_done(1)] connect_done(2)
    have "ro_dst_peer_id v = lk_peer l" "oi_dst_peer_id info = lk_peer l"
      and "completes (relay_upgrade_outbound L v) tr (Inr r)"
      by (auto simp: peers_def)
    then have "list_all (handler_event_ok L (log @ os) (lk_peer l))
        (relay_handler_owes (RhConnection (outbound_event msg info r)))"
      using connect_done(4) by (cases r) (auto simp: made_def)
    with told_tell_handler [OF inv connect_done(2)] wired' connect_done show ?thesis by auto
  next
    case (inbound_given_up k cid l err)
    with told_tell_handler [OF inv inbound_given_up(1), of "ListenUpgradeError err" k "[]"] wired'
    show ?thesis by simp
  next
    case (connect_given_up k cid v info tr u l err)
    from task [OF connect_given_up(1)] connect_given_up(2) have "oi_dst_peer_id info = lk_peer l"
      by (auto simp: peers_def)
    with told_tell_handler [OF inv connect_given_up(2), of "DialUpgradeError info err" k "[]"] wired'
      connect_given_up show ?thesis by simp
  next
    case (custom cid l e evs)
    with queue [OF custom(1)] inv wired' show ?thesis
      by (auto simp: relay_told_def)
  next
    case (request cid k l v info evs)
    with queue [OF request(1)] inv wired' show ?thesis
      by (auto simp: relay_told_def)
  next
    case (notify cid l e ns)
    with queue [OF notify(2)] inv wired' show ?thesis
      by (cases e) (auto simp: relay_told_def rh_push_def)
  next
    case (deliver p cid e evs)
    with inv have "event_ok L log p e"
      by (auto simp: relay_told_def)
    with told_behave [OF inv wired' deliver(2)] deliver(1) show ?thesis by auto
  next
    case (poll_empty copied)
    from told_behave [OF inv wired' poll_empty(2)] show ?thesis by simp
  next
    case (poll_some copied q qs)
    from told_behave [OF inv wired' poll_some(2)] show ?thesis by simp
  next
    case (opened cid p addr)
    with inv wired' show ?thesis
      by (auto simp: relay_told_def relay_into_handler_def list_all_mono_event event_ok_mono)
  next
    case (closed cid l)
    with inv wired' show ?thesis
      by (auto simp: relay_told_def list_all_mono_event event_ok_mono)
  next
    case (swarm e)
    with inv wired' show ?thesis
      by (auto simp: relay_told_def list_all_mono_event event_ok_mono)
  qed (use inv wired' in \<open>auto simp: relay_told_def\<close>)
qed

section \<open>Whose \<open>oneshot\<close> it is\<close>

text \<open>What an inbound dial does with its \<open>oneshot\<close>, at every await; the other upgrades have none.\<close>

lemma dial_oneshot:
  "runs (relay_dial_upgrade L h) tr p \<Longrightarrow> resumes p (EvOneshot t) p' \<Longrightarrow>
     allocated tr = [] \<and> submits tr = []"
  by (auto simp: relay_dial_upgrade_def dial_fail_def runs_simps)

lemma dial_submit:
  "runs (relay_dial_upgrade L h) tr p \<Longrightarrow> resumes p (EvSubmit tx q r) p' \<Longrightarrow>
     allocated tr = [cr_connection_sender q] \<and> submits tr = []"
  by (auto simp: relay_dial_upgrade_def dial_fail_def runs_simps)

lemma dial_submitted:
  "runs (relay_dial_upgrade L h) tr p \<Longrightarrow> q \<in> set (submits tr) \<Longrightarrow>
     submits tr = [q] \<and> allocated tr = [cr_connection_sender q]"
  by (auto simp: relay_dial_upgrade_def dial_fail_def runs_simps)

lemma listen_quiet:
  "runs (relay_listen_upgrade L h) tr p \<Longrightarrow> resumes p e p' \<Longrightarrow> communicate e s = s"
  by (auto simp: relay_listen_upgrade_def runs_simps)

lemma connect_quiet:
  "runs (relay_upgrade_outbound L v) tr p \<Longrightarrow> resumes p e p' \<Longrightarrow> communicate e s = s"
  by (auto simp: relay_upgrade_outbound_def runs_simps)

text \<open>The requests that the upgrades submitted so far, in their order: those that the behaviour took
  and those in the channel.\<close>

fun asked_by :: "'ss relay_input \<Rightarrow> connect_request list" where
  "asked_by (RbPoll copied (Ready (Some q))) = [q]"
| "asked_by i = []"

definition submitted :: "'ss relay_log list \<Rightarrow> 'ss relay_system \<Rightarrow> connect_request list" where
  "submitted log s = concat (map asked_by (ins log)) @ rs_requests s"

definition made_oneshots :: "'ss relay_system \<Rightarrow> oneshot set" where
  "made_oneshots s = Oneshot ` {..<rs_oneshots s}"

text \<open>The awaits of a dial: it submitted what was submitted, and was given what was answered.\<close>

definition dial_trace_ok :: "'ss relay_log list \<Rightarrow> 'ss relay_system \<Rightarrow> 'ss dial_trace \<Rightarrow> bool" where
  "dial_trace_ok log s tr \<longleftrightarrow> set (submits tr) \<subseteq> set (submitted log s) \<and>
     (\<forall>t r. EvConn t (Inr r) \<in> set tr \<longrightarrow> LogOut (Effect (Answer t r)) \<in> set log)"

definition dial_task_ok :: "'ss relay_log list \<Rightarrow> 'ss relay_system \<Rightarrow> 'ss dial_trace \<Rightarrow> bool" where
  "dial_task_ok log s tr \<longleftrightarrow> set (allocated tr) \<subseteq> made_oneshots s \<and> dial_trace_ok log s tr \<and>
     (submits tr = [] \<longrightarrow>
        set (allocated tr) \<inter> cr_connection_sender ` set (submitted log s) = {})"

definition relay_accounts :: "lib \<Rightarrow> mpsc_tx \<Rightarrow> 'ss relay_log list \<Rightarrow> 'ss relay_system \<Rightarrow> bool" where
  "relay_accounts L tx log s \<longleftrightarrow> relay_wired L s \<and> relay_projects L tx log s \<and>
     distinct (map cr_connection_sender (submitted log s)) \<and>
     cr_connection_sender ` set (submitted log s) \<subseteq> made_oneshots s \<and>
     (\<forall>k cid h tr u. rs_tasks s k = Some (DialTask cid h tr u) \<longrightarrow> dial_task_ok log s tr) \<and>
     (\<forall>k k' cid h tr u cid' h' tr' u'. k \<noteq> k' \<longrightarrow> rs_tasks s k = Some (DialTask cid h tr u) \<longrightarrow>
        rs_tasks s k' = Some (DialTask cid' h' tr' u') \<longrightarrow>
        set (allocated tr) \<inter> set (allocated tr') = {}) \<and>
     (\<forall>q h tr r. LogDial q h tr r \<in> set log \<longrightarrow> dial_trace_ok log s tr)"

lemma relay_accountsI:
  assumes "relay_wired L s" and "relay_projects L tx log s"
    and "distinct (map cr_connection_sender (submitted log s))"
    and "cr_connection_sender ` set (submitted log s) \<subseteq> made_oneshots s"
    and "\<And>k cid h tr u. rs_tasks s k = Some (DialTask cid h tr u) \<Longrightarrow> dial_task_ok log s tr"
    and "\<And>k k' cid h tr u cid' h' tr' u'. k \<noteq> k' \<Longrightarrow> rs_tasks s k = Some (DialTask cid h tr u) \<Longrightarrow>
        rs_tasks s k' = Some (DialTask cid' h' tr' u') \<Longrightarrow> set (allocated tr) \<inter> set (allocated tr') = {}"
    and "\<And>q h tr r. LogDial q h tr r \<in> set log \<Longrightarrow> dial_trace_ok log s tr"
  shows "relay_accounts L tx log s"
  unfolding relay_accounts_def using assms by blast

lemma relay_accountsD:
  assumes "relay_accounts L tx log s"
  shows "relay_wired L s" and "relay_projects L tx log s"
    and "distinct (map cr_connection_sender (submitted log s))"
    and "cr_connection_sender ` set (submitted log s) \<subseteq> made_oneshots s"
    and "rs_tasks s k = Some (DialTask cid h tr u) \<Longrightarrow> dial_task_ok log s tr"
    and "k \<noteq> k' \<Longrightarrow> rs_tasks s k = Some (DialTask cid h tr u) \<Longrightarrow>
        rs_tasks s k' = Some (DialTask cid' h' tr' u') \<Longrightarrow> set (allocated tr) \<inter> set (allocated tr') = {}"
    and "LogDial q h tr r \<in> set log \<Longrightarrow> dial_trace_ok log s tr"
proof -
  note A = assms [unfolded relay_accounts_def]
  show "relay_wired L s"
    using A by (elim conjE)
  show "relay_projects L tx log s"
    using A by (elim conjE)
  show "distinct (map cr_connection_sender (submitted log s))"
    using A by (elim conjE)
  show "cr_connection_sender ` set (submitted log s) \<subseteq> made_oneshots s"
    using A by (elim conjE)
  show "rs_tasks s k = Some (DialTask cid h tr u) \<Longrightarrow> dial_task_ok log s tr"
    using A by blast
  show "k \<noteq> k' \<Longrightarrow> rs_tasks s k = Some (DialTask cid h tr u) \<Longrightarrow>
      rs_tasks s k' = Some (DialTask cid' h' tr' u') \<Longrightarrow> set (allocated tr) \<inter> set (allocated tr') = {}"
    using A by blast
  show "LogDial q h tr r \<in> set log \<Longrightarrow> dial_trace_ok log s tr"
    using A by blast
qed

lemma relay_accounts_new: "relay_accounts L tx [] (relay_system_new tx)"
  by (rule relay_accountsI [OF relay_wired_new relay_projects_new])
     (simp_all add: relay_system_new_def submitted_def)

lemma dial_trace_ok_mono:
  "dial_trace_ok log s tr \<Longrightarrow> set (submitted log s) \<subseteq> set (submitted (log @ os) s') \<Longrightarrow>
     dial_trace_ok (log @ os) s' tr"
  by (auto simp: dial_trace_ok_def)

lemma dial_task_ok_Nil: "dial_task_ok log s []"
  by (simp add: dial_task_ok_def dial_trace_ok_def)

text \<open>A step that submits nothing, makes no \<open>oneshot\<close> and resumes no dial.\<close>

lemma accounts_frame:
  assumes inv: "relay_accounts L tx log s" and "relay_wired L s'"
    and "relay_projects L tx (log @ os) s'"
    and same: "submitted (log @ os) s' = submitted log s" and "rs_oneshots s' = rs_oneshots s"
    and tasks: "\<And>k cid h tr u. rs_tasks s' k = Some (DialTask cid h tr u) \<Longrightarrow>
      rs_tasks s k = Some (DialTask cid h tr u) \<or> tr = []"
    and finished: "\<And>q h tr r. LogDial q h tr r \<in> set os \<Longrightarrow>
      \<exists>k cid u. rs_tasks s k = Some (DialTask cid h tr u)"
  shows "relay_accounts L tx (log @ os) s'"
proof -
  note D = relay_accountsD [OF inv]
  have ones: "made_oneshots s' = made_oneshots s"
    by (simp add: made_oneshots_def assms(5))
  have trace: "dial_trace_ok (log @ os) s' tr" if "dial_trace_ok log s tr" for tr
    by (rule dial_trace_ok_mono [OF that]) (simp add: same)
  have task: "dial_task_ok (log @ os) s' tr" if "dial_task_ok log s tr" for tr
    using that trace by (simp add: dial_task_ok_def same ones)
  show ?thesis
  proof (rule relay_accountsI [OF assms(2,3)])
    show "distinct (map cr_connection_sender (submitted (log @ os) s'))"
      and "cr_connection_sender ` set (submitted (log @ os) s') \<subseteq> made_oneshots s'"
      unfolding same ones by (rule D(3), rule D(4))
    show "dial_task_ok (log @ os) s' tr" if "rs_tasks s' k = Some (DialTask cid h tr u)" for k cid h tr u
      using tasks [OF that] task D(5) dial_task_ok_Nil by metis
    show "set (allocated tr) \<inter> set (allocated tr') = {}"
      if "k \<noteq> k'" "rs_tasks s' k = Some (DialTask cid h tr u)"
        "rs_tasks s' k' = Some (DialTask cid' h' tr' u')" for k k' cid h tr u cid' h' tr' u'
    proof (cases "tr = [] \<or> tr' = []")
      case False
      with tasks [OF that(2)] tasks [OF that(3)] show ?thesis
        by (intro D(6) [OF that(1)]) auto
    qed auto
    show "dial_trace_ok (log @ os) s' tr" if l: "LogDial q h tr r \<in> set (log @ os)" for q h tr r
    proof (cases "LogDial q h tr r \<in> set log")
      case True
      then show ?thesis by (rule trace [OF D(7)])
    next
      case False
      with l finished [of q h tr r] D(5) have "dial_task_ok log s tr"
        by auto
      then show ?thesis
        by (auto simp: dial_task_ok_def intro: trace)
    qed
  qed
qed

text \<open>A step that resumes one dial.\<close>

lemma accounts_dial_step:
  assumes inv: "relay_accounts L tx log s" and t: "rs_tasks s k = Some (DialTask cid h tr u)"
    and tasks: "rs_tasks s' = (rs_tasks s)(k \<mapsto> DialTask cid h tr2 u')"
    and "relay_wired L s'" and "relay_projects L tx log s'"
    and "distinct (map cr_connection_sender (submitted log s'))"
    and "cr_connection_sender ` set (submitted log s') \<subseteq> made_oneshots s'"
    and mine: "dial_task_ok log s' tr2"
    and others: "\<And>k' cid' h' tr' w. k' \<noteq> k \<Longrightarrow> rs_tasks s k' = Some (DialTask cid' h' tr' w) \<Longrightarrow>
      dial_task_ok log s' tr' \<and> set (allocated tr2) \<inter> set (allocated tr') = {}"
    and trace: "\<And>tr'. dial_trace_ok log s tr' \<Longrightarrow> dial_trace_ok log s' tr'"
  shows "relay_accounts L tx log s'"
proof (rule relay_accountsI [OF assms(4-7)])
  note D = relay_accountsD [OF inv]
  show "dial_task_ok log s' tr'" if "rs_tasks s' k' = Some (DialTask cid' h' tr' w)" for k' cid' h' tr' w
    using that tasks mine others [of k'] by (cases "k' = k") auto
  show "set (allocated tr3) \<inter> set (allocated tr4) = {}"
    if "k3 \<noteq> k4" "rs_tasks s' k3 = Some (DialTask cid3 h3 tr3 u3)"
      "rs_tasks s' k4 = Some (DialTask cid4 h4 tr4 u4)" for k3 k4 cid3 h3 tr3 u3 cid4 h4 tr4 u4
  proof -
    consider "k3 = k" "k4 \<noteq> k" | "k4 = k" "k3 \<noteq> k" | "k3 \<noteq> k" "k4 \<noteq> k"
      using \<open>k3 \<noteq> k4\<close> by blast
    then show ?thesis
    proof cases
      case 1
      with that(2,3) tasks others [of k4] show ?thesis by auto
    next
      case 2
      with that(2,3) tasks others [of k3] show ?thesis by auto
    next
      case 3
      with that(2,3) tasks have "rs_tasks s k3 = Some (DialTask cid3 h3 tr3 u3)"
        "rs_tasks s k4 = Some (DialTask cid4 h4 tr4 u4)"
        by simp_all
      then show ?thesis
        by (rule D(6) [OF that(1)])
    qed
  qed
  show "dial_trace_ok log s' tr'" if "LogDial q h' tr' r \<in> set log" for q h' tr' r
    by (rule trace [OF D(7) [OF that]])
qed

text \<open>The three ways in which the await of a dial changes the accounts.\<close>

lemma accounts_dial_await:
  assumes inv: "relay_accounts L tx log s" and t: "rs_tasks s k = Some (DialTask cid h tr u)"
    and res: "resumes u e u'" and ans: "answerable s e"
    and s': "s' = communicate e (set_task k (DialTask cid h (tr @ [e]) u') s)"
    and wired: "relay_wired L s'" and proj: "relay_projects L tx log s'"
  shows "relay_accounts L tx log s'"
proof -
  note D = relay_accountsD [OF inv]
  from relay_wired_task [OF D(1) t] obtain p where p: "runs (relay_dial_upgrade L h) tr p"
    and "u = bind_upg p (\<lambda>r. Done (map_sum id (map_sum id Inl) r))"
    by auto
  with res obtain p' where p': "resumes p e p'"
    by (auto simp: resumes_bind_Done)
  have mine: "dial_task_ok log s tr"
    by (rule D(5) [OF t])
  have tasks: "rs_tasks s' = (rs_tasks s)(k \<mapsto> DialTask cid h (tr @ [e]) u')"
    by (simp add: s')
  consider (make) o1 where "e = EvOneshot o1" | (submit) mtx q where "e = EvSubmit mtx q (Inr ())"
    | (other) "submitted log s' = submitted log s" "made_oneshots s' = made_oneshots s"
        "allocated (tr @ [e]) = allocated tr" "submits (tr @ [e]) = submits tr"
    using ans by (cases e) (auto simp: s' submitted_def made_oneshots_def)
  then show ?thesis
  proof cases
    case make
    with ans have o1: "o1 = Oneshot (rs_oneshots s)" by simp
    with s' make have sub: "submitted log s' = submitted log s"
      and ones: "made_oneshots s' = insert o1 (made_oneshots s)"
      by (auto simp: submitted_def made_oneshots_def lessThan_Suc)
    have new: "o1 \<notin> made_oneshots s"
      by (auto simp: made_oneshots_def o1)
    from dial_oneshot [OF p] p' make have tr: "allocated tr = []" "submits tr = []" by auto
    show ?thesis
    proof (rule accounts_dial_step [OF inv t tasks wired proj])
      show "dial_task_ok log s' (tr @ [e])"
        using mine new tr D(4) by (auto simp: dial_task_ok_def dial_trace_ok_def sub ones make)
      show "dial_task_ok log s' tr' \<and> set (allocated (tr @ [e])) \<inter> set (allocated tr') = {}"
        if "rs_tasks s k' = Some (DialTask cid' h' tr' w)" for k' cid' h' tr' w
        using D(5) [OF that] new tr by (auto simp: dial_task_ok_def dial_trace_ok_def sub ones make)
    qed (use D(3,4) in \<open>auto simp: sub ones dial_trace_ok_def\<close>)
  next
    case submit
    with s' have sub: "submitted log s' = submitted log s @ [q]"
      and ones: "made_oneshots s' = made_oneshots s"
      by (auto simp: submitted_def made_oneshots_def)
    from dial_submit [OF p] p' submit have tr: "allocated tr = [cr_connection_sender q]" "submits tr = []"
      by auto
    with mine have new: "cr_connection_sender q \<notin> cr_connection_sender ` set (submitted log s)"
      and old: "cr_connection_sender q \<in> made_oneshots s"
      by (auto simp: dial_task_ok_def)
    show ?thesis
    proof (rule accounts_dial_step [OF inv t tasks wired proj])
      show "dial_task_ok log s' (tr @ [e])"
        using mine tr old by (auto simp: dial_task_ok_def dial_trace_ok_def sub ones submit)
      show "dial_task_ok log s' tr' \<and> set (allocated (tr @ [e])) \<inter> set (allocated tr') = {}"
        if "k' \<noteq> k" "rs_tasks s k' = Some (DialTask cid' h' tr' w)" for k' cid' h' tr' w
        using D(5) [OF that(2)] D(6) [OF that(1) that(2) t] tr
        by (auto simp: dial_task_ok_def dial_trace_ok_def sub ones submit)
    qed (use D(3,4) new old in \<open>auto simp: sub ones dial_trace_ok_def\<close>)
  next
    case other
    have "LogOut (Effect (Answer o1 r)) \<in> set log" if "e = EvConn o1 (Inr r)" for o1 r
      using that ans D(2) by (auto simp: relay_projects_def)
    with mine have ok: "dial_task_ok log s' (tr @ [e])"
      unfolding dial_task_ok_def dial_trace_ok_def other by auto
    show ?thesis
    proof (rule accounts_dial_step [OF inv t tasks wired proj _ _ ok])
      show "dial_task_ok log s' tr' \<and> set (allocated (tr @ [e])) \<inter> set (allocated tr') = {}"
        if "k' \<noteq> k" "rs_tasks s k' = Some (DialTask cid' h' tr' w)" for k' cid' h' tr' w
        using D(5) [OF that(2)] D(6) [OF that(1) that(2) t] unfolding other(3)
        by (auto simp: dial_task_ok_def dial_trace_ok_def other(1,2))
    qed (use D(3,4) in \<open>simp_all add: other dial_trace_ok_def\<close>)
  qed
qed

lemma accounts_behave:
  assumes inv: "relay_accounts L tx log s" and "behave L i s0 = Inr (s', os)"
    and "rs_tasks s0 = rs_tasks s" and "rs_oneshots s0 = rs_oneshots s"
    and "rs_requests s = asked_by i @ rs_requests s0"
    and wired: "relay_wired L s'" and proj: "relay_projects L tx (log @ os) s'"
  shows "relay_accounts L tx (log @ os) s'"
proof -
  note frame = behave_frame [OF assms(2)]
  from assms(2) obtain bs where os: "os = LogIn i # map LogOut bs"
    by (auto simp: behave_def split: sum.splits prod.splits)
  have "submitted (log @ os) s' = submitted log s"
    using assms(5) by (simp add: submitted_def os frame)
  with frame assms(3,4) show ?thesis
    by (intro accounts_frame [OF inv wired proj]) (auto simp: os)
qed

interpretation relay_accounting: history_machine "relay_system_step L" "relay_accounts L tx"
  for L tx
proof unfold_locales
  fix log s i s' and os :: "'ss relay_log list"
  assume inv: "relay_accounts L tx log s" and st: "relay_system_step L i s = Inr (s', os)"
  note D = relay_accountsD [OF inv]
  have wired: "relay_wired L s'"
    by (rule relay_wiring.inv_step [OF D(1) st])
  have proj: "relay_projects L tx (log @ os) s'"
    by (rule relay_projection.inv_step [OF D(2) st])
  note frame = accounts_frame [OF inv wired proj]
  from st show "relay_accounts L tx (log @ os) s'"
  proof (cases rule: relay_system_step_cases)
    case (dial_await k e cid h tr u u')
    from accounts_dial_await [OF inv dial_await(1-4) wired] proj dial_await(5) show ?thesis by simp
  next
    case (listen_await k e cid h tr u u')
    from relay_wired_task [OF D(1) listen_await(1)] obtain p where
      "runs (relay_listen_upgrade L h) tr p" and "u = bind_upg p (\<lambda>r. Done (map_sum id (map_sum id Inr) r))"
      by auto
    with listen_await(2) listen_quiet have "s' = set_task k (ListenTask cid h (tr @ [e]) u') s"
      unfolding listen_await(4) by (auto simp: resumes_bind_Done)
    then show ?thesis
      by (intro frame) (auto simp: submitted_def listen_await(5) split: if_splits)
  next
    case (connect_await k e cid v info tr u u')
    from relay_wired_task [OF D(1) connect_await(1)] connect_quiet [OF _ connect_await(2)]
    have "s' = set_task k (ConnectTask cid v info (tr @ [e]) u') s"
      unfolding connect_await(4) by auto
    then show ?thesis
      by (intro frame) (auto simp: submitted_def connect_await(5) split: if_splits)
  next
    case (deliver p cid e evs)
    from accounts_behave [OF inv deliver(2) _ _ _ wired proj] show ?thesis by simp
  next
    case (poll_empty copied)
    from accounts_behave [OF inv poll_empty(2) _ _ _ wired proj] show ?thesis by simp
  next
    case (poll_some copied q qs)
    from accounts_behave [OF inv poll_some(2) _ _ _ wired proj] poll_some(1) show ?thesis by simp
  next
    case (closed cid l)
    then show ?thesis
      by (intro frame) (auto simp: submitted_def tasks_without_def split: option.splits if_splits)
  qed (use inv in \<open>intro frame; auto simp: submitted_def split: if_splits\<close>)+
qed

section \<open>A dialer and the peer it named\<close>

text \<open>Every upgrade in the log is a complete run of what it was started with.\<close>

fun log_ok :: "lib \<Rightarrow> 'ss relay_log \<Rightarrow> bool" where
  "log_ok L (LogDial q h tr r) \<longleftrightarrow>
     (\<exists>r'. completes (relay_dial_upgrade L h) tr r' \<and> Inr r = map_sum id (map_sum id Inl) r')"
| "log_ok L (LogListen q h tr r) \<longleftrightarrow>
     (\<exists>r'. completes (relay_listen_upgrade L h) tr r' \<and> Inr r = map_sum id (map_sum id Inr) r')"
| "log_ok L (LogConnect q v tr r) \<longleftrightarrow> completes (relay_upgrade_outbound L v) tr (Inr r)"
| "log_ok L (LogIn i) \<longleftrightarrow> True"
| "log_ok L (LogOut ob) \<longleftrightarrow> True"

lemma behave_log_ok: "behave L i s = Inr (s', os) \<Longrightarrow> list_all (log_ok L) os"
  by (auto simp: behave_def list_all_iff split: sum.splits prod.splits)

definition relay_logged :: "lib \<Rightarrow> 'ss relay_log list \<Rightarrow> 'ss relay_system \<Rightarrow> bool" where
  "relay_logged L log s \<longleftrightarrow> relay_wired L s \<and> list_all (log_ok L) log"

interpretation relay_logs: history_machine "relay_system_step L" "relay_logged L"
  for L
proof unfold_locales
  fix log s i s' and os :: "'ss relay_log list"
  assume inv: "relay_logged L log s" and st: "relay_system_step L i s = Inr (s', os)"
  then have wired: "relay_wired L s"
    by (simp add: relay_logged_def)
  note task = relay_wired_task [OF wired]
  from st have "list_all (log_ok L) os"
  proof (cases rule: relay_system_step_cases)
    case (dial_done k cid h tr r l msg)
    from task [OF dial_done(1)] dial_done(4) show ?thesis
      unfolding task_ok_dial_done by simp
  next
    case (listen_done k cid h tr r l msg)
    from task [OF listen_done(1)] listen_done(4) show ?thesis
      unfolding task_ok_listen_done by simp
  next
    case (connect_done k cid v info tr r l msg)
    from task [OF connect_done(1)] connect_done(4) show ?thesis by simp
  qed (simp_all add: behave_log_ok)
  with inv relay_wiring.inv_step [OF wired st] show "relay_logged L (log @ os) s'"
    by (simp add: relay_logged_def)
qed

lemma relay_log_ok:
  "run (relay_system_step L) is (relay_system_new tx) = Inr (s, log) \<Longrightarrow> l \<in> set log \<Longrightarrow> log_ok L l"
  using relay_logs.history [of L "relay_system_new tx" "is" s log] relay_wired_new
  by (auto simp: relay_logged_def list_all_iff)

lemma relay_system_accounts:
  "run (relay_system_step L) is (relay_system_new tx) = Inr (s, log) \<Longrightarrow> relay_accounts L tx log s"
  by (rule relay_accounting.history [OF relay_accounts_new])

lemma relay_system_told:
  "run (relay_system_step L) is (relay_system_new tx) = Inr (s, log) \<Longrightarrow> relay_told L log s"
  by (rule relay_reports.history [OF relay_told_new])

lemma requested_asked: "requested is = set (concat (map asked_by is))"
proof (induction "is")
  case (Cons i "is")
  have "requested [i] = set (asked_by i)"
    by (induction i rule: asked_by.induct) (auto simp: requested_def)
  with Cons show ?case
    by (simp add: requested_Cons [of i "is"])
qed simp

text \<open>In the behaviour's inputs, what was announced was heard and what succeeded was made.\<close>

lemma told_connect:
  "relay_told L log s \<Longrightarrow> RbHandler pid cid (RoConnectSuccess c a p) \<in> set (ins log) \<Longrightarrow> made L log p c"
  by (fastforce simp: relay_told_def)

lemma told_announced: "relay_told L log s \<Longrightarrow> p \<in> announced (ins log) \<Longrightarrow> \<exists>a. heard L log p a"
  by (fastforce simp: relay_told_def announced_def)

lemma relay_request_unique:
  assumes "relay_accounts L tx log s" and "q \<in> set (submitted log s)" and "q' \<in> set (submitted log s)"
    and "cr_connection_sender q = cr_connection_sender q'"
  shows "q = q'"
  using relay_accountsD(3) [OF assms(1)] assms(2-4) by (auto simp: distinct_map inj_on_def)

text \<open>The connection that a dial was answered with was made by a connect to the peer that the dial
  had asked for.\<close>

lemma relay_dial_connected:
  assumes acc: "relay_accounts L tx log s" and told: "relay_told L log s"
    and l: "LogDial pid h tr r \<in> set log"
    and sub: "EvSubmit mtx q (Inr ()) \<in> set tr"
    and conn: "EvConn (cr_connection_sender q) (Inr (Inr c)) \<in> set tr"
  shows "made L log (cr_dst_peer_id q) c \<and> cr_dst_peer_id q \<in> rb_listening_clients (rs_behaviour s)"
proof -
  from relay_accountsD(7) [OF acc l] have ok: "dial_trace_ok log s tr" .
  with conn have "Effect (Answer (cr_connection_sender q) (Inr c)) \<in> set (outs log)"
    by (simp add: dial_trace_ok_def)
  moreover from relay_accountsD(2) [OF acc]
  have r: "run (relay_step L) (ins log) (relay_behaviour_new tx) = Inr (rs_behaviour s, outs log)"
    by (simp add: relay_projects_def)
  ultimately obtain pre pid' cid a q' post where
    split: "ins log = pre @ RbHandler pid' cid (RoConnectSuccess c a (cr_dst_peer_id q')) # post"
    and q': "q' \<in> requested pre" "cr_connection_sender q' = cr_connection_sender q"
      "cr_dst_peer_id q' \<in> announced pre"
    using relay_answers_requested by blast
  from q'(1) split have "q' \<in> set (submitted log s)"
    by (auto simp: requested_asked submitted_def)
  moreover from ok in_submits [OF sub] have "q \<in> set (submitted log s)"
    by (auto simp: dial_trace_ok_def)
  ultimately have "q' = q"
    using relay_request_unique [OF acc] q'(2) by blast
  moreover from split have "RbHandler pid' cid (RoConnectSuccess c a (cr_dst_peer_id q')) \<in> set (ins log)"
    by (simp del: in_ins)
  moreover from split q'(3) have "cr_dst_peer_id q' \<in> announced (ins log)"
    by (auto simp: announced_def simp del: in_ins)
  ultimately show ?thesis
    using told_connect [OF told] relay_run_listening [OF r] by blast
qed

text \<open>Where a running copy comes from.\<close>

lemma relay_step_copies:
  assumes "relay_step L i b = Inr (b', os)" and "CopyJob x y \<in> set (rb_io_copy_futures b')"
  shows "CopyJob x y \<in> set (rb_io_copy_futures b) \<or>
    (\<exists>pid cid d c. i = RbHandler pid cid (RoDialSuccess d c) \<and> (x = d \<and> y = c \<or> x = c \<and> y = d))"
proof (cases i)
  case (RbPoll copied recv)
  have "set (relay_reap copied (rb_io_copy_futures b)) \<subseteq> set (rb_io_copy_futures b)"
    by (induction copied "rb_io_copy_futures b" rule: relay_reap.induct)
       (auto dest: in_set_takeD in_set_dropD)
  moreover have "rb_io_copy_futures b' = relay_reap copied (rb_io_copy_futures b)"
    using RbPoll assms(1) relay_poll_cases [of recv]
    by (auto simp: relay_poll_def Let_def split: if_splits list.splits)
  ultimately show ?thesis
    using assms(2) by auto
next
  case (RbHandler pid cid e)
  with assms show ?thesis
    by (cases e) (auto split: option.splits)
qed (use assms in auto)

lemma relay_run_copies:
  "run (relay_step L) is b = Inr (b', os) \<Longrightarrow> CopyJob x y \<in> set (rb_io_copy_futures b') \<Longrightarrow>
     CopyJob x y \<in> set (rb_io_copy_futures b) \<or>
     (\<exists>pid cid d c. RbHandler pid cid (RoDialSuccess d c) \<in> set is \<and> (x = d \<and> y = c \<or> x = c \<and> y = d))"
proof (induction "is" arbitrary: b os)
  case (Cons i "is")
  from run_Cons_Inr [OF Cons.prems(1)] obtain b1 os1 os2 where
    st: "relay_step L i b = Inr (b1, os1)" and r: "run (relay_step L) is b1 = Inr (b', os2)"
    by blast
  from Cons.IH [OF r Cons.prems(2)] relay_step_copies [OF st, of x y] show ?case
    by (metis list.set_intros(1,2))
qed simp

end
