(* ===== verification/Relay_Joining.thy ===== *)
theory Relay_Joining
  imports Relay_Provenance
begin

text \<open>
  What the composed relay promises, in every run: whom it joins to whom, which dialers it owes an
  answer, and which peers it takes to be listening.
\<close>

section \<open>A run, for evaluation\<close>

text \<open>
  One peer connects and announces itself; another connects and dials it; the relay connects to the
  first, both upgrades end, and the two connections are joined.
\<close>

definition relay_example_request :: connect_request where
  "relay_example_request = \<lparr>cr_dst_peer_id = PeerId [7], cr_dst_addr = Multiaddr [7, 1],
     cr_dialer_addr = Multiaddr [3], cr_connection_sender = Oneshot 0\<rparr>"

definition relay_example_listen :: "bytes relay_system_input list" where
  "relay_example_listen =
     [RsOpen (ConnectionId 0) (PeerId [7]) (Multiaddr [70]),
      RsInbound (ConnectionId 0) 0 AUTO_RELAY_LISTEN_PROTOCOL,
      RsListenAwait 0 (EvNext (Inr (Some \<lparr>req_listen_peer_id = show_peer raw_lib (PeerId [7]),
        req_listen_addr = show_addr raw_lib (Multiaddr [7, 1])\<rparr>))),
      RsListenAwait 0 (EvSend (Some PbListenSuccess) (Inr ())),
      RsFinish 0 [], RsHandlerPoll (ConnectionId 0) 0, RsDeliver]"

definition relay_example_dial :: "bytes relay_system_input list" where
  "relay_example_dial =
     [RsOpen (ConnectionId 1) (PeerId [4]) (Multiaddr [3]),
      RsInbound (ConnectionId 1) 1 AUTO_RELAY_DIAL_PROTOCOL,
      RsDialAwait 1 (EvNext (Inr (Some \<lparr>dial_peer_id = show_peer raw_lib (PeerId [7]),
        dial_addr = show_addr raw_lib (Multiaddr [7, 1])\<rparr>))),
      RsDialAwait 1 (EvOneshot (Oneshot 0)),
      RsDialAwait 1 (EvSubmit (MpscTx 0) relay_example_request (Inr ()))]"

definition relay_example_connect :: "bytes relay_system_input list" where
  "relay_example_connect =
     [RsPoll Pending, RsNotify (ConnectionId 0), RsHandlerPoll (ConnectionId 0) 2,
      RsConnectAwait 2 (EvSend \<lparr>con_dst_addr = show_addr raw_lib (Multiaddr [7, 1]),
        con_dst_peer_id = show_peer raw_lib (PeerId [7]),
        con_dialer_addr = show_addr raw_lib (Multiaddr [3])\<rparr> (Inr ())),
      RsConnectAwait 2 (EvNext (Inr (Some (Some PbConnectSuccess)))),
      RsConnectAwait 2 (EvParts ([], [42])),
      RsFinish 2 [], RsHandlerPoll (ConnectionId 0) 2, RsDeliver]"

definition relay_example_join :: "bytes relay_system_input list" where
  "relay_example_join =
     [RsDialAwait 1 (EvConn (Oneshot 0) (Inr (Inr (new_connection (Multiaddr [7, 1]) [] [42])))),
      RsDialAwait 1 (EvSend (Some PbDialSuccess) (Inr ())),
      RsDialAwait 1 (EvParts ([], [43])),
      RsFinish 1 [], RsHandlerPoll (ConnectionId 1) 1, RsDeliver]"

definition relay_example :: "bytes relay_system_input list" where
  "relay_example =
     relay_example_listen @ relay_example_dial @ relay_example_connect @ relay_example_join"

definition relay_example_trace :: "bytes dial_trace" where
  "relay_example_trace =
     [EvNext (Inr (Some \<lparr>dial_peer_id = show_peer raw_lib (PeerId [7]),
        dial_addr = show_addr raw_lib (Multiaddr [7, 1])\<rparr>)),
      EvOneshot (Oneshot 0), EvSubmit (MpscTx 0) relay_example_request (Inr ()),
      EvConn (Oneshot 0) (Inr (Inr (new_connection (Multiaddr [7, 1]) [] [42]))),
      EvSend (Some PbDialSuccess) (Inr ()), EvParts ([], [43])]"

text \<open>What a run came to, as a predicate of its result, so that it can be evaluated.\<close>

definition ends_with ::
  "panic + 'ss relay_system \<times> 'ss relay_log list \<Rightarrow>
     ('ss relay_system \<Rightarrow> 'ss relay_log list \<Rightarrow> bool) \<Rightarrow> bool" where
  "ends_with r P = (case r of Inl p \<Rightarrow> False | Inr (s, log) \<Rightarrow> P s log)"

lemma ends_withE:
  assumes "ends_with r P"
  obtains s log where "r = Inr (s, log)" and "P s log"
  using assms by (auto simp: ends_with_def split: sum.splits prod.splits)

lemma relay_example_ends:
  "ends_with (run (relay_system_step raw_lib) relay_example (relay_system_new (MpscTx 0)))
     (\<lambda>s log. CopyJob (new_connection (Multiaddr [3]) [] [43]) (new_connection (Multiaddr [7, 1]) [] [42])
          \<in> set (rb_io_copy_futures (rs_behaviour s)) \<and>
        LogDial (PeerId [4]) (relay_inbound_new (Some (Multiaddr [3])) (MpscTx 0)) relay_example_trace
          (Inr (Inl (new_connection (Multiaddr [3]) [] [43], new_connection (Multiaddr [7, 1]) [] [42])))
          \<in> set log)"
  by code_simp

lemma relay_example_listens:
  "ends_with (run (relay_system_step raw_lib) relay_example_listen (relay_system_new (MpscTx 0)))
     (\<lambda>s log. PeerId [7] \<in> rb_listening_clients (rs_behaviour s))"
  by code_simp

lemma relay_example_waits:
  "ends_with (run (relay_system_step raw_lib) (relay_example_listen @ relay_example_dial @ [RsPoll Pending])
       (relay_system_new (MpscTx 0)))
     (\<lambda>s log. (case rs_tasks s 1 of Some (DialTask cid h tr u) \<Rightarrow>
          EvSubmit (MpscTx 0) relay_example_request (Inr ()) \<in> set tr | _ \<Rightarrow> False) \<and>
        rs_answers s (Oneshot 0) = None)"
  by code_simp

section \<open>Whom the relay joins\<close>

text \<open>A finished dial that gave two connections: what it was asked, and where its answer came from.\<close>

lemma relay_dial_joined:
  assumes run: "run (relay_system_step L) is (relay_system_new mtx) = Inr (s, log)"
    and l: "LogDial pid h tr r \<in> set log"
    and tr: "completes (relay_dial_upgrade L h) tr (Inr (Inr (d, c)))"
  obtains req p where "received tr = [req]" "parse_peer L (dial_peer_id req) = Inr p"
    "attempted tr = [Some PbDialSuccess]" "made L log p c" "p \<in> rb_listening_clients (rs_behaviour s)"
proof -
  from tr obtain req ra p a tx buf ss where p: "parse_peer L (dial_peer_id req) = Inr p"
    and tr_is: "tr = [EvNext (Inr (Some req)), EvOneshot tx,
            EvSubmit (ri_connect_request_sender h)
              \<lparr>cr_dst_peer_id = p, cr_dst_addr = a, cr_dialer_addr = ra,
               cr_connection_sender = tx\<rparr> (Inr ()),
            EvConn tx (Inr (Inr c)), EvSend (Some PbDialSuccess) (Inr ()),
            EvParts (buf, ss)]"
    by (auto simp: relay_dial_simps)
  from tr_is relay_dial_connected [OF relay_system_accounts [OF run] relay_system_told [OF run] l,
      of "ri_connect_request_sender h" "\<lparr>cr_dst_peer_id = p, cr_dst_addr = a, cr_dialer_addr = ra,
        cr_connection_sender = tx\<rparr>" c]
  have "made L log p c" "p \<in> rb_listening_clients (rs_behaviour s)"
    by simp_all
  with that tr_is p show ?thesis by simp
qed

lemma made_received:
  assumes "made L log p c"
  obtains v tr where "LogConnect p v tr (Inr c) \<in> set log" "ro_dst_peer_id v = p"
    "completes (relay_upgrade_outbound L v) tr (Inr (Inr c))" "received tr = [Some PbConnectSuccess]"
  using assms relay_connect_success [of L] unfolding made_def by metis

text \<open>
  C3: In every run of the relay with its handlers and upgrades, bytes are only ever copied between
  the two connections of one finished dial, and the second of them was made by a connect, over a
  connection to the very peer that the dialer's request named, that this peer accepted; and that
  peer counts as listening. The relay never joins a dialer to another peer.
\<close>

theorem relay_copies_named_peer:
  assumes "run (relay_system_step L) is (relay_system_new mtx) = Inr (s, log)"
    and "CopyJob x y \<in> set (rb_io_copy_futures (rs_behaviour s))"
  shows "\<exists>pid h tr d c req p v tr'. (x = d \<and> y = c \<or> x = c \<and> y = d) \<and>
     LogDial pid h tr (Inr (Inl (d, c))) \<in> set log \<and>
     received tr = [req] \<and> parse_peer L (dial_peer_id req) = Inr p \<and>
     attempted tr = [Some PbDialSuccess] \<and>
     LogConnect p v tr' (Inr c) \<in> set log \<and> ro_dst_peer_id v = p \<and>
     received tr' = [Some PbConnectSuccess] \<and> p \<in> rb_listening_clients (rs_behaviour s)"
proof -
  note told = relay_system_told [OF assms(1)]
  from relay_accountsD(2) [OF relay_system_accounts [OF assms(1)]]
  have "run (relay_step L) (ins log) (relay_behaviour_new mtx) = Inr (rs_behaviour s, outs log)"
    by (simp add: relay_projects_def)
  from relay_run_copies [OF this assms(2)] obtain pid cid d c where
    "RbHandler pid cid (RoDialSuccess d c) \<in> set (ins log)"
    and xy: "x = d \<and> y = c \<or> x = c \<and> y = d"
    by (auto simp: relay_behaviour_new_def)
  with told have "joined L log d c"
    by (fastforce simp: relay_told_def)
  then obtain q h tr where l: "LogDial q h tr (Inr (Inl (d, c))) \<in> set log"
    and tr: "completes (relay_dial_upgrade L h) tr (Inr (Inr (d, c)))"
    by (auto simp: joined_def)
  from relay_dial_joined [OF assms(1) l tr] obtain req p where
    "received tr = [req]" "parse_peer L (dial_peer_id req) = Inr p"
    "attempted tr = [Some PbDialSuccess]" "p \<in> rb_listening_clients (rs_behaviour s)"
    and m: "made L log p c" .
  moreover from made_received [OF m] obtain v tr' where "LogConnect p v tr' (Inr c) \<in> set log"
    "ro_dst_peer_id v = p" "received tr' = [Some PbConnectSuccess]" .
  ultimately show ?thesis
    using l xy by blast
qed

theorem relay_copies_named_peer_witness:
  "\<exists>s log v tr'. run (relay_system_step raw_lib) relay_example (relay_system_new (MpscTx 0)) = Inr (s, log) \<and>
     CopyJob (new_connection (Multiaddr [3]) [] [43]) (new_connection (Multiaddr [7, 1]) [] [42])
       \<in> set (rb_io_copy_futures (rs_behaviour s)) \<and>
     (\<exists>p c. LogConnect p v tr' (Inr c) \<in> set log \<and> ro_dst_peer_id v = p \<and>
        p \<in> rb_listening_clients (rs_behaviour s))"
proof -
  from relay_example_ends obtain s log where
    r: "run (relay_system_step raw_lib) relay_example (relay_system_new (MpscTx 0)) = Inr (s, log)"
    and c: "CopyJob (new_connection (Multiaddr [3]) [] [43]) (new_connection (Multiaddr [7, 1]) [] [42])
       \<in> set (rb_io_copy_futures (rs_behaviour s))"
    by (auto elim: ends_withE)
  from relay_copies_named_peer [OF r c] r c show ?thesis by blast
qed

text \<open>
  End to end, over both handshakes and the whole relay: when an endpoint's dial of a peer
  succeeds over a substream whose other end is a dial that the relay finished, the connection that
  the relay answered that dial with was made by a connect, over a connection to that peer, that was
  accepted; that peer counts as listening; and whichever endpoint ran the other side of the connect
  is the peer that was dialed.
\<close>

theorem relay_dial_reaches_named_peer:
  fixes tr2 :: "'ss dial_trace"
  assumes "lib_roundtrip L"
    and "completes (endpoint_dial_upgrade L p a) tr1 (Inr (Inr c))"
    and "run (relay_system_step L) is (relay_system_new mtx) = Inr (s, log)"
    and "LogDial pid h tr2 r \<in> set log" and "delivers tr1 tr2" and "delivers tr2 tr1"
  shows "\<exists>tx c' v tr3. EvConn tx (Inr (Inr c')) \<in> set tr2 \<and> LogConnect p v tr3 (Inr c') \<in> set log \<and>
     p \<in> rb_listening_clients (rs_behaviour s) \<and>
     (\<forall>e (tr4 :: (pb_connect_request, pb_connect_response, 'ss) ev list) r4.
        completes (endpoint_upgrade_inbound L e) tr4 r4 \<longrightarrow> delivers tr3 tr4 \<longrightarrow> delivers tr4 tr3 \<longrightarrow>
        ei_local_peer_id e = p)"
proof -
  from relay_log_ok [OF assms(3,4)] obtain r' where tr2: "completes (relay_dial_upgrade L h) tr2 r'"
    by auto
  from dial_handshake [OF assms(1,2) tr2 assms(5,6)] obtain tx c' ra where
    "EvSubmit (ri_connect_request_sender h) \<lparr>cr_dst_peer_id = p, cr_dst_addr = a,
      cr_dialer_addr = ra, cr_connection_sender = tx\<rparr> (Inr ()) \<in> set tr2"
    and conn: "EvConn tx (Inr (Inr c')) \<in> set tr2"
    by blast
  from relay_dial_connected [OF relay_system_accounts [OF assms(3)] relay_system_told [OF assms(3)]
      assms(4) this(1)] conn
  have m: "made L log p c'" and p: "p \<in> rb_listening_clients (rs_behaviour s)"
    by simp_all
  from made_received [OF m] obtain v tr3 where v: "LogConnect p v tr3 (Inr c') \<in> set log"
    "ro_dst_peer_id v = p" "completes (relay_upgrade_outbound L v) tr3 (Inr (Inr c'))" .
  have "ei_local_peer_id e = p"
    if "completes (endpoint_upgrade_inbound L e) tr4 r4" "delivers tr3 tr4" "delivers tr4 tr3"
    for e r4 and tr4 :: "(pb_connect_request, pb_connect_response, 'ss) ev list"
    using connect_handshake [OF assms(1) v(3) that] v(2) by simp
  with conn v(1) p show ?thesis by blast
qed

theorem relay_dial_reaches_named_peer_witness:
  "\<exists>s log tx c' v tr3.
     run (relay_system_step raw_lib) relay_example (relay_system_new (MpscTx 0)) = Inr (s, log) \<and>
     EvConn tx (Inr (Inr c')) \<in> set relay_example_trace \<and>
     LogConnect (PeerId [7]) v tr3 (Inr c') \<in> set log \<and>
     PeerId [7] \<in> rb_listening_clients (rs_behaviour s)"
proof -
  from relay_example_ends obtain s log where
    r: "run (relay_system_step raw_lib) relay_example (relay_system_new (MpscTx 0)) = Inr (s, log)"
    and l: "LogDial (PeerId [4]) (relay_inbound_new (Some (Multiaddr [3])) (MpscTx 0)) relay_example_trace
      (Inr (Inl (new_connection (Multiaddr [3]) [] [43], new_connection (Multiaddr [7, 1]) [] [42])))
      \<in> set log"
    by (auto elim: ends_withE)
  have "delivers dial_trace1 relay_example_trace" "delivers relay_example_trace dial_trace1"
    by (simp_all add: delivers_def dial_trace1_def relay_example_trace_def)
  from relay_dial_reaches_named_peer [OF raw_lib_roundtrip dial_trace1_completes r l this] r
  show ?thesis by blast
qed

section \<open>No dialer is forgotten\<close>

lemma relay_taken_asked:
  "sum_list (map relay_taken is) = mset (map cr_connection_sender (concat (map asked_by is)))"
proof (induction "is")
  case (Cons i "is")
  have "relay_taken i = mset (map cr_connection_sender (asked_by i))"
    by (induction i rule: asked_by.induct) auto
  with Cons show ?case by simp
qed simp

lemma in_one_of_two:
  fixes A B :: "'a multiset"
  assumes "count A x + count B x = 1"
  shows "x \<in># A \<longleftrightarrow> x \<notin># B"
  using assms by (metis add_is_1 count_eq_zero_iff One_nat_def zero_neq_one)

lemma in_ran_mset: "finite (dom m) \<Longrightarrow> t \<in># ran_mset m \<longleftrightarrow> (\<exists>k. m k = Some t)"
  by (force simp: ran_mset_def)

text \<open>
  C5: In every run of the relay, a dial that has submitted its request and still runs is exactly one
  of three: its request is in the channel to the behaviour; or its sender waits, under the peer that
  the request named; or its receiver has been resolved. No dialer waits for a sender that is gone,
  and none is answered twice.
\<close>

theorem relay_dialer_accounted_for:
  assumes "run (relay_system_step L) is (relay_system_new mtx) = Inr (s, log)"
    and "rs_tasks s k = Some (DialTask cid h tr u)"
    and "EvSubmit tx q (Inr ()) \<in> set tr"
  shows "of_bool (q \<in> set (rs_requests s)) +
     of_bool (rb_connecting_requests (rs_behaviour s) (cr_dst_peer_id q) =
        Some (cr_connection_sender q)) +
     of_bool (rs_answers s (cr_connection_sender q) \<noteq> None) = (1 :: nat)"
proof -
  let ?t = "cr_connection_sender q" and ?b = "rs_behaviour s"
  note acc = relay_system_accounts [OF assms(1)]
  note D = relay_accountsD [OF acc]
  from D(2) have r: "run (relay_step L) (ins log) (relay_behaviour_new mtx) = Inr (?b, outs log)"
    and dom: "dom (rs_answers s) = set_mset (sum_list (map relay_given (outs log)))"
    by (simp_all add: relay_projects_def)
  have fin: "finite (dom (rb_connecting_requests ?b))"
    using relay_machine.run_inv [OF relay_inv_new r] by (simp add: relay_inv_def)
  let ?taken = "concat (map asked_by (ins log))"
  have bal: "mset (map cr_connection_sender ?taken) =
      ran_mset (rb_connecting_requests ?b) + sum_list (map relay_given (outs log))"
    using relay_ledger.run_balance [OF relay_inv_new r] relay_taken_asked [of "ins log"]
    by (simp add: relay_held_def relay_behaviour_new_def)
  have q: "q \<in> set (?taken @ rs_requests s)"
    using D(5) [OF assms(2)] in_submits [OF assms(3)]
    by (auto simp: dial_task_ok_def dial_trace_ok_def submitted_def)
  have uniq: "q' = q" if "q' \<in> set ?taken" "cr_connection_sender q' = ?t" for q'
    using relay_request_unique [OF acc] that q by (auto simp: submitted_def)
  have held: "?t \<in># ran_mset (rb_connecting_requests ?b) \<longleftrightarrow>
      rb_connecting_requests ?b (cr_dst_peer_id q) = Some ?t"
    using relay_run_connecting [OF r] uniq
    by (auto simp: in_ran_mset [OF fin] relay_behaviour_new_def requested_asked)
  have given: "?t \<in># sum_list (map relay_given (outs log)) \<longleftrightarrow> rs_answers s ?t \<noteq> None"
    using dom by (simp add: domIff set_eq_iff)
  show ?thesis
  proof (cases "q \<in> set (rs_requests s)")
    case True
    then have "?t \<notin># mset (map cr_connection_sender ?taken)"
      using D(3) by (auto simp: submitted_def)
    with True held given show ?thesis
      unfolding bal by auto
  next
    case False
    with q have "?t \<in> set (map cr_connection_sender ?taken)"
      by auto
    moreover have "distinct (map cr_connection_sender ?taken)"
      using D(3) by (simp add: submitted_def)
    ultimately have "count (mset (map cr_connection_sender ?taken)) ?t = 1"
      using distinct_count_atmost_1 [of "map cr_connection_sender ?taken"] by auto
    then have "count (ran_mset (rb_connecting_requests ?b)) ?t +
        count (sum_list (map relay_given (outs log))) ?t = 1"
      unfolding bal by simp
    from in_one_of_two [OF this] False show ?thesis
      unfolding held given by simp
  qed
qed

theorem relay_dialer_accounted_for_witness:
  "\<exists>s log. run (relay_system_step raw_lib) (relay_example_listen @ relay_example_dial @ [RsPoll Pending])
       (relay_system_new (MpscTx 0)) = Inr (s, log) \<and>
     of_bool (relay_example_request \<in> set (rs_requests s)) +
     of_bool (rb_connecting_requests (rs_behaviour s) (PeerId [7]) = Some (Oneshot 0)) +
     of_bool (rs_answers s (Oneshot 0) \<noteq> None) = (1 :: nat)"
proof -
  from relay_example_waits obtain s log where
    r: "run (relay_system_step raw_lib) (relay_example_listen @ relay_example_dial @ [RsPoll Pending])
       (relay_system_new (MpscTx 0)) = Inr (s, log)"
    and t: "case rs_tasks s 1 of Some (DialTask cid h tr u) \<Rightarrow>
          EvSubmit (MpscTx 0) relay_example_request (Inr ()) \<in> set tr | _ \<Rightarrow> False"
    by (auto elim: ends_withE)
  then obtain cid h tr u where "rs_tasks s 1 = Some (DialTask cid h tr u)"
    "EvSubmit (MpscTx 0) relay_example_request (Inr ()) \<in> set tr"
    by (auto split: option.splits relay_task.splits)
  from relay_dialer_accounted_for [OF r this] r show ?thesis
    by (simp add: relay_example_request_def)
qed

section \<open>Who listens\<close>

text \<open>
  C20: In every run of the relay, a peer that the behaviour takes to be listening was announced in a
  listen upgrade that ran to its end: its request named the peer in a text that parses, and the
  success response, and no other, was sent.
\<close>

theorem relay_listens_only_announced:
  assumes "run (relay_system_step L) is (relay_system_new mtx) = Inr (s, log)"
    and "p \<in> rb_listening_clients (rs_behaviour s)"
  shows "\<exists>pid h tr a req. LogListen pid h tr (Inr (Inr \<lparr>lr_listen_peer_id = p, lr_listen_addr = a\<rparr>))
       \<in> set log \<and>
     received tr = [req] \<and> parse_peer L (req_listen_peer_id req) = Inr p \<and>
     parse_multiaddr L (req_listen_addr req) = Inr a \<and> sent tr = [Some PbListenSuccess]"
proof -
  from relay_accountsD(2) [OF relay_system_accounts [OF assms(1)]]
  have "run (relay_step L) (ins log) (relay_behaviour_new mtx) = Inr (rs_behaviour s, outs log)"
    by (simp add: relay_projects_def)
  from relay_run_listening [OF this] assms(2) have "p \<in> announced (ins log)"
    by (simp add: relay_behaviour_new_def)
  with told_announced [OF relay_system_told [OF assms(1)]] obtain pid h tr lr where
    l: "LogListen pid h tr (Inr (Inr lr)) \<in> set log" and lr: "lr_listen_peer_id lr = p"
    and tr: "completes (relay_listen_upgrade L h) tr (Inr (Inr lr))"
    unfolding heard_def by blast
  from tr obtain req u where tr_is: "tr = [EvNext (Inr (Some req)), EvSend (Some PbListenSuccess) (Inr u)]"
    and "parse_peer L (req_listen_peer_id req) = Inr (lr_listen_peer_id lr)"
    and "parse_multiaddr L (req_listen_addr req) = Inr (lr_listen_addr lr)"
    by (auto simp: relay_listen_upgrade_def completes_simps)
  moreover from l lr have "LogListen pid h tr
      (Inr (Inr \<lparr>lr_listen_peer_id = p, lr_listen_addr = lr_listen_addr lr\<rparr>)) \<in> set log"
    by (cases lr) auto
  moreover from tr_is have "received tr = [req]" "sent tr = [Some PbListenSuccess]"
    by simp_all
  ultimately show ?thesis
    using lr by blast
qed

theorem relay_listens_only_announced_witness:
  "\<exists>s log pid h tr a. run (relay_system_step raw_lib) relay_example_listen
       (relay_system_new (MpscTx 0)) = Inr (s, log) \<and>
     LogListen pid h tr (Inr (Inr \<lparr>lr_listen_peer_id = PeerId [7], lr_listen_addr = a\<rparr>)) \<in> set log \<and>
     sent tr = [Some PbListenSuccess]"
proof -
  from relay_example_listens obtain s log where
    r: "run (relay_system_step raw_lib) relay_example_listen (relay_system_new (MpscTx 0)) = Inr (s, log)"
    and p: "PeerId [7] \<in> rb_listening_clients (rs_behaviour s)"
    by (auto elim: ends_withE)
  from relay_listens_only_announced [OF r p] r show ?thesis by blast
qed

text \<open>
  C22: Nothing ties the announced peer to the peer of the connection: over a connection to any peer,
  a listen request that names another peer makes the relay take that other peer to be listening.
\<close>

theorem relay_accepts_foreign_announcement:
  assumes "parse_peer L (req_listen_peer_id req) = Inr p" and "parse_multiaddr L (req_listen_addr req) = Inr a"
  shows "\<exists>s log. run (relay_system_step L)
       [RsOpen cid q addr, RsInbound cid k AUTO_RELAY_LISTEN_PROTOCOL,
        RsListenAwait k (EvNext (Inr (Some req))), RsListenAwait k (EvSend (Some PbListenSuccess) (Inr ())),
        RsFinish k msg, RsHandlerPoll cid k, RsDeliver] (relay_system_new mtx) = Inr (s, log) \<and>
     p \<in> rb_listening_clients (rs_behaviour s) \<and> ran (peers s) = {q}"
  using assms
  by (simp add: relay_system_new_def relay_behaviour_new_def set_link_def set_task_def task_at_def
      relay_into_handler_def relay_new_handler_def relay_into_handler_new_def relay_listen_protocol_def
      relay_inbound_new_def relay_inbound_protocol_info_def relay_upgrade_inbound_def Let_def
      relay_listen_upgrade_def AUTO_RELAY_LISTEN_PROTOCOL_def AUTO_RELAY_DIAL_PROTOCOL_def
      finish_def tell_handler_def set_handler_def end_task_def rh_push_def relay_handler_poll_def
      behave_def peers_def ran_def)

section \<open>A peer that is gone\<close>

text \<open>Somebody waits for \<open>p\<close>, which is not connected and of which no event is on its way.\<close>

definition awaited_in_vain :: "peer_id \<Rightarrow> 'ss relay_system \<Rightarrow> bool" where
  "awaited_in_vain p s \<longleftrightarrow> rb_connecting_requests (rs_behaviour s) p \<noteq> None \<and>
     (\<forall>cid. peers s cid \<noteq> Some p) \<and> (\<forall>cid e. (p, cid, e) \<notin> set (rs_events s))"

lemma relay_step_still_waiting:
  assumes "relay_step L i b = Inr (b', os)" and "rb_connecting_requests b p \<noteq> None"
    and "\<And>q cid e. i = RbHandler q cid e \<Longrightarrow> q \<noteq> p \<and> event_ok L log q e"
  shows "rb_connecting_requests b' p \<noteq> None"
proof (cases i)
  case (RbPoll copied recv)
  with assms relay_poll_cases [of recv] show ?thesis
    by (auto simp: relay_poll_def Let_def split: if_splits list.splits)
next
  case (RbHandler q cid e)
  with assms(3) have "q \<noteq> p" "event_ok L log q e"
    by simp_all
  with RbHandler assms(1,2) show ?thesis
    by (cases e) (auto split: option.splits)
qed (use assms in auto)

lemma behave_in_vain:
  assumes "awaited_in_vain p s" and "behave L i s0 = Inr (s', os)"
    and "rs_behaviour s0 = rs_behaviour s" and "rs_links s0 = rs_links s"
    and "set (rs_events s0) \<subseteq> set (rs_events s)"
    and "\<And>q cid e. i = RbHandler q cid e \<Longrightarrow> q \<noteq> p \<and> event_ok L log q e"
  shows "awaited_in_vain p s'"
proof -
  from assms(2,3) obtain bs where "relay_step L i (rs_behaviour s) = Inr (rs_behaviour s', bs)"
    by (auto simp: behave_def split: sum.splits prod.splits)
  with relay_step_still_waiting [OF this _ assms(6)] assms(1)
  have "rb_connecting_requests (rs_behaviour s') p \<noteq> None"
    by (auto simp: awaited_in_vain_def)
  moreover have "peers s' = peers s"
    by (simp add: peers_def behave_frame [OF assms(2)] assms(4))
  ultimately show ?thesis
    using assms(1,5) behave_frame(3) [OF assms(2)] unfolding awaited_in_vain_def by (auto dest: subsetD)
qed

lemma awaited_in_vain_step:
  assumes told: "relay_told L log s" and vain: "awaited_in_vain p s"
    and st: "relay_system_step L i s = Inr (s', os)" and new: "\<And>cid a. i \<noteq> RsOpen cid p a"
  shows "awaited_in_vain p s'"
  using st
proof (cases rule: relay_system_step_cases)
  case (opened cid q addr)
  with vain new show ?thesis by (auto simp: awaited_in_vain_def)
next
  case (closed cid l)
  with vain show ?thesis by (auto simp: awaited_in_vain_def peers_def)
next
  case (custom cid l e evs)
  with vain have "lk_peer l \<noteq> p"
    by (auto simp: awaited_in_vain_def peers_def)
  with custom vain show ?thesis
    by (auto simp: awaited_in_vain_def peers_set_handler)
next
  case (deliver q cid e evs)
  with told vain have "q \<noteq> p \<and> event_ok L log q e"
    by (auto simp: relay_told_def awaited_in_vain_def)
  with behave_in_vain [OF vain deliver(2)] deliver(1) show ?thesis by auto
next
  case (poll_empty copied)
  with behave_in_vain [OF vain poll_empty(2)] show ?thesis by simp
next
  case (poll_some copied q qs)
  with behave_in_vain [OF vain poll_some(2)] show ?thesis by simp
qed (use vain in \<open>auto simp: awaited_in_vain_def peers_set_handler\<close>)

text \<open>Nobody is ever forgotten to have listened.\<close>

lemma relay_system_step_listening:
  assumes "relay_system_step L i s = Inr (s', os)"
  shows "rb_listening_clients (rs_behaviour s) \<subseteq> rb_listening_clients (rs_behaviour s')"
proof -
  have behaves: "rb_listening_clients (rs_behaviour s0) \<subseteq> rb_listening_clients (rs_behaviour s')"
    if "behave L j s0 = Inr (s', os)" for j s0
    using that by (auto simp: behave_def dest: relay_step_listening split: sum.splits prod.splits)
  from assms show ?thesis
  proof (cases rule: relay_system_step_cases)
    case (deliver p cid e evs)
    with behaves [OF deliver(2)] show ?thesis by simp
  next
    case (poll_empty copied)
    with behaves [OF poll_empty(2)] show ?thesis by simp
  next
    case (poll_some copied q qs)
    with behaves [OF poll_some(2)] show ?thesis by simp
  qed (simp_all add: tell_handler_def set_handler_def set_link_def)
qed

lemma relay_system_run_listening:
  "run (relay_system_step L) is s = Inr (s', os) \<Longrightarrow>
     rb_listening_clients (rs_behaviour s) \<subseteq> rb_listening_clients (rs_behaviour s')"
proof (induction "is" arbitrary: s os)
  case (Cons i "is")
  from run_Cons_Inr [OF Cons.prems] obtain s1 os1 os2 where
    st: "relay_system_step L i s = Inr (s1, os1)"
    and r: "run (relay_system_step L) is s1 = Inr (s', os2)"
    by blast
  from relay_system_step_listening [OF st] Cons.IH [OF r] show ?case
    by (rule order_trans)
qed simp

lemma awaited_in_vain_run:
  "run (relay_system_step L) later s = Inr (s', log') \<Longrightarrow> awaited_in_vain p s \<Longrightarrow> relay_told L log s \<Longrightarrow>
     (\<And>cid a. RsOpen cid p a \<notin> set later) \<Longrightarrow> awaited_in_vain p s'"
proof (induction later arbitrary: log s log')
  case (Cons i later)
  from run_Cons_Inr [OF Cons.prems(1)] obtain s1 os1 os2 where
    st: "relay_system_step L i s = Inr (s1, os1)"
    and r: "run (relay_system_step L) later s1 = Inr (s', os2)"
    by blast
  from Cons.prems(4) have "i \<noteq> RsOpen cid p a" for cid a
    by auto
  from awaited_in_vain_step [OF Cons.prems(3,2) st this] relay_reports.inv_step [OF Cons.prems(3) st]
    r Cons.prems(4) show ?case
    by (intro Cons.IH) auto
qed simp

text \<open>A poll takes a request for a peer that listens, answers nobody, and keeps its sender.\<close>

lemma relay_poll_keeps_request:
  assumes "rs_requests s = q # qs" and "cr_dst_peer_id q = p" and "p \<in> rb_listening_clients (rs_behaviour s)"
  shows "\<exists>s' log. relay_system_step L (RsPoll copied) s = Inr (s', log) \<and>
     rb_connecting_requests (rs_behaviour s') p = Some (cr_connection_sender q) \<and>
     (\<nexists>sender r. LogOut (Effect (Answer sender r)) \<in> set log)"
  using assms by (auto simp: behave_def relay_poll_def Let_def split: option.splits)

text \<open>
  C21: The relay never refuses a dial of a peer that has gone. Once a peer has announced itself, and
  is not connected and no event of it is on its way, then until it connects again, whatever else
  happens: a poll that finds a dial for this peer takes it, answers nobody, and lets the dialer wait;
  and once a dialer waits for this peer, some dialer waits for it in every later state.
\<close>

theorem relay_waits_for_departed_peer:
  assumes "run (relay_system_step L) is (relay_system_new mtx) = Inr (s, log)"
    and "p \<in> rb_listening_clients (rs_behaviour s)"
    and "\<And>cid. peers s cid \<noteq> Some p" and "\<And>cid e. (p, cid, e) \<notin> set (rs_events s)"
    and "run (relay_system_step L) later s = Inr (s', log')"
    and "\<And>cid a. RsOpen cid p a \<notin> set later"
  shows "(\<forall>q qs copied. rs_requests s' = q # qs \<and> cr_dst_peer_id q = p \<longrightarrow>
       (\<exists>s'' log''. relay_system_step L (RsPoll copied) s' = Inr (s'', log'') \<and>
          rb_connecting_requests (rs_behaviour s'') p = Some (cr_connection_sender q) \<and>
          (\<nexists>sender r. LogOut (Effect (Answer sender r)) \<in> set log''))) \<and>
     (rb_connecting_requests (rs_behaviour s) p \<noteq> None \<longrightarrow>
       rb_connecting_requests (rs_behaviour s') p \<noteq> None)"
proof -
  have "p \<in> rb_listening_clients (rs_behaviour s')"
    using relay_system_run_listening [OF assms(5)] assms(2) by blast
  moreover have "rb_connecting_requests (rs_behaviour s') p \<noteq> None"
    if "rb_connecting_requests (rs_behaviour s) p \<noteq> None"
  proof -
    have "awaited_in_vain p s"
      using that assms(3,4) by (auto simp: awaited_in_vain_def)
    from awaited_in_vain_run [OF assms(5) this relay_system_told [OF assms(1)] assms(6)]
    show ?thesis by (simp add: awaited_in_vain_def)
  qed
  ultimately show ?thesis
    using relay_poll_keeps_request by blast
qed

text \<open>A connection that is open was opened.\<close>

lemma relay_step_peers:
  assumes "relay_system_step L i s = Inr (s', os)" and "peers s' cid = Some p"
  shows "peers s cid = Some p \<or> (\<exists>a. i = RsOpen cid p a)"
  using assms(1)
proof (cases rule: relay_system_step_cases)
  case (opened cid' q addr)
  with assms(2) show ?thesis by (auto split: if_splits)
next
  case (closed cid' l)
  with assms(2) show ?thesis by (auto simp: peers_def split: if_splits)
next
  case (deliver q cid' e evs)
  with assms(2) behave_frame(1) [OF deliver(2)] show ?thesis by (simp add: peers_def)
next
  case (poll_empty copied)
  with assms(2) behave_frame(1) [OF poll_empty(2)] show ?thesis by (simp add: peers_def)
next
  case (poll_some copied q qs)
  with assms(2) behave_frame(1) [OF poll_some(2)] show ?thesis by (simp add: peers_def)
qed (use assms(2) in \<open>auto simp: peers_set_handler\<close>)

lemma relay_run_peers:
  "run (relay_system_step L) is s = Inr (s', os) \<Longrightarrow> peers s' cid = Some p \<Longrightarrow>
     peers s cid = Some p \<or> (\<exists>a. RsOpen cid p a \<in> set is)"
proof (induction "is" arbitrary: s os)
  case (Cons i "is")
  from run_Cons_Inr [OF Cons.prems(1)] obtain s1 os1 os2 where
    st: "relay_system_step L i s = Inr (s1, os1)"
    and r: "run (relay_system_step L) is s1 = Inr (s', os2)"
    by blast
  from Cons.IH [OF r Cons.prems(2)] relay_step_peers [OF st] show ?case
    by auto
qed simp

definition relay_example_gone :: "bytes relay_system_input list" where
  "relay_example_gone = relay_example_listen @ [RsClose (ConnectionId 0)]"

lemma relay_example_departs:
  "ends_with (run (relay_system_step raw_lib) relay_example_gone (relay_system_new (MpscTx 0)))
     (\<lambda>s log. PeerId [7] \<in> rb_listening_clients (rs_behaviour s) \<and>
        peers s (ConnectionId 0) = None \<and> rs_events s = [] \<and>
        ends_with (run (relay_system_step raw_lib) relay_example_dial s)
          (\<lambda>s log. rs_requests s = [relay_example_request]))"
  by code_simp

theorem relay_waits_for_departed_peer_witness:
  "\<exists>s log s' log' s'' log''. run (relay_system_step raw_lib) relay_example_gone (relay_system_new (MpscTx 0)) =
       Inr (s, log) \<and>
     run (relay_system_step raw_lib) relay_example_dial s = Inr (s', log') \<and>
     relay_system_step raw_lib (RsPoll Pending) s' = Inr (s'', log'') \<and>
     rb_connecting_requests (rs_behaviour s'') (PeerId [7]) = Some (Oneshot 0)"
proof -
  from relay_example_departs obtain s log where
    r: "run (relay_system_step raw_lib) relay_example_gone (relay_system_new (MpscTx 0)) = Inr (s, log)"
    and l: "PeerId [7] \<in> rb_listening_clients (rs_behaviour s)"
    and c: "peers s (ConnectionId 0) = None" "rs_events s = []"
    and "ends_with (run (relay_system_step raw_lib) relay_example_dial s)
      (\<lambda>s log. rs_requests s = [relay_example_request])"
    by (auto elim: ends_withE)
  then obtain s' log' where later: "run (relay_system_step raw_lib) relay_example_dial s = Inr (s', log')"
    and q: "rs_requests s' = [relay_example_request]"
    by (auto elim: ends_withE)
  have away: "peers s cid \<noteq> Some (PeerId [7])" for cid
  proof
    assume p: "peers s cid = Some (PeerId [7])"
    with relay_run_peers [OF r p] have "cid = ConnectionId 0"
      by (auto simp: relay_example_gone_def relay_example_listen_def relay_system_new_def peers_def)
    with p c show False by simp
  qed
  have opens: "RsOpen cid (PeerId [7]) a \<notin> set relay_example_dial" for cid a
    by (simp add: relay_example_dial_def)
  have silent: "(PeerId [7], cid, e) \<notin> set (rs_events s)" for cid e
    by (simp add: c(2))
  have dst: "cr_dst_peer_id relay_example_request = PeerId [7]"
    and sender: "cr_connection_sender relay_example_request = Oneshot 0"
    by (simp_all add: relay_example_request_def)
  from relay_waits_for_departed_peer [OF r l away silent later opens, THEN conjunct1, rule_format, OF conjI [OF q dst]]
  obtain s'' log'' where "relay_system_step raw_lib (RsPoll Pending) s' = Inr (s'', log'')"
    "rb_connecting_requests (rs_behaviour s'') (PeerId [7]) = Some (Oneshot 0)"
    unfolding sender by blast
  with r later show ?thesis by blast
qed

theorem relay_accepts_foreign_announcement_witness:
  "\<exists>s log. run (relay_system_step raw_lib)
       [RsOpen (ConnectionId 0) (PeerId [8]) (Multiaddr [80]),
        RsInbound (ConnectionId 0) 0 AUTO_RELAY_LISTEN_PROTOCOL,
        RsListenAwait 0 (EvNext (Inr (Some \<lparr>req_listen_peer_id = show_peer raw_lib (PeerId [7]),
          req_listen_addr = show_addr raw_lib (Multiaddr [7, 1])\<rparr>))),
        RsListenAwait 0 (EvSend (Some PbListenSuccess) (Inr ())),
        RsFinish 0 [], RsHandlerPoll (ConnectionId 0) 0, RsDeliver]
       (relay_system_new (MpscTx 0) :: bytes relay_system) = Inr (s, log) \<and>
     PeerId [7] \<in> rb_listening_clients (rs_behaviour s) \<and> ran (peers s) = {PeerId [8]}"
  by (rule relay_accepts_foreign_announcement)
     (simp_all add: lib_roundtrip_peer [OF raw_lib_roundtrip] lib_roundtrip_addr [OF raw_lib_roundtrip])

end
