(* ===== verification/Transport.thy ===== *)
theory Transport
  imports Swarm
begin

text \<open>
  The interface \<open>libp2p_core::Transport\<close> that \<open>src/endpoint/transport.rs\<close> and \<open>src/combine.rs\<close>
  implement: its events and errors, its operations as a record, and two contracts: what listening
  and removing a listener promise each other, and what polling a dial's future promises.
\<close>

datatype 'e transport_error = MultiaddrNotSupported multiaddr | TransportOther 'e

datatype ('up, 'e) transport_event =
    TrNewAddress listener_id multiaddr
  | TrAddressExpired listener_id multiaddr
  | TrIncoming listener_id 'up multiaddr multiaddr
  | TrListenerClosed listener_id "'e + unit"
  | TrListenerError listener_id 'e

text \<open>\<open>TransportEvent::map_upgrade\<close> and \<open>map_err\<close>.\<close>

fun map_event :: "('u \<Rightarrow> 'v) \<Rightarrow> ('e \<Rightarrow> 'f) \<Rightarrow> ('u, 'e) transport_event \<Rightarrow> ('v, 'f) transport_event" where
  "map_event f g (TrNewAddress lid a) = TrNewAddress lid a"
| "map_event f g (TrAddressExpired lid a) = TrAddressExpired lid a"
| "map_event f g (TrIncoming lid u l r) = TrIncoming lid (f u) l r"
| "map_event f g (TrListenerClosed lid res) = TrListenerClosed lid (map_sum g id res)"
| "map_event f g (TrListenerError lid e) = TrListenerError lid (g e)"

fun event_listener :: "('u, 'e) transport_event \<Rightarrow> listener_id" where
  "event_listener (TrNewAddress lid a) = lid"
| "event_listener (TrAddressExpired lid a) = lid"
| "event_listener (TrIncoming lid u l r) = lid"
| "event_listener (TrListenerClosed lid res) = lid"
| "event_listener (TrListenerError lid e) = lid"

lemma event_listener_map [simp]: "event_listener (map_event f g ev) = event_listener ev"
  by (cases ev) simp_all

text \<open>
  A transport's operations on its state \<open>'t\<close>; \<open>'d\<close> is the future of a dial. A panic ends the
  program, so only \<open>poll\<close>, where the program has panics, can return one; a poll that never
  returns is \<open>None\<close>.
\<close>

record ('t, 'd, 'up, 'e) transport_ops =
  tr_listen_on :: "multiaddr \<Rightarrow> 't \<Rightarrow> 't \<times> ('e transport_error + listener_id)"
  tr_remove_listener :: "listener_id \<Rightarrow> 't \<Rightarrow> 't \<times> bool"
  tr_dial :: "multiaddr \<Rightarrow> 't \<Rightarrow> 't \<times> ('e transport_error + 'd)"
  tr_dial_as_listener :: "multiaddr \<Rightarrow> 't \<Rightarrow> 't \<times> ('e transport_error + 'd)"
  tr_poll :: "'t \<Rightarrow> (panic + 't \<times> ('up, 'e) transport_event poll) option"
  tr_address_translation :: "'t \<Rightarrow> multiaddr \<Rightarrow> multiaddr \<Rightarrow> multiaddr option"

text \<open>
  Listening: a listener that was started is listening, \<open>remove_listener\<close> reports whether there was
  one and ends it, and nothing else ends.
\<close>

locale listening_transport =
  fixes ops :: "('t, 'd, 'up, 'e) transport_ops"
    and listening :: "'t \<Rightarrow> listener_id set"
  assumes listen_on_Ok: "tr_listen_on ops a t = (t', Inr lid) \<Longrightarrow> listening t' = insert lid (listening t)"
    and listen_on_Err: "tr_listen_on ops a t = (t', Inl e) \<Longrightarrow> listening t' = listening t"
    and remove_listener_iff: "tr_remove_listener ops lid t = (t', b) \<Longrightarrow>
      b = (lid \<in> listening t) \<and> listening t' = listening t - {lid}"
begin

lemma remove_after_listen:
  assumes "tr_listen_on ops a t = (t1, Inr lid)" and "tr_remove_listener ops lid t1 = (t2, b)"
  shows "b \<and> lid \<notin> listening t2 \<and> listening t - {lid} \<subseteq> listening t2"
  using listen_on_Ok [OF assms(1)] remove_listener_iff [OF assms(2)] by auto

lemma remove_twice:
  assumes "tr_remove_listener ops lid t = (t1, b1)" and "tr_remove_listener ops lid t1 = (t2, b2)"
  shows "\<not> b2"
  using remove_listener_iff [OF assms(1)] remove_listener_iff [OF assms(2)] by auto

end

text \<open>Awaiting a future: polled until it is ready, at most \<open>n\<close> times.\<close>

fun await_within :: "('f \<Rightarrow> 'r poll \<times> 'f) \<Rightarrow> nat \<Rightarrow> 'f \<Rightarrow> 'r option" where
  "await_within poll 0 f = None"
| "await_within poll (Suc n) f =
     (case poll f of (Ready r, f') \<Rightarrow> Some r | (Pending, f') \<Rightarrow> await_within poll n f')"

text \<open>
  A future, with the \<open>outcomes\<close> it may still have: a poll that is ready gives one of them, a pending
  poll adds none.
\<close>

locale future =
  fixes poll :: "'f \<Rightarrow> 'r poll \<times> 'f" and outcomes :: "'f \<Rightarrow> 'r set"
  assumes ready_outcome: "poll f = (Ready r, f') \<Longrightarrow> r \<in> outcomes f"
    and pending_outcomes: "poll f = (Pending, f') \<Longrightarrow> outcomes f' \<subseteq> outcomes f"
begin

lemma await_outcome: "await_within poll n f = Some r \<Longrightarrow> r \<in> outcomes f"
proof (induction n arbitrary: f)
  case 0
  then show ?case by simp
next
  case (Suc n)
  obtain x f' where p: "poll f = (x, f')"
    by fastforce
  with Suc show ?case
    using ready_outcome [of f] pending_outcomes [of f]
    by (cases x) (auto dest: subsetD)
qed

end

text \<open>What a future gives when it is awaited for long enough.\<close>

definition results :: "('f \<Rightarrow> 'r poll \<times> 'f) \<Rightarrow> 'f \<Rightarrow> 'r set" where
  "results poll f = {r. \<exists>n. await_within poll n f = Some r}"

lemma results_Ready: "poll f = (Ready r, f') \<Longrightarrow> results poll f = {r}"
proof -
  assume p: "poll f = (Ready r, f')"
  have "await_within poll n f = Some x \<Longrightarrow> x = r" for n x
    using p by (cases n) auto
  moreover have "await_within poll (Suc 0) f = Some r"
    using p by simp
  ultimately show ?thesis
    unfolding results_def by blast
qed

lemma results_Pending: "poll f = (Pending, f') \<Longrightarrow> results poll f = results poll f'"
proof -
  assume p: "poll f = (Pending, f')"
  have "await_within poll (Suc n) f = await_within poll n f'" for n
    using p by simp
  moreover have "await_within poll 0 f = None"
    by simp
  ultimately show ?thesis
    unfolding results_def by (metis (no_types, lifting) option.distinct(1) not0_implies_Suc)
qed

lemma await_results: "await_within poll n f = Some r \<Longrightarrow> r \<in> results poll f"
  by (auto simp: results_def)

lemma await_mono: "await_within poll n f = Some r \<Longrightarrow> n \<le> m \<Longrightarrow> await_within poll m f = Some r"
proof (induction n arbitrary: m f)
  case 0
  then show ?case by simp
next
  case (Suc n)
  then obtain m' where "m = Suc m'" "n \<le> m'"
    by (cases m) auto
  with Suc show ?case
    by (auto split: prod.splits poll.splits)
qed

end
