(* ===== verification/Endpoint_Event.thy ===== *)
theory Endpoint_Event
  imports Swarm Endpoint_Upgrade
begin

text \<open>
  \<open>src/endpoint/event.rs\<close>: the events between the endpoint's transport, behaviour and connection
  handlers, and those for the application. A dial carries the \<open>oneshot\<close> sender that must be
  answered with its outcome; a listen carries the sender of the listener's channel, whose
  third-party type is the parameter \<open>'ls\<close>.
\<close>

datatype 'ls transport_to_behaviour_event =
    TDial (t_dst_peer_id: peer_id) (t_dst_addr: multiaddr) (t_relay_addr: multiaddr)
      (t_relay_peer_id: peer_id) (t_dial_sender: oneshot)
  | TListen (t_listener_id: listener_id) (t_local_peer_id: peer_id) (t_local_addr: multiaddr)
      (t_relay_peer_id: peer_id) (t_relay_addr: multiaddr) (t_listen_sender: 'ls)

fun t2b_relay_peer_id :: "'ls transport_to_behaviour_event \<Rightarrow> peer_id" where
  "t2b_relay_peer_id (TDial dst_peer_id dst_addr relay_addr relay_peer_id sender) = relay_peer_id"
| "t2b_relay_peer_id (TListen lid local_peer_id local_addr relay_peer_id relay_addr sender) =
     relay_peer_id"

fun t2b_relay_addr :: "'ls transport_to_behaviour_event \<Rightarrow> multiaddr" where
  "t2b_relay_addr (TDial dst_peer_id dst_addr relay_addr relay_peer_id sender) = relay_addr"
| "t2b_relay_addr (TListen lid local_peer_id local_addr relay_peer_id relay_addr sender) = relay_addr"

datatype behaviour_to_transport_event =
    BListenSuccess listener_id multiaddr
  | BListenFailed io_error listener_id multiaddr
  | BPeerClosed peer_id multiaddr connection_id
  | BDialFailed io_error peer_id multiaddr

datatype endpoint_event =
    UnexpectedConnection multiaddr
  | EndpointListenerClosed multiaddr
  | OtherError string
  | UnexpectedTransportDropped

datatype endpoint_in_event =
    EiDial peer_id multiaddr oneshot
  | EiListen listener_id peer_id multiaddr

datatype 'ss endpoint_out_event =
    EoNewConnection peer_id multiaddr "'ss connection"
  | EoDialSuccess peer_id "'ss connection" oneshot
  | EoDialFailed io_error peer_id oneshot
  | EoListenSuccess peer_id listener_id peer_id multiaddr
  | EoListenFailed io_error peer_id listener_id peer_id multiaddr
  | EoError string

datatype endpoint_open_info =
    InfoDial oneshot
  | InfoListen listener_id peer_id multiaddr

end
