(* ===== verification/Endpoint_Handler.thy ===== *)
theory Endpoint_Handler
  imports Endpoint_Event
begin

text \<open>
  \<open>src/endpoint/handler.rs\<close>: the endpoint's side of one connection to a relay. It has two queues,
  one for accepted connections and one for everything else; \<open>poll\<close> empties the first before the
  second.
\<close>

section \<open>The handler\<close>

type_synonym 'ss endpoint_handler_event =
  "(endpoint_outbound_upgrade, endpoint_open_info, 'ss endpoint_out_event) handler_event"

type_synonym 'ss endpoint_connection_event =
  "('ss inbound_upgrade_output, 'ss connection + unit, endpoint_open_info) connection_event"

record endpoint_into_connection_handler =
  eih_keepalive :: keep_alive
  eih_local_peer_id :: peer_id

definition endpoint_into_handler_new :: "peer_id \<Rightarrow> endpoint_into_connection_handler" where
  "endpoint_into_handler_new local_peer_id =
     \<lparr>eih_keepalive = KeepAliveYes, eih_local_peer_id = local_peer_id\<rparr>"

record 'ss endpoint_handler =
  eh_local_peer_id :: peer_id
  eh_relay_peer_id :: peer_id
  eh_keepalive :: keep_alive
  eh_pending_events :: "'ss endpoint_handler_event list"
  eh_pending_inbound_upgrade_output :: "'ss inbound_upgrade_output list"

definition endpoint_into_handler :: "endpoint_into_connection_handler \<Rightarrow> peer_id \<Rightarrow> 'ss endpoint_handler" where
  "endpoint_into_handler i remote_peer_id =
     \<lparr>eh_local_peer_id = eih_local_peer_id i, eh_relay_peer_id = remote_peer_id,
      eh_keepalive = eih_keepalive i, eh_pending_events = [],
      eh_pending_inbound_upgrade_output = []\<rparr>"

definition endpoint_into_inbound_protocol :: "endpoint_into_connection_handler \<Rightarrow> endpoint_inbound_upgrade" where
  "endpoint_into_inbound_protocol i = endpoint_inbound_new (eih_local_peer_id i) None"

definition endpoint_listen_protocol :: "'ss endpoint_handler \<Rightarrow> endpoint_inbound_upgrade" where
  "endpoint_listen_protocol h =
     endpoint_inbound_new (eh_local_peer_id h) (Some (eh_relay_peer_id h))"

definition endpoint_connection_keep_alive :: "'ss endpoint_handler \<Rightarrow> keep_alive" where
  "endpoint_connection_keep_alive h = eh_keepalive h"

text \<open>The event that \<open>poll\<close> makes of an accepted connection.\<close>

definition new_connection_event :: "'ss inbound_upgrade_output \<Rightarrow> 'ss endpoint_handler_event" where
  "new_connection_event out =
     Custom (EoNewConnection (io_relay_peer_id out) (io_listen_addr out) (io_connection out))"

definition endpoint_handler_poll ::
  "'ss endpoint_handler \<Rightarrow>
     'ss endpoint_handler \<times> 'ss effect list \<times> 'ss endpoint_handler_event poll" where
  "endpoint_handler_poll h =
     (case eh_pending_inbound_upgrade_output h of
        out # outs \<Rightarrow>
          (h\<lparr>eh_pending_inbound_upgrade_output := outs\<rparr>, [], Ready (new_connection_event out))
      | [] \<Rightarrow>
          (case eh_pending_events h of
             event # events \<Rightarrow> (h\<lparr>eh_pending_events := events\<rparr>, [], Ready event)
           | [] \<Rightarrow> (h, [Register], Pending)))"

definition eh_push :: "'ss endpoint_handler_event \<Rightarrow> 'ss endpoint_handler \<Rightarrow> 'ss endpoint_handler" where
  "eh_push e h = h\<lparr>eh_pending_events := eh_pending_events h @ [e]\<rparr>"

fun endpoint_on_behaviour_event ::
  "endpoint_in_event \<Rightarrow> 'ss endpoint_handler \<Rightarrow> 'ss endpoint_handler \<times> 'ss effect list" where
  "endpoint_on_behaviour_event (EiDial dst_peer_id dst_addr connection_sender) h =
     (eh_push (OutboundSubstreamRequest (new_dial dst_peer_id dst_addr)
        (InfoDial connection_sender)) h, [Wake])"
| "endpoint_on_behaviour_event (EiListen listener_id local_peer_id local_addr) h =
     (eh_push (OutboundSubstreamRequest (new_listen local_peer_id local_addr)
        (InfoListen listener_id local_peer_id local_addr)) h, [Wake])"

text \<open>
  \<open>on_connection_event\<close>. A success whose kind does not fit its request is the source's
  \<open>unreachable!\<close>.
\<close>

fun endpoint_on_connection_event ::
  "'ss endpoint_connection_event \<Rightarrow> 'ss endpoint_handler \<Rightarrow>
     panic + 'ss endpoint_handler \<times> 'ss effect list" where
  "endpoint_on_connection_event (FullyNegotiatedInbound protocol) h =
     Inr (h\<lparr>eh_pending_inbound_upgrade_output := eh_pending_inbound_upgrade_output h @ [protocol]\<rparr>,
          [Wake])"
| "endpoint_on_connection_event (FullyNegotiatedOutbound protocol info) h =
     (case (protocol, info) of
        (Inl connection, InfoDial connection_sender) \<Rightarrow>
          Inr (eh_push (Custom (EoDialSuccess (eh_relay_peer_id h) connection connection_sender)) h,
               [Wake])
      | (Inr _, InfoListen listener_id local_peer_id listen_addr) \<Rightarrow>
          Inr (eh_push (Custom (EoListenSuccess (eh_relay_peer_id h) listener_id local_peer_id
                 listen_addr)) h, [Wake])
      | _ \<Rightarrow> Inl (Panic ''internal error: entered unreachable code''))"
| "endpoint_on_connection_event (AddressChange addr) h = Inr (h, [])"
| "endpoint_on_connection_event (DialUpgradeError info err) h =
     (case info of
        InfoDial connection_sender \<Rightarrow>
          Inr (eh_push (Custom (EoDialFailed (upgr_io_error err) (eh_relay_peer_id h)
                 connection_sender)) h, [Wake])
      | InfoListen listener_id local_peer_id listen_addr \<Rightarrow>
          Inr (eh_push (Custom (EoListenFailed (upgr_io_error err) (eh_relay_peer_id h) listener_id
                 local_peer_id listen_addr)) h, [Wake]))"
| "endpoint_on_connection_event (ListenUpgradeError err) h = Inr (h, [])"

section \<open>The handler is a queue with two lanes\<close>

datatype 'ss endpoint_handler_op =
    EhBehaviour endpoint_in_event
  | EhConnection "'ss endpoint_connection_event"

fun endpoint_handler_apply ::
  "'ss endpoint_handler_op \<Rightarrow> 'ss endpoint_handler \<Rightarrow>
     panic + 'ss endpoint_handler \<times> 'ss effect list" where
  "endpoint_handler_apply (EhBehaviour e) h = Inr (endpoint_on_behaviour_event e h)"
| "endpoint_handler_apply (EhConnection e) h = endpoint_on_connection_event e h"

text \<open>What \<open>poll\<close> will return, in order.\<close>

definition endpoint_handler_queue :: "'ss endpoint_handler \<Rightarrow> 'ss endpoint_handler_event list" where
  "endpoint_handler_queue h =
     map new_connection_event (eh_pending_inbound_upgrade_output h) @ eh_pending_events h"

text \<open>What each operation owes: one item, but for address changes and failed inbound upgrades.\<close>

fun endpoint_handler_owes ::
  "'ss endpoint_handler \<Rightarrow> 'ss endpoint_handler_op \<Rightarrow> 'ss endpoint_handler_event list" where
  "endpoint_handler_owes h (EhBehaviour (EiDial p a tx)) =
     [OutboundSubstreamRequest (OutDial p a) (InfoDial tx)]"
| "endpoint_handler_owes h (EhBehaviour (EiListen l p a)) =
     [OutboundSubstreamRequest (OutListen p a) (InfoListen l p a)]"
| "endpoint_handler_owes h (EhConnection (FullyNegotiatedInbound out)) = [new_connection_event out]"
| "endpoint_handler_owes h (EhConnection (FullyNegotiatedOutbound (Inl c) (InfoDial tx))) =
     [Custom (EoDialSuccess (eh_relay_peer_id h) c tx)]"
| "endpoint_handler_owes h (EhConnection (FullyNegotiatedOutbound (Inr u) (InfoListen l p a))) =
     [Custom (EoListenSuccess (eh_relay_peer_id h) l p a)]"
| "endpoint_handler_owes h (EhConnection (DialUpgradeError (InfoDial tx) e)) =
     [Custom (EoDialFailed (upgr_io_error e) (eh_relay_peer_id h) tx)]"
| "endpoint_handler_owes h (EhConnection (DialUpgradeError (InfoListen l p a) e)) =
     [Custom (EoListenFailed (upgr_io_error e) (eh_relay_peer_id h) l p a)]"
| "endpoint_handler_owes h op = []"

lemma endpoint_handler_apply_owes:
  assumes "endpoint_handler_apply op h = Inr (h', es)"
  shows "mset (endpoint_handler_queue h') =
      mset (endpoint_handler_queue h) + mset (endpoint_handler_owes h op)"
    and "endpoint_handler_owes h op \<noteq> [] \<Longrightarrow> Wake \<in> set es"
  using assms
  by (induction h op rule: endpoint_handler_owes.induct)
     (auto simp: endpoint_handler_queue_def eh_push_def new_dial_def new_listen_def)

interpretation endpoint_queue: woken_queue endpoint_handler_poll endpoint_handler_queue Register
    endpoint_handler_apply endpoint_handler_owes Wake
proof unfold_locales
  fix h :: "'ss endpoint_handler" and x :: "'ss endpoint_handler_event" and xs
  show "endpoint_handler_queue h = [] \<Longrightarrow> endpoint_handler_poll h = (h, [Register], Pending)"
    by (simp add: endpoint_handler_queue_def endpoint_handler_poll_def)
  show "endpoint_handler_queue h = x # xs \<Longrightarrow>
      \<exists>h'. endpoint_handler_poll h = (h', [], Ready x) \<and> endpoint_handler_queue h' = xs"
    by (auto simp: endpoint_handler_queue_def endpoint_handler_poll_def split: list.splits)
next
  fix op and h h' :: "'ss endpoint_handler" and es
  assume ap: "endpoint_handler_apply op h = Inr (h', es)"
  show "mset (endpoint_handler_queue h') =
      mset (endpoint_handler_queue h) + mset (endpoint_handler_owes h op)"
    by (rule endpoint_handler_apply_owes(1) [OF ap])
  show "endpoint_handler_owes h op \<noteq> [] \<Longrightarrow> Wake \<in> set es"
    by (rule endpoint_handler_apply_owes(2) [OF ap])
qed

text \<open>
  However the operations and the polls of an endpoint's handler interleave, what it has
  returned and what it still holds are together exactly what it was owed: one substream request
  per dial or listen, one outcome per request, carrying the sender or listener of that request,
  and one event per accepted connection.
\<close>

theorem endpoint_handler_nothing_lost:
  assumes "interleave endpoint_handler_poll endpoint_handler_apply endpoint_handler_owes acts
      (endpoint_into_handler i relay) = Inr (h', out, owed, es)"
  shows "mset owed = mset out + mset (map new_connection_event (eh_pending_inbound_upgrade_output h'))
     + mset (eh_pending_events h')"
proof -
  have "endpoint_handler_queue (endpoint_into_handler i relay :: 'a endpoint_handler) = []"
    by (simp add: endpoint_handler_queue_def endpoint_into_handler_def)
  with endpoint_queue.nothing_lost [OF assms] show ?thesis
    by (simp add: endpoint_handler_queue_def)
qed

theorem endpoint_handler_nothing_lost_witness:
  "mset [OutboundSubstreamRequest (OutDial (PeerId [1]) (Multiaddr [2])) (InfoDial (Oneshot 3)),
      Custom (EoDialSuccess (PeerId [9]) (new_connection (Multiaddr [2]) [] []) (Oneshot 3))
        :: bytes endpoint_handler_event]
   = mset [OutboundSubstreamRequest (OutDial (PeerId [1]) (Multiaddr [2])) (InfoDial (Oneshot 3))]
     + mset (map new_connection_event [])
     + mset [Custom (EoDialSuccess (PeerId [9]) (new_connection (Multiaddr [2]) [] []) (Oneshot 3))]"
proof -
  let ?c = "new_connection (Multiaddr [2]) [] [] :: bytes connection"
  let ?acts = "[OpAct (EhBehaviour (EiDial (PeerId [1]) (Multiaddr [2]) (Oneshot 3))), PollAct,
      OpAct (EhConnection (FullyNegotiatedOutbound (Inl ?c) (InfoDial (Oneshot 3))))]"
  obtain h' es where
    r: "interleave endpoint_handler_poll endpoint_handler_apply endpoint_handler_owes ?acts
      (endpoint_into_handler (endpoint_into_handler_new (PeerId [5])) (PeerId [9]))
      = Inr (h', [OutboundSubstreamRequest (OutDial (PeerId [1]) (Multiaddr [2])) (InfoDial (Oneshot 3))],
         [OutboundSubstreamRequest (OutDial (PeerId [1]) (Multiaddr [2])) (InfoDial (Oneshot 3)),
          Custom (EoDialSuccess (PeerId [9]) ?c (Oneshot 3))], es)"
    and "eh_pending_inbound_upgrade_output h' = []"
    and "eh_pending_events h' = [Custom (EoDialSuccess (PeerId [9]) ?c (Oneshot 3))]"
    by (simp add: endpoint_handler_poll_def endpoint_into_handler_def eh_push_def new_dial_def)
  with endpoint_handler_nothing_lost [OF r] show ?thesis
    by simp
qed

lemma endpoint_handler_no_lost_wakeup:
  assumes "snd (snd (endpoint_handler_poll h)) = Pending"
    and "interleave endpoint_handler_poll endpoint_handler_apply endpoint_handler_owes
      (map OpAct ops) (fst (endpoint_handler_poll h)) = Inr (h', out, owed, es)"
    and "snd (snd (endpoint_handler_poll h')) \<noteq> Pending"
  shows "Wake \<in> set es"
  using endpoint_queue.woken_before_ready [OF assms(1,2)] assms(3)
  by (simp add: endpoint_queue.pending_iff)

section \<open>The unreachable branch\<close>

text \<open>The outcomes the swarm can report for an outbound upgrade that succeeded.\<close>

definition outbound_outcome ::
  "lib \<Rightarrow> endpoint_outbound_upgrade \<Rightarrow> 'ss connection + unit \<Rightarrow> bool" where
  "outbound_outcome L u res \<longleftrightarrow>
     (case endpoint_upgrade_outbound L u of
        Inl t \<Rightarrow> \<exists>tr :: (_, _, 'ss) ev list. completes t tr (Inr (Inr res))
      | Inr t \<Rightarrow> \<exists>tr :: (_, _, 'ss) ev list. completes t tr (Inr (Inr res)))"

lemma outbound_outcome_dial: "outbound_outcome L (OutDial p a) res \<Longrightarrow> \<exists>c. res = Inl c"
  by (auto simp: outbound_outcome_def endpoint_dial_upgrade_def completes_bind completes_simps)

lemma outbound_outcome_listen: "outbound_outcome L (OutListen p a) res \<Longrightarrow> res = Inr ()"
  by (auto simp: outbound_outcome_def endpoint_listen_upgrade_def completes_bind completes_simps)

fun paired :: "'ss endpoint_handler_event \<Rightarrow> bool" where
  "paired (OutboundSubstreamRequest (OutDial p a) (InfoDial tx)) \<longleftrightarrow> True"
| "paired (OutboundSubstreamRequest (OutListen p a) (InfoListen l q b)) \<longleftrightarrow> p = q \<and> a = b"
| "paired (OutboundSubstreamRequest u i) \<longleftrightarrow> False"
| "paired (Custom e) \<longleftrightarrow> True"

lemma endpoint_handler_owes_paired: "e \<in> set (endpoint_handler_owes h op) \<Longrightarrow> paired e"
  by (induction h op rule: endpoint_handler_owes.induct) (auto simp: new_connection_event_def)

lemma interleave_queued_owed:
  "interleave endpoint_handler_poll endpoint_handler_apply endpoint_handler_owes acts h
     = Inr (h', out, owed, es) \<Longrightarrow> e \<in> set owed \<Longrightarrow> paired e"
proof (induction acts arbitrary: h out owed es)
  case Nil
  then show ?case by simp
next
  case (Cons a acts)
  then show ?case
    using endpoint_handler_owes_paired
    by (cases a) (fastforce split: sum.splits prod.splits)+
qed

text \<open>
  The handler's \<open>unreachable!\<close> is not reached: whatever substream request a handler has
  returned, every success that the requested upgrade can have is one that
  \<open>on_connection_event\<close> accepts together with the information of that request.
\<close>

theorem endpoint_handler_reachable_only:
  assumes "interleave endpoint_handler_poll endpoint_handler_apply endpoint_handler_owes acts
      (endpoint_into_handler i relay) = Inr (h, out, owed, es)"
    and "OutboundSubstreamRequest u info \<in> set out" and "outbound_outcome L u res"
  shows "\<exists>h' es'. endpoint_on_connection_event (FullyNegotiatedOutbound res info) h = Inr (h', es')"
proof -
  have "mset owed = mset out + mset (map new_connection_event (eh_pending_inbound_upgrade_output h))
      + mset (eh_pending_events h)"
    using endpoint_queue.nothing_lost [OF assms(1)]
    by (simp add: endpoint_handler_queue_def endpoint_into_handler_def)
  with assms(2) have "OutboundSubstreamRequest u info \<in> set owed"
    by (metis UnI1 set_mset_mset set_mset_union)
  from interleave_queued_owed [OF assms(1) this]
  have "(\<exists>p a tx. u = OutDial p a \<and> info = InfoDial tx) \<or>
      (\<exists>l p a. u = OutListen p a \<and> info = InfoListen l p a)"
    by (cases u; cases info) auto
  then show ?thesis
    using assms(3) outbound_outcome_dial outbound_outcome_listen by fastforce
qed

theorem endpoint_handler_reachable_only_witness:
  "\<exists>h' es'. endpoint_on_connection_event
      (FullyNegotiatedOutbound (Inl (new_connection (Multiaddr [2]) [8] [])) (InfoDial (Oneshot 3)))
      (endpoint_into_handler (endpoint_into_handler_new (PeerId [5])) (PeerId [9])
        :: bytes endpoint_handler) = Inr (h', es')"
proof -
  let ?u = "OutDial (PeerId [1]) (Multiaddr [2])"
  let ?acts = "[OpAct (EhBehaviour (EiDial (PeerId [1]) (Multiaddr [2]) (Oneshot 3))), PollAct]"
  let ?h = "endpoint_into_handler (endpoint_into_handler_new (PeerId [5])) (PeerId [9])
      :: bytes endpoint_handler"
  have r: "interleave endpoint_handler_poll endpoint_handler_apply endpoint_handler_owes ?acts ?h
      = Inr (?h, [OutboundSubstreamRequest ?u (InfoDial (Oneshot 3))],
         [OutboundSubstreamRequest ?u (InfoDial (Oneshot 3))], [Wake])"
    by (simp add: endpoint_handler_poll_def endpoint_into_handler_def eh_push_def new_dial_def)
  let ?tr = "[EvSend \<lparr>dial_peer_id = show_peer raw_lib (PeerId [1]),
        dial_addr = show_addr raw_lib (Multiaddr [2])\<rparr> (Inr ()),
      EvNext (Inr (Some (Some PbDialSuccess))), EvParts ([8], [])] :: (_, _, bytes) ev list"
  have "outbound_outcome raw_lib ?u (Inl (new_connection (Multiaddr [2]) [8] ([] :: bytes)))"
    by (simp add: outbound_outcome_def endpoint_dial_upgrade_def) (rule exI [of _ ?tr], simp)
  from endpoint_handler_reachable_only [OF r _ this] show ?thesis
    by simp
qed

end
