(* ===== verification/Endpoint_Behaviour.thy ===== *)
theory Endpoint_Behaviour
  imports Endpoint_Handler "HOL-Library.AList"
begin

text \<open>
  \<open>src/endpoint/behaviour.rs\<close>: the endpoint's behaviour. It takes dial and listen events from its
  transports, connects to the relay when there is no connection yet, passes the events to a
  handler of the relay, hands accepted connections to the listener they are for, and reports to
  the transports.

  The receiver from the transports is third-party: what it answers is an input of
  \<open>endpoint_poll\<close>. The senders are third-party too: \<open>'ls\<close> is a sender to a listener, \<open>'ts\<close> a
  sender to a transport, and their operations are \<open>sender_ops\<close> parameters. The two maps over
  relays that \<open>poll\<close> iterates over are association lists, in the order of the iteration, which
  the statements leave open.
\<close>

section \<open>State\<close>

type_synonym endpoint_action = "(endpoint_event, endpoint_into_connection_handler, endpoint_in_event) action"

record 'ss pending_new_connection =
  nc_listen_addr :: multiaddr
  nc_relay_peer_id :: peer_id
  nc_connection :: "'ss connection"

record 'ls listener_sender =
  ls_listener_id :: listener_id
  ls_sender :: 'ls

record ('ss, 'ls, 'ts) endpoint_behaviour =
  eb_peer_id :: peer_id
  eb_listeners :: "multiaddr \<rightharpoonup> 'ls listener_sender"
  eb_pending_new_connections :: "'ss pending_new_connection list"
  eb_pending_actions :: "endpoint_action list"
  eb_pending_to_transport :: "(peer_id \<times> behaviour_to_transport_event list) list"
  eb_to_transports :: "(peer_id \<times> 'ts) list"
  eb_established :: "peer_id \<rightharpoonup> connection_id set"
  eb_connecting :: "peer_id set"
  eb_wait :: "peer_id \<rightharpoonup> 'ls transport_to_behaviour_event list"
  eb_pending_t2b :: "'ls transport_to_behaviour_event list"

definition endpoint_behaviour_new ::
  "peer_id \<Rightarrow> (peer_id \<times> 'ts) list \<Rightarrow> ('ss, 'ls, 'ts) endpoint_behaviour" where
  "endpoint_behaviour_new peer_id to_transports =
     \<lparr>eb_peer_id = peer_id, eb_listeners = Map.empty, eb_pending_new_connections = [],
      eb_pending_actions = [],
      eb_pending_to_transport = map (\<lambda>(peer_id, sender). (peer_id, [])) to_transports,
      eb_to_transports = to_transports, eb_established = Map.empty, eb_connecting = {},
      eb_wait = Map.empty, eb_pending_t2b = []\<rparr>"

definition endpoint_new_handler :: "('ss, 'ls, 'ts) endpoint_behaviour \<Rightarrow> endpoint_into_connection_handler" where
  "endpoint_new_handler s = endpoint_into_handler_new (eb_peer_id s)"

text \<open>\<open>pending_to_transport.get_mut(relay)\<close> and \<open>push_back\<close> or \<open>extend\<close>; a relay that is not a key is
  only logged.\<close>

definition queue_to_transport ::
  "peer_id \<Rightarrow> behaviour_to_transport_event list \<Rightarrow> ('ss, 'ls, 'ts) endpoint_behaviour \<Rightarrow>
     ('ss, 'ls, 'ts) endpoint_behaviour" where
  "queue_to_transport relay evs s =
     s\<lparr>eb_pending_to_transport := AList.map_entry relay (\<lambda>q. q @ evs) (eb_pending_to_transport s)\<rparr>"

section \<open>Events from the swarm\<close>

text \<open>The message of a failed dial of the relay, per event that waited for it.\<close>

definition dial_failed_error :: "lib \<Rightarrow> peer_id \<Rightarrow> multiaddr \<Rightarrow> string \<Rightarrow> io_error" where
  "dial_failed_error L p a error =
     IoCustom KindOther (''dial '' @ show_peer L p @ '' '' @ show_addr L a @ '' failed: '' @ error)"

definition listen_failed_error :: "lib \<Rightarrow> peer_id \<Rightarrow> multiaddr \<Rightarrow> string \<Rightarrow> io_error" where
  "listen_failed_error L p a error =
     IoCustom KindOther (''listen '' @ show_peer L p @ '' '' @ show_addr L a @ '' failed: '' @ error)"

fun fail_waiting ::
  "lib \<Rightarrow> string \<Rightarrow> 'ls transport_to_behaviour_event \<Rightarrow>
     behaviour_to_transport_event \<times> 'ss effect list" where
  "fail_waiting L error (TDial dst_peer_id dst_addr relay_addr relay_peer_id connection_sender) =
     (BDialFailed (dial_failed_error L dst_peer_id dst_addr error) dst_peer_id dst_addr,
      [Answer connection_sender (Inl (dial_failed_error L dst_peer_id dst_addr error))])"
| "fail_waiting L error
     (TListen listener_id local_peer_id local_addr relay_peer_id relay_addr connection_sender) =
     (BListenFailed (listen_failed_error L local_peer_id local_addr error) listener_id local_addr, [])"

text \<open>
  The three swarm events the behaviour handles. In a dial failure the iterator over the waiting
  events is lazy: it is only consumed, and the senders only answered, where the queue to the
  transport is found and extended; otherwise the iterator is dropped with its events.
\<close>

fun drop_waiting :: "'ls transport_to_behaviour_event \<Rightarrow> 'ss effect list" where
  "drop_waiting (TDial dst_peer_id dst_addr relay_addr relay_peer_id connection_sender) =
     [DropSender connection_sender]"
| "drop_waiting
     (TListen listener_id local_peer_id local_addr relay_peer_id relay_addr connection_sender) = []"

fun endpoint_on_swarm_event ::
  "lib \<Rightarrow> from_swarm \<Rightarrow> ('ss, 'ls, 'ts) endpoint_behaviour \<Rightarrow>
     ('ss, 'ls, 'ts) endpoint_behaviour \<times> 'ss effect list" where
  "endpoint_on_swarm_event L (ConnectionEstablished peer_id connection_id addr) s =
     (if peer_id \<in> eb_connecting s then
        let s1 = s\<lparr>eb_connecting := eb_connecting s - {peer_id},
                   eb_established := (eb_established s)(peer_id \<mapsto>
                     insert connection_id (case eb_established s peer_id of
                       None \<Rightarrow> {} | Some ids \<Rightarrow> ids))\<rparr> in
        (case eb_wait s1 peer_id of
           None \<Rightarrow> (s1, [])
         | Some events \<Rightarrow>
             (s1\<lparr>eb_wait := (eb_wait s1)(peer_id := None),
                 eb_pending_t2b := eb_pending_t2b s1 @ events\<rparr>, [Wake]))
      else (s, []))"
| "endpoint_on_swarm_event L (ConnectionClosed peer_id connection_id addr) s =
     (let s1 = queue_to_transport peer_id [BPeerClosed peer_id addr connection_id] s in
      (case eb_established s1 peer_id of
         None \<Rightarrow> s1
       | Some ids \<Rightarrow>
           let ids' = ids - {connection_id} in
           s1\<lparr>eb_established := (if ids' = {} then (eb_established s1)(peer_id := None)
                                 else (eb_established s1)(peer_id \<mapsto> ids'))\<rparr>,
       [Wake]))"
| "endpoint_on_swarm_event L (DialFailure (Some peer_id) error) s =
     (case eb_wait s peer_id of
        None \<Rightarrow> (s, [])
      | Some events \<Rightarrow>
          let s1 = s\<lparr>eb_wait := (eb_wait s)(peer_id := None)\<rparr> in
          if map_of (eb_pending_to_transport s1) peer_id = None then
            (s1, concat (map drop_waiting events) @ [Wake])
          else
            (queue_to_transport peer_id
               (map (fst \<circ> (fail_waiting L error :: _ \<Rightarrow> _ \<times> 'ss effect list)) events) s1,
             concat (map (snd \<circ> fail_waiting L error) events) @ [Wake]))"
| "endpoint_on_swarm_event L (DialFailure None error) s = (s, [])"
| "endpoint_on_swarm_event L SwarmAddressChange s = (s, [])"
| "endpoint_on_swarm_event L ListenFailure s = (s, [])"
| "endpoint_on_swarm_event L NewListener s = (s, [])"
| "endpoint_on_swarm_event L NewListenAddr s = (s, [])"
| "endpoint_on_swarm_event L ExpiredListenAddr s = (s, [])"
| "endpoint_on_swarm_event L ListenerError s = (s, [])"
| "endpoint_on_swarm_event L ListenerClosed s = (s, [])"
| "endpoint_on_swarm_event L NewExternalAddr s = (s, [])"
| "endpoint_on_swarm_event L ExpiredExternalAddr s = (s, [])"

section \<open>Events from the handlers\<close>

fun endpoint_on_handler_event ::
  "'ss endpoint_out_event \<Rightarrow> ('ss, 'ls, 'ts) endpoint_behaviour \<Rightarrow>
     ('ss, 'ls, 'ts) endpoint_behaviour \<times> 'ss effect list" where
  "endpoint_on_handler_event (EoNewConnection relay_peer_id listen_addr connection) s =
     (s\<lparr>eb_pending_new_connections := eb_pending_new_connections s @
          [\<lparr>nc_listen_addr = listen_addr, nc_relay_peer_id = relay_peer_id,
            nc_connection = connection\<rparr>]\<rparr>, [Wake])"
| "endpoint_on_handler_event (EoError err) s =
     (s\<lparr>eb_pending_actions := eb_pending_actions s @ [GenerateEvent (OtherError err)]\<rparr>, [Wake])"
| "endpoint_on_handler_event (EoDialSuccess relay_peer_id connection sender) s =
     (s, [Answer sender (Inr connection)])"
| "endpoint_on_handler_event (EoListenSuccess relay_peer_id listener_id local_peer_id listen_addr) s =
     (queue_to_transport relay_peer_id [BListenSuccess listener_id listen_addr] s, [Wake])"
| "endpoint_on_handler_event (EoDialFailed err relay_peer_id sender) s =
     (s, [Answer sender (Inl err)])"
| "endpoint_on_handler_event (EoListenFailed err relay_peer_id listener_id local_peer_id listen_addr) s =
     (queue_to_transport relay_peer_id [BListenFailed err listener_id listen_addr] s, [Wake])"

section \<open>Polling\<close>

text \<open>
  The first part of \<open>poll\<close> picks the next event that a handler can take. An event whose relay is
  not connected waits; if the relay is not being dialed either, \<open>poll\<close> returns the dial.
\<close>

definition endpoint_next_event ::
  "'ls transport_to_behaviour_event option poll \<Rightarrow> ('ss, 'ls, 'ts) endpoint_behaviour \<Rightarrow>
     ('ss, 'ls, 'ts) endpoint_behaviour \<times>
     (endpoint_action + 'ls transport_to_behaviour_event option)" where
  "endpoint_next_event recv s =
     (case recv of
        Ready (Some event) \<Rightarrow>
          (let relay_peer_id = t2b_relay_peer_id event; relay_addr = t2b_relay_addr event in
           if eb_established s relay_peer_id = None then
             let s1 = s\<lparr>eb_wait := (eb_wait s)(relay_peer_id \<mapsto>
                        (case eb_wait s relay_peer_id of None \<Rightarrow> [] | Some evs \<Rightarrow> evs) @ [event])\<rparr> in
             if relay_peer_id \<notin> eb_connecting s1 then
               (s1\<lparr>eb_connecting := insert relay_peer_id (eb_connecting s1)\<rparr>,
                Inl (DialPeer relay_peer_id [relay_addr] (endpoint_new_handler s1)))
             else (s1, Inr None)
           else (s, Inr (Some event)))
      | _ \<Rightarrow>
          (case eb_pending_t2b s of
             [] \<Rightarrow> (s, Inr None)
           | event # events \<Rightarrow> (s\<lparr>eb_pending_t2b := events\<rparr>, Inr (Some event))))"

text \<open>The event is passed to a handler of its relay; a listen is remembered with its sender.\<close>

fun endpoint_dispatch ::
  "'ls transport_to_behaviour_event \<Rightarrow> ('ss, 'ls, 'ts) endpoint_behaviour \<Rightarrow>
     ('ss, 'ls, 'ts) endpoint_behaviour \<times> endpoint_action" where
  "endpoint_dispatch (TDial dst_peer_id dst_addr relay_addr relay_peer_id connection_sender) s =
     (s, NotifyHandler relay_peer_id (EiDial dst_peer_id dst_addr connection_sender))"
| "endpoint_dispatch
     (TListen listener_id local_peer_id local_addr relay_peer_id relay_addr connection_sender) s =
     (s\<lparr>eb_listeners := (eb_listeners s)(local_addr \<mapsto>
          \<lparr>ls_listener_id = listener_id, ls_sender = connection_sender\<rparr>)\<rparr>,
      NotifyHandler relay_peer_id (EiListen listener_id local_peer_id local_addr))"

text \<open>What one round of the loop over new connections does.\<close>

datatype 'ls offer = OfferPending 'ls | OfferClosed 'ls | OfferTaken 'ls

text \<open>The calls on the listener's sender: \<open>poll_ready\<close>, \<open>start_send\<close>, \<open>poll_flush\<close>.\<close>

definition offer_connection ::
  "('ls, io_error + 'ss connection) sender_ops \<Rightarrow> 'ls \<Rightarrow> 'ss connection \<Rightarrow> 'ls offer" where
  "offer_connection lops sender connection =
     (case tx_poll_ready lops sender of
        (Pending, s1) \<Rightarrow> OfferPending s1
      | (Ready (Inl _), s1) \<Rightarrow> OfferClosed s1
      | (Ready (Inr _), s1) \<Rightarrow>
          (case tx_start_send lops s1 (Inr connection) of
             (Inl _, s2) \<Rightarrow> OfferClosed s2
           | (Inr _, s2) \<Rightarrow>
               (case tx_poll_flush lops s2 of
                  (Ready (Inl _), s3) \<Rightarrow> OfferClosed s3
                | (_, s3) \<Rightarrow> OfferTaken s3)))"

definition set_listener_sender ::
  "multiaddr \<Rightarrow> 'ls \<Rightarrow> ('ss, 'ls, 'ts) endpoint_behaviour \<Rightarrow> ('ss, 'ls, 'ts) endpoint_behaviour" where
  "set_listener_sender a tx s =
     s\<lparr>eb_listeners := (eb_listeners s)(a :=
          map_option (\<lambda>l. l\<lparr>ls_sender := tx\<rparr>) (eb_listeners s a))\<rparr>"

text \<open>
  The loop over the queue of new connections. It stops at the first connection for an address
  nobody listens on, or whose listener is gone (\<open>poll\<close> returns the event; the connection is
  dropped), or whose listener is not ready (the connection goes back to the front). A connection
  that was taken is reported to the transport of the relay it came through; no queue for that
  relay is a panic.
\<close>

fun endpoint_new_connections ::
  "lib \<Rightarrow> ('ls, io_error + 'ss connection) sender_ops \<Rightarrow> 'ss pending_new_connection list \<Rightarrow>
     ('ss, 'ls, 'ts) endpoint_behaviour \<Rightarrow>
     panic + ('ss, 'ls, 'ts) endpoint_behaviour \<times> endpoint_action option" where
  "endpoint_new_connections L lops [] s = Inr (s\<lparr>eb_pending_new_connections := []\<rparr>, None)"
| "endpoint_new_connections L lops (nc # ncs) s =
     (case eb_listeners s (nc_listen_addr nc) of
        None \<Rightarrow>
          Inr (s\<lparr>eb_pending_new_connections := ncs\<rparr>,
               Some (GenerateEvent (UnexpectedConnection (nc_listen_addr nc))))
      | Some l \<Rightarrow>
          (case offer_connection lops (ls_sender l) (nc_connection nc) of
             OfferPending tx \<Rightarrow>
               Inr (set_listener_sender (nc_listen_addr nc) tx
                      (s\<lparr>eb_pending_new_connections := nc # ncs\<rparr>), None)
           | OfferClosed tx \<Rightarrow>
               Inr (set_listener_sender (nc_listen_addr nc) tx
                      (s\<lparr>eb_pending_new_connections := ncs\<rparr>),
                    Some (GenerateEvent (EndpointListenerClosed (nc_listen_addr nc))))
           | OfferTaken tx \<Rightarrow>
               (if map_of (eb_pending_to_transport s) (nc_relay_peer_id nc) = None then
                  Inl (Panic (''relay peer '' @ show_peer L (nc_relay_peer_id nc) @
                    '' pending to transport event queue not found''))
                else
                  endpoint_new_connections L lops ncs
                    (queue_to_transport (nc_relay_peer_id nc)
                       [BListenSuccess (ls_listener_id l) (nc_listen_addr nc)]
                       (set_listener_sender (nc_listen_addr nc) tx s)))))"

text \<open>The inner loop over one relay's queue: what is left of it, or how its transport failed.\<close>

datatype 'ts flushed =
    FlushGoOn 'ts "behaviour_to_transport_event list"
  | FlushNotReady
  | FlushSendFailed 'ts "behaviour_to_transport_event list"

fun flush_queue ::
  "('ts, behaviour_to_transport_event) sender_ops \<Rightarrow> 'ts \<Rightarrow> behaviour_to_transport_event list \<Rightarrow>
     'ts flushed" where
  "flush_queue tops tx [] = FlushGoOn tx []"
| "flush_queue tops tx (event # events) =
     (case tx_poll_ready tops tx of
        (Pending, s1) \<Rightarrow> FlushGoOn s1 (event # events)
      | (Ready (Inl _), s1) \<Rightarrow> FlushNotReady
      | (Ready (Inr _), s1) \<Rightarrow>
          (case tx_start_send tops s1 event of
             (Inl _, s2) \<Rightarrow> FlushSendFailed s2 events
           | (Inr _, s2) \<Rightarrow> flush_queue tops s2 events))"

text \<open>The outer loop, over the entries of \<open>pending_to_transport\<close>.\<close>

fun flush_transports ::
  "lib \<Rightarrow> ('ts, behaviour_to_transport_event) sender_ops \<Rightarrow>
     (peer_id \<times> behaviour_to_transport_event list) list \<Rightarrow> ('ss, 'ls, 'ts) endpoint_behaviour \<Rightarrow>
     panic + ('ss, 'ls, 'ts) endpoint_behaviour \<times> endpoint_action option" where
  "flush_transports L tops [] s = Inr (s, None)"
| "flush_transports L tops ((relay, queue) # entries) s =
     (case map_of (eb_to_transports s) relay of
        None \<Rightarrow> Inl (Panic (''relay peer '' @ show_peer L relay @ '' to transport sender not found''))
      | Some tx \<Rightarrow>
          (case flush_queue tops tx queue of
             FlushGoOn tx' queue' \<Rightarrow>
               flush_transports L tops entries
                 (s\<lparr>eb_to_transports := AList.update relay tx' (eb_to_transports s),
                    eb_pending_to_transport :=
                      AList.update relay queue' (eb_pending_to_transport s)\<rparr>)
           | FlushNotReady \<Rightarrow>
               Inr (s\<lparr>eb_pending_to_transport := AList.delete relay (eb_pending_to_transport s),
                      eb_to_transports := AList.delete relay (eb_to_transports s)\<rparr>,
                    Some (GenerateEvent UnexpectedTransportDropped))
           | FlushSendFailed tx' queue' \<Rightarrow>
               Inr (s\<lparr>eb_to_transports := AList.update relay tx' (eb_to_transports s),
                      eb_pending_to_transport :=
                        AList.update relay queue' (eb_pending_to_transport s)\<rparr>,
                    Some (GenerateEvent UnexpectedTransportDropped))))"

text \<open>The last part of \<open>poll\<close>: queued actions, or register and wait.\<close>

definition endpoint_poll_actions ::
  "('ss, 'ls, 'ts) endpoint_behaviour \<Rightarrow>
     ('ss, 'ls, 'ts) endpoint_behaviour \<times> 'ss effect list \<times> endpoint_action poll" where
  "endpoint_poll_actions s =
     (case eb_pending_actions s of
        action # actions \<Rightarrow> (s\<lparr>eb_pending_actions := actions\<rparr>, [], Ready action)
      | [] \<Rightarrow> (s, [Register], Pending))"

definition endpoint_poll ::
  "lib \<Rightarrow> ('ls, io_error + 'ss connection) sender_ops \<Rightarrow>
     ('ts, behaviour_to_transport_event) sender_ops \<Rightarrow>
     'ls transport_to_behaviour_event option poll \<Rightarrow> ('ss, 'ls, 'ts) endpoint_behaviour \<Rightarrow>
     panic + ('ss, 'ls, 'ts) endpoint_behaviour \<times> 'ss effect list \<times> endpoint_action poll" where
  "endpoint_poll L lops tops recv s =
     (case endpoint_next_event recv s of
        (s1, Inl action) \<Rightarrow> Inr (s1, [], Ready action)
      | (s1, Inr (Some event)) \<Rightarrow>
          (case endpoint_dispatch event s1 of (s2, action) \<Rightarrow> Inr (s2, [], Ready action))
      | (s1, Inr None) \<Rightarrow>
          (case endpoint_new_connections L lops (eb_pending_new_connections s1) s1 of
             Inl p \<Rightarrow> Inl p
           | Inr (s2, Some action) \<Rightarrow> Inr (s2, [], Ready action)
           | Inr (s2, None) \<Rightarrow>
               (case flush_transports L tops (eb_pending_to_transport s2) s2 of
                  Inl p \<Rightarrow> Inl p
                | Inr (s3, Some action) \<Rightarrow> Inr (s3, [], Ready action)
                | Inr (s3, None) \<Rightarrow> Inr (endpoint_poll_actions s3))))"

section \<open>The behaviour as a machine\<close>

datatype ('ss, 'ls) endpoint_input =
    EbPoll "'ls transport_to_behaviour_event option poll"
  | EbHandler peer_id connection_id "'ss endpoint_out_event"
  | EbSwarm from_swarm

fun endpoint_step ::
  "lib \<Rightarrow> ('ls, io_error + 'ss connection) sender_ops \<Rightarrow>
     ('ts, behaviour_to_transport_event) sender_ops \<Rightarrow> ('ss, 'ls) endpoint_input \<Rightarrow>
     ('ss, 'ls, 'ts) endpoint_behaviour \<Rightarrow>
     panic + ('ss, 'ls, 'ts) endpoint_behaviour \<times> ('ss, endpoint_action) emission list" where
  "endpoint_step L lops tops (EbPoll recv) s =
     (case endpoint_poll L lops tops recv s of
        Inl p \<Rightarrow> Inl p
      | Inr (s', es, r) \<Rightarrow>
          Inr (s', map Effect es @ (case r of Pending \<Rightarrow> [] | Ready a \<Rightarrow> [Emit a])))"
| "endpoint_step L lops tops (EbHandler p c e) s =
     (case endpoint_on_handler_event e s of (s', es) \<Rightarrow> Inr (s', map Effect es))"
| "endpoint_step L lops tops (EbSwarm e) s =
     (case endpoint_on_swarm_event L e s of (s', es) \<Rightarrow> Inr (s', map Effect es))"

text \<open>
  The well-formedness of the state: a relay is dialed or connected but not both; events wait only
  for a relay that is being dialed; a relay counts as connected only with a connection; and the
  two maps over relays have the same keys.
\<close>

definition endpoint_keys :: "('ss, 'ls, 'ts) endpoint_behaviour \<Rightarrow> bool" where
  "endpoint_keys s \<longleftrightarrow> map fst (eb_pending_to_transport s) = map fst (eb_to_transports s) \<and>
     distinct (map fst (eb_to_transports s))"

definition endpoint_relays :: "('ss, 'ls, 'ts) endpoint_behaviour \<Rightarrow> bool" where
  "endpoint_relays s \<longleftrightarrow>
     finite (dom (eb_wait s)) \<and>
     (\<forall>p evs. eb_wait s p = Some evs \<longrightarrow>
        p \<in> eb_connecting s \<and> (\<forall>e\<in>set evs. t2b_relay_peer_id e = p)) \<and>
     (\<forall>p ids. eb_established s p = Some ids \<longrightarrow> p \<notin> eb_connecting s) \<and>
     (\<forall>p. eb_established s p \<noteq> Some {})"

definition endpoint_inv :: "('ss, 'ls, 'ts) endpoint_behaviour \<Rightarrow> bool" where
  "endpoint_inv s \<longleftrightarrow> endpoint_keys s \<and> endpoint_relays s"

lemma endpoint_inv_new:
  "distinct (map fst tts) \<Longrightarrow> endpoint_inv (endpoint_behaviour_new p tts)"
  by (simp add: endpoint_inv_def endpoint_keys_def endpoint_relays_def endpoint_behaviour_new_def
      comp_def split_def)

section \<open>The invariant\<close>

lemma map_fst_map_entry [simp]: "map fst (AList.map_entry k f xs) = map fst xs"
  by (induction xs) auto

lemma map_of_None_keys: "map fst xs = map fst ys \<Longrightarrow> map_of xs k = None \<longleftrightarrow> map_of ys k = None"
  by (simp add: map_of_eq_None_iff flip: set_map)

lemma queue_to_transport_fields [simp]:
  "eb_peer_id (queue_to_transport r evs s) = eb_peer_id s"
  "eb_listeners (queue_to_transport r evs s) = eb_listeners s"
  "eb_pending_new_connections (queue_to_transport r evs s) = eb_pending_new_connections s"
  "eb_pending_actions (queue_to_transport r evs s) = eb_pending_actions s"
  "map fst (eb_pending_to_transport (queue_to_transport r evs s)) =
     map fst (eb_pending_to_transport s)"
  "eb_to_transports (queue_to_transport r evs s) = eb_to_transports s"
  "eb_established (queue_to_transport r evs s) = eb_established s"
  "eb_connecting (queue_to_transport r evs s) = eb_connecting s"
  "eb_wait (queue_to_transport r evs s) = eb_wait s"
  "eb_pending_t2b (queue_to_transport r evs s) = eb_pending_t2b s"
  by (simp_all add: queue_to_transport_def)

lemma set_listener_sender_fields [simp]:
  "eb_peer_id (set_listener_sender a tx s) = eb_peer_id s"
  "eb_pending_new_connections (set_listener_sender a tx s) = eb_pending_new_connections s"
  "eb_pending_actions (set_listener_sender a tx s) = eb_pending_actions s"
  "eb_pending_to_transport (set_listener_sender a tx s) = eb_pending_to_transport s"
  "eb_to_transports (set_listener_sender a tx s) = eb_to_transports s"
  "eb_established (set_listener_sender a tx s) = eb_established s"
  "eb_connecting (set_listener_sender a tx s) = eb_connecting s"
  "eb_wait (set_listener_sender a tx s) = eb_wait s"
  "eb_pending_t2b (set_listener_sender a tx s) = eb_pending_t2b s"
  by (simp_all add: set_listener_sender_def)

text \<open>What the two loops leave alone.\<close>

lemma endpoint_new_connections_frame:
  "endpoint_new_connections L lops ncs s = Inr (s', act) \<Longrightarrow>
     eb_established s' = eb_established s \<and> eb_connecting s' = eb_connecting s \<and>
     eb_wait s' = eb_wait s \<and> eb_pending_t2b s' = eb_pending_t2b s \<and>
     eb_pending_actions s' = eb_pending_actions s \<and> eb_to_transports s' = eb_to_transports s \<and>
     map fst (eb_pending_to_transport s') = map fst (eb_pending_to_transport s)"
proof (induction ncs arbitrary: s)
  case Nil
  then show ?case by auto
next
  case (Cons nc ncs)
  show ?case
  proof (cases "eb_listeners s (nc_listen_addr nc)")
    case None
    with Cons.prems show ?thesis by auto
  next
    case (Some l)
    show ?thesis
    proof (cases "offer_connection lops (ls_sender l) (nc_connection nc)")
      case (OfferTaken tx)
      with Cons.prems Some Cons.IH show ?thesis
        by (fastforce split: if_splits)
    qed (use Cons.prems Some in auto)
  qed
qed

lemma flush_transports_frame:
  "flush_transports L tops entries s = Inr (s', act) \<Longrightarrow>
     eb_established s' = eb_established s \<and> eb_connecting s' = eb_connecting s \<and>
     eb_wait s' = eb_wait s \<and> eb_pending_t2b s' = eb_pending_t2b s \<and>
     eb_pending_actions s' = eb_pending_actions s \<and> eb_listeners s' = eb_listeners s \<and>
     eb_pending_new_connections s' = eb_pending_new_connections s"
proof (induction L tops entries s rule: flush_transports.induct)
  case (1 L tops s)
  then show ?case by simp
next
  case (2 L tops relay queue entries s)
  then show ?case
    by (auto split: option.splits flushed.splits)
qed

lemma endpoint_relays_frame:
  assumes "eb_established s' = eb_established s" and "eb_connecting s' = eb_connecting s"
    and "eb_wait s' = eb_wait s"
  shows "endpoint_relays s' \<longleftrightarrow> endpoint_relays s"
  using assms by (simp add: endpoint_relays_def)

lemma endpoint_keys_update:
  assumes "endpoint_keys s" and "relay \<in> fst ` set (eb_to_transports s)"
  shows "endpoint_keys (s\<lparr>eb_to_transports := AList.update relay tx (eb_to_transports s),
    eb_pending_to_transport := AList.update relay q (eb_pending_to_transport s)\<rparr>)"
proof -
  have "relay \<in> set (map fst (eb_pending_to_transport s))"
    using assms by (simp add: endpoint_keys_def)
  then show ?thesis
    using assms by (simp add: endpoint_keys_def AList.update_keys)
qed

lemma endpoint_keys_delete:
  "endpoint_keys s \<Longrightarrow>
     endpoint_keys (s\<lparr>eb_pending_to_transport := AList.delete relay (eb_pending_to_transport s),
       eb_to_transports := AList.delete relay (eb_to_transports s)\<rparr>)"
  by (simp add: endpoint_keys_def AList.delete_keys distinct_removeAll)

lemma flush_transports_keys:
  assumes "endpoint_keys s" and "fst ` set entries \<subseteq> fst ` set (eb_to_transports s)"
  shows "\<exists>s' act. flush_transports L tops entries s = Inr (s', act) \<and> endpoint_keys s'"
  using assms
proof (induction L tops entries s rule: flush_transports.induct)
  case (1 L tops s)
  then show ?case by simp
next
  case (2 L tops relay queue entries s)
  from "2.prems"(2) obtain tx where tx: "map_of (eb_to_transports s) relay = Some tx"
    by (metis fst_conv image_eqI insert_subset list.simps(15) image_insert map_of_eq_None_iff
        option.exhaust)
  have relay: "relay \<in> fst ` set (eb_to_transports s)"
    using "2.prems"(2) by simp
  show ?case
  proof (cases "flush_queue tops tx queue")
    case (FlushGoOn tx' queue')
    let ?s = "s\<lparr>eb_to_transports := AList.update relay tx' (eb_to_transports s),
      eb_pending_to_transport := AList.update relay queue' (eb_pending_to_transport s)\<rparr>"
    have "endpoint_keys ?s"
      by (rule endpoint_keys_update [OF "2.prems"(1) relay])
    moreover have "fst ` set entries \<subseteq> fst ` set (eb_to_transports ?s)"
      using "2.prems"(2) by (auto simp: AList.dom_update)
    ultimately show ?thesis
      using "2.IH" [OF tx FlushGoOn] tx FlushGoOn by simp
  next
    case FlushNotReady
    with tx endpoint_keys_delete [OF "2.prems"(1)] show ?thesis by simp
  next
    case (FlushSendFailed tx' queue')
    with tx endpoint_keys_update [OF "2.prems"(1) relay] show ?thesis by simp
  qed
qed

lemma endpoint_new_connections_keys:
  assumes "endpoint_new_connections L lops ncs s = Inr (s', act)" and "endpoint_keys s"
  shows "endpoint_keys s'"
  using endpoint_new_connections_frame [OF assms(1)] assms(2) by (simp add: endpoint_keys_def)

lemma endpoint_next_event_keys:
  "endpoint_next_event recv s = (s', r) \<Longrightarrow> endpoint_keys s' \<longleftrightarrow> endpoint_keys s"
  by (auto simp: endpoint_next_event_def Let_def endpoint_keys_def
      split: poll.splits option.splits list.splits if_splits)

lemma endpoint_next_event_none:
  assumes "endpoint_next_event recv s = (s', r)" and "\<And>event. recv \<noteq> Ready (Some event)"
  shows "(\<exists>event. eb_pending_t2b s = event # eb_pending_t2b s' \<and> r = Inr (Some event) \<and>
      s' = s\<lparr>eb_pending_t2b := eb_pending_t2b s'\<rparr>) \<or> eb_pending_t2b s = [] \<and> s' = s \<and> r = Inr None"
  using assms
  by (auto simp: endpoint_next_event_def split: poll.splits option.splits list.splits)

lemma endpoint_next_event_relays:
  assumes "endpoint_next_event recv s = (s', r)" and "endpoint_relays s"
  shows "endpoint_relays s'"
proof (cases "\<exists>event. recv = Ready (Some event)")
  case False
  with endpoint_next_event_none [OF assms(1)]
  have "eb_established s' = eb_established s \<and> eb_connecting s' = eb_connecting s \<and>
      eb_wait s' = eb_wait s"
    by (metis endpoint_behaviour.select_convs(7-9) endpoint_behaviour.surjective
        endpoint_behaviour.update_convs(10))
  with assms(2) endpoint_relays_frame show ?thesis by blast
next
  case True
  then obtain event where recv: "recv = Ready (Some event)"
    by blast
  show ?thesis
  proof (cases "eb_established s (t2b_relay_peer_id event)")
    case None
    with recv assms show ?thesis
      by (cases "eb_wait s (t2b_relay_peer_id event)")
         (auto simp: endpoint_next_event_def Let_def endpoint_relays_def split: if_splits)
  next
    case (Some ids)
    with recv assms show ?thesis
      by (simp add: endpoint_next_event_def Let_def)
  qed
qed

lemma endpoint_dispatch_frame:
  "endpoint_dispatch event s = (s', a) \<Longrightarrow>
     eb_established s' = eb_established s \<and> eb_connecting s' = eb_connecting s \<and>
     eb_wait s' = eb_wait s \<and> eb_pending_t2b s' = eb_pending_t2b s \<and>
     eb_pending_to_transport s' = eb_pending_to_transport s \<and>
     eb_to_transports s' = eb_to_transports s \<and>
     eb_pending_actions s' = eb_pending_actions s \<and>
     eb_pending_new_connections s' = eb_pending_new_connections s"
  by (cases event) auto

lemma endpoint_dispatch_action:
  "endpoint_dispatch event s = (s', a) \<Longrightarrow> \<exists>e. a = NotifyHandler (t2b_relay_peer_id event) e"
  by (cases event) auto

text \<open>The ways a poll can end.\<close>

lemma endpoint_poll_cases:
  assumes "endpoint_poll L lops tops recv s = Inr (s', es, r)"
  obtains (dial) a where "endpoint_next_event recv s = (s', Inl a)" "es = []" "r = Ready a"
  | (dispatch) event s1 a where "endpoint_next_event recv s = (s1, Inr (Some event))"
      "endpoint_dispatch event s1 = (s', a)" "es = []" "r = Ready a"
  | (offer) s1 a where "endpoint_next_event recv s = (s1, Inr None)"
      "endpoint_new_connections L lops (eb_pending_new_connections s1) s1 = Inr (s', Some a)"
      "es = []" "r = Ready a"
  | (flush) s1 s2 a where "endpoint_next_event recv s = (s1, Inr None)"
      "endpoint_new_connections L lops (eb_pending_new_connections s1) s1 = Inr (s2, None)"
      "flush_transports L tops (eb_pending_to_transport s2) s2 = Inr (s', Some a)"
      "es = []" "r = Ready a"
  | (actions) s1 s2 s3 where "endpoint_next_event recv s = (s1, Inr None)"
      "endpoint_new_connections L lops (eb_pending_new_connections s1) s1 = Inr (s2, None)"
      "flush_transports L tops (eb_pending_to_transport s2) s2 = Inr (s3, None)"
      "endpoint_poll_actions s3 = (s', es, r)"
  using assms
  by (auto simp: endpoint_poll_def split: prod.splits sum.splits option.splits)

lemma endpoint_poll_inv:
  assumes inv: "endpoint_inv s" and poll: "endpoint_poll L lops tops recv s = Inr (s', es, r)"
  shows "endpoint_inv s'"
proof -
  have next_inv: "endpoint_inv s1" if "endpoint_next_event recv s = (s1, x)" for s1 x
    using that inv endpoint_next_event_relays [OF that] endpoint_next_event_keys [OF that]
    by (simp add: endpoint_inv_def)
  have new_inv: "endpoint_inv s2"
    if "endpoint_inv s1" "endpoint_new_connections L lops ncs s1 = Inr (s2, act)" for s1 s2 ncs act
    using that endpoint_new_connections_frame [OF that(2)] endpoint_new_connections_keys [OF that(2)]
      endpoint_relays_frame [of s2 s1]
    by (simp add: endpoint_inv_def)
  have flush_inv: "endpoint_inv s3"
    if "endpoint_inv s2" "flush_transports L tops (eb_pending_to_transport s2) s2 = Inr (s3, act)"
    for s2 s3 act
  proof -
    have "fst ` set (eb_pending_to_transport s2) = fst ` set (eb_to_transports s2)"
      using that(1) by (metis endpoint_inv_def endpoint_keys_def set_map)
    with that flush_transports_keys [of s2 "eb_pending_to_transport s2" L tops]
      flush_transports_frame [OF that(2)] endpoint_relays_frame [of s3 s2]
    show ?thesis
      by (auto simp: endpoint_inv_def)
  qed
  from poll show ?thesis
  proof (cases rule: endpoint_poll_cases)
    case (dial a)
    with next_inv show ?thesis by blast
  next
    case (dispatch event s1 a)
    with next_inv endpoint_dispatch_frame [OF dispatch(2)] endpoint_relays_frame [of s' s1]
    show ?thesis by (simp add: endpoint_inv_def endpoint_keys_def)
  next
    case (offer s1 a)
    with next_inv new_inv show ?thesis by blast
  next
    case (flush s1 s2 a)
    with next_inv new_inv flush_inv show ?thesis by blast
  next
    case (actions s1 s2 s3)
    then have "endpoint_inv s3"
      using next_inv new_inv flush_inv by blast
    with actions(4) endpoint_relays_frame [of s' s3] show ?thesis
      by (auto simp: endpoint_poll_actions_def endpoint_inv_def endpoint_keys_def split: list.splits)
  qed
qed

lemma endpoint_keys_frame:
  assumes "map fst (eb_pending_to_transport s') = map fst (eb_pending_to_transport s)"
    and "eb_to_transports s' = eb_to_transports s"
  shows "endpoint_keys s' \<longleftrightarrow> endpoint_keys s"
  using assms by (simp add: endpoint_keys_def)

lemma endpoint_on_handler_event_frame:
  "endpoint_on_handler_event e s = (s', es) \<Longrightarrow>
     eb_established s' = eb_established s \<and> eb_connecting s' = eb_connecting s \<and>
     eb_wait s' = eb_wait s \<and> eb_pending_t2b s' = eb_pending_t2b s \<and>
     eb_listeners s' = eb_listeners s \<and> eb_to_transports s' = eb_to_transports s \<and>
     map fst (eb_pending_to_transport s') = map fst (eb_pending_to_transport s)"
  by (cases e) auto

lemma endpoint_on_swarm_event_keys:
  "endpoint_on_swarm_event L e s = (s', es) \<Longrightarrow>
     map fst (eb_pending_to_transport s') = map fst (eb_pending_to_transport s) \<and>
     eb_to_transports s' = eb_to_transports s"
  by (induction L e s rule: endpoint_on_swarm_event.induct)
     (auto simp: Let_def split: if_splits option.splits)

lemma endpoint_on_swarm_event_relays:
  "endpoint_relays s \<Longrightarrow> endpoint_on_swarm_event L e s = (s', es) \<Longrightarrow> endpoint_relays s'"
proof (induction L e s rule: endpoint_on_swarm_event.induct)
  case (1 L peer_id connection_id addr s)
  then show ?case
    by (auto simp: endpoint_relays_def Let_def split: if_splits option.splits)
next
  case (2 L peer_id connection_id addr s)
  then show ?case
    by (auto simp: endpoint_relays_def Let_def split: if_splits option.splits)
next
  case (3 L peer_id error s)
  then show ?case
    by (auto simp: endpoint_relays_def Let_def split: if_splits option.splits)
qed simp_all

lemma endpoint_step_inv:
  assumes inv: "endpoint_inv s" and st: "endpoint_step L lops tops i s = Inr (s', os)"
  shows "endpoint_inv s'"
proof (cases i)
  case (EbPoll recv)
  with st obtain es r where "endpoint_poll L lops tops recv s = Inr (s', es, r)"
    by (auto split: sum.splits prod.splits)
  with inv endpoint_poll_inv show ?thesis by blast
next
  case (EbHandler p c e)
  with st obtain es where h: "endpoint_on_handler_event e s = (s', es)"
    by (auto split: prod.splits)
  from endpoint_on_handler_event_frame [OF h] inv endpoint_relays_frame [of s' s]
    endpoint_keys_frame [of s' s]
  show ?thesis by (simp add: endpoint_inv_def)
next
  case (EbSwarm e)
  with st obtain es where h: "endpoint_on_swarm_event L e s = (s', es)"
    by (auto split: prod.splits)
  from endpoint_on_swarm_event_keys [OF h] inv endpoint_on_swarm_event_relays [OF _ h]
    endpoint_keys_frame [of s' s]
  show ?thesis by (simp add: endpoint_inv_def)
qed

interpretation endpoint_machine: machine "endpoint_step L lops tops" endpoint_inv
  for L lops tops
  by unfold_locales (rule endpoint_step_inv)

text \<open>
  C30: The state of the endpoint's behaviour is well formed in every run from its start: events wait
  only for a relay that is being dialed, a relay is never both connected and being dialed, it
  counts as connected only while it has a connection, and the queues to transports and the senders
  to transports are for the same relays, each once, in the same order.
\<close>

theorem endpoint_state_well_formed:
  assumes "distinct (map fst tts)"
    and "run (endpoint_step L lops tops) is (endpoint_behaviour_new me tts) = Inr (s', os)"
  shows "finite (dom (eb_wait s')) \<and> dom (eb_wait s') \<subseteq> eb_connecting s' \<and>
     dom (eb_established s') \<inter> eb_connecting s' = {} \<and> {} \<notin> ran (eb_established s') \<and>
     map fst (eb_pending_to_transport s') = map fst (eb_to_transports s') \<and>
     distinct (map fst (eb_to_transports s'))"
proof -
  have "endpoint_inv s'"
    by (rule endpoint_machine.run_inv [OF endpoint_inv_new [OF assms(1)] assms(2)])
  then show ?thesis
    by (auto simp: endpoint_inv_def endpoint_relays_def endpoint_keys_def ran_def)
qed

theorem endpoint_state_well_formed_witness:
  "\<exists>s' :: (bytes, (io_error + bytes connection) list, behaviour_to_transport_event list)
       endpoint_behaviour.
     eb_connecting s' = {PeerId [9]} \<and> eb_wait s' (PeerId [9]) \<noteq> None \<and>
     dom (eb_established s') \<inter> eb_connecting s' = {}"
proof -
  let ?dial = "TDial (PeerId [5]) (Multiaddr [5]) (Multiaddr [9]) (PeerId [9]) (Oneshot 1)
    :: (io_error + bytes connection) list transport_to_behaviour_event"
  let ?tts = "[(PeerId [9], [])] :: (peer_id \<times> behaviour_to_transport_event list) list"
  obtain s' :: "(bytes, (io_error + bytes connection) list, behaviour_to_transport_event list)
       endpoint_behaviour" and os where
    r: "run (endpoint_step raw_lib open_ops open_ops) [EbPoll (Ready (Some ?dial))]
      (endpoint_behaviour_new (PeerId [1]) ?tts) = Inr (s', os)"
    and "eb_connecting s' = {PeerId [9]}" "eb_wait s' (PeerId [9]) \<noteq> None"
    by (simp add: endpoint_poll_def endpoint_behaviour_new_def endpoint_next_event_def Let_def)
  moreover have "distinct (map fst ?tts)"
    by simp
  ultimately show ?thesis
    using endpoint_state_well_formed [OF _ r] by blast
qed

end
