(* ===== verification/Endpoint_Safety.thy ===== *)
theory Endpoint_Safety
  imports Endpoint_Behaviour
begin

text \<open>
  When the endpoint's behaviour (\<open>src/endpoint/behaviour.rs\<close>) panics, and that it does not panic
  otherwise: its two loops return on live channels, and the maps over relays keep their keys.
\<close>

section \<open>Panics\<close>

text \<open>The relays the behaviour has a queue for, which are those it has a sender for.\<close>

definition known_relays :: "('ss, 'ls, 'ts) endpoint_behaviour \<Rightarrow> peer_id set" where
  "known_relays s = fst ` set (eb_to_transports s)"

lemma known_relays_queue:
  "endpoint_keys s \<Longrightarrow>
     map_of (eb_pending_to_transport s) p = None \<longleftrightarrow> p \<notin> known_relays s"
  by (metis endpoint_keys_def known_relays_def map_of_eq_None_iff set_map)

lemma endpoint_new_connections_returns:
  assumes "endpoint_keys s" and "nc_relay_peer_id ` set ncs \<subseteq> known_relays s"
  shows "\<exists>s' act. endpoint_new_connections L lops ncs s = Inr (s', act) \<and>
     set (eb_pending_new_connections s') \<subseteq> set ncs"
  using assms
proof (induction ncs arbitrary: s)
  case Nil
  then show ?case by simp
next
  case (Cons nc ncs)
  from Cons.prems known_relays_queue
  have key: "map_of (eb_pending_to_transport s) (nc_relay_peer_id nc) \<noteq> None"
    by fastforce
  show ?case
  proof (cases "eb_listeners s (nc_listen_addr nc)")
    case None
    then show ?thesis by auto
  next
    case (Some l)
    show ?thesis
    proof (cases "offer_connection lops (ls_sender l) (nc_connection nc)")
      case (OfferTaken tx)
      let ?s = "queue_to_transport (nc_relay_peer_id nc)
        [BListenSuccess (ls_listener_id l) (nc_listen_addr nc)]
        (set_listener_sender (nc_listen_addr nc) tx s)"
      have "endpoint_keys ?s" and "nc_relay_peer_id ` set ncs \<subseteq> known_relays ?s"
        using Cons.prems by (simp_all add: endpoint_keys_def known_relays_def)
      from Cons.IH [OF this] key Some OfferTaken show ?thesis by auto
    qed (use Some in auto)
  qed
qed

lemma live_flush_queue:
  "live_sender tops \<Longrightarrow> \<exists>tx' q'. flush_queue tops tx q = FlushGoOn tx' q'"
proof (induction tops tx q rule: flush_queue.induct)
  case (1 tops tx)
  then show ?case by simp
next
  case (2 tops tx event events)
  obtain r s1 where r: "tx_poll_ready tops tx = (r, s1)"
    by fastforce
  show ?case
  proof (cases r)
    case Pending
    with r show ?thesis by simp
  next
    case (Ready x)
    then obtain u where x: "x = Inr u"
      using r "2.prems" by (cases x) (auto simp: live_sender_def)
    obtain y s2 where y: "tx_start_send tops s1 event = (y, s2)"
      by fastforce
    with r Ready x "2.prems" obtain v where "y = Inr v"
      by (cases y) (auto simp: live_sender_def)
    with "2.IH" r Ready x y "2.prems" show ?thesis by simp
  qed
qed

lemma live_flush_transports:
  assumes "live_sender tops" and "fst ` set entries \<subseteq> known_relays s"
  shows "\<exists>s'. flush_transports L tops entries s = Inr (s', None) \<and> known_relays s' = known_relays s"
  using assms
proof (induction L tops entries s rule: flush_transports.induct)
  case (1 L tops s)
  then show ?case by simp
next
  case (2 L tops relay queue entries s)
  from "2.prems"(2) obtain tx where tx: "map_of (eb_to_transports s) relay = Some tx"
    by (metis fst_conv image_eqI insert_subset known_relays_def list.simps(15) image_insert
        map_of_eq_None_iff option.exhaust)
  from live_flush_queue [OF "2.prems"(1)] obtain tx' q' where q: "flush_queue tops tx queue = FlushGoOn tx' q'"
    by blast
  let ?s = "s\<lparr>eb_to_transports := AList.update relay tx' (eb_to_transports s),
    eb_pending_to_transport := AList.update relay q' (eb_pending_to_transport s)\<rparr>"
  have "known_relays ?s = known_relays s"
    using "2.prems"(2) by (auto simp: known_relays_def AList.dom_update)
  with "2.IH" [OF tx q "2.prems"(1)] "2.prems"(2) tx q show ?case by simp
qed

lemma endpoint_next_event_frame:
  "endpoint_next_event recv s = (s', r) \<Longrightarrow>
     eb_listeners s' = eb_listeners s \<and> eb_established s' = eb_established s \<and>
     eb_pending_to_transport s' = eb_pending_to_transport s \<and>
     eb_to_transports s' = eb_to_transports s \<and>
     eb_pending_actions s' = eb_pending_actions s \<and>
     eb_pending_new_connections s' = eb_pending_new_connections s"
  by (auto simp: endpoint_next_event_def Let_def
      split: poll.splits option.splits list.splits if_splits)

text \<open>The state in which no poll can panic.\<close>

definition endpoint_safe :: "peer_id set \<Rightarrow> ('ss, 'ls, 'ts) endpoint_behaviour \<Rightarrow> bool" where
  "endpoint_safe relays s \<longleftrightarrow> endpoint_inv s \<and> known_relays s = relays \<and>
     nc_relay_peer_id ` set (eb_pending_new_connections s) \<subseteq> relays"

fun endpoint_input_relays :: "('ss, 'ls) endpoint_input \<Rightarrow> peer_id set" where
  "endpoint_input_relays (EbHandler p c (EoNewConnection relay a connection)) = {relay}"
| "endpoint_input_relays i = {}"

lemma endpoint_poll_safe:
  assumes live: "live_sender tops" and safe: "endpoint_safe relays s"
  shows "\<exists>s' es r. endpoint_poll L lops tops recv s = Inr (s', es, r) \<and> endpoint_safe relays s'"
proof -
  obtain s1 x where n: "endpoint_next_event recv s = (s1, x)"
    by fastforce
  have safe1: "known_relays s1 = relays" "nc_relay_peer_id ` set (eb_pending_new_connections s1) \<subseteq> relays"
    "endpoint_keys s1"
    using endpoint_next_event_frame [OF n] endpoint_next_event_keys [OF n] safe
    by (simp_all add: endpoint_safe_def known_relays_def endpoint_inv_def)
  then obtain s2 act where c: "endpoint_new_connections L lops (eb_pending_new_connections s1) s1 = Inr (s2, act)"
    and sub: "set (eb_pending_new_connections s2) \<subseteq> set (eb_pending_new_connections s1)"
    using endpoint_new_connections_returns [of s1 "eb_pending_new_connections s1" L lops] by auto
  have known2: "known_relays s2 = relays"
    using endpoint_new_connections_frame [OF c] safe1 by (simp add: known_relays_def)
  have "fst ` set (eb_pending_to_transport s2) \<subseteq> known_relays s2"
    using endpoint_new_connections_keys [OF c safe1(3)]
    by (metis endpoint_keys_def known_relays_def list.set_map order_refl)
  then obtain s3 where f: "flush_transports L tops (eb_pending_to_transport s2) s2 = Inr (s3, None)"
    and known3: "known_relays s3 = relays"
    using live_flush_transports [OF live] known2 by blast
  have "\<exists>s' es r. endpoint_poll L lops tops recv s = Inr (s', es, r) \<and> known_relays s' = relays \<and>
      set (eb_pending_new_connections s') \<subseteq> set (eb_pending_new_connections s1)"
    (is "\<exists>s' es r. ?ends s' es r")
  proof (cases x)
    case (Inl a)
    with n safe1 show ?thesis by (simp add: endpoint_poll_def)
  next
    case (Inr y)
    show ?thesis
    proof (cases y)
      case None
      have sub3: "set (eb_pending_new_connections s3) \<subseteq> set (eb_pending_new_connections s1)"
        using flush_transports_frame [OF f] sub by simp
      show ?thesis
      proof (cases act)
        case (Some a)
        with n Inr None c known2 sub show ?thesis by (simp add: endpoint_poll_def)
      next
        case None
        with n Inr \<open>y = None\<close> c f known3 sub3 show ?thesis
          by (cases "eb_pending_actions s3")
             (simp_all add: endpoint_poll_def endpoint_poll_actions_def known_relays_def)
      qed
    next
      case (Some event)
      obtain s' a where d: "endpoint_dispatch event s1 = (s', a)"
        by fastforce
      with endpoint_dispatch_frame [OF d] n Inr Some safe1 show ?thesis
        by (simp add: endpoint_poll_def known_relays_def)
    qed
  qed
  then obtain s' es r where ends: "?ends s' es r"
    by (elim exE)
  have "endpoint_inv s'"
    using endpoint_poll_inv [of s L lops tops recv s' es r] ends safe by (simp add: endpoint_safe_def)
  moreover have "nc_relay_peer_id ` set (eb_pending_new_connections s') \<subseteq> relays"
    using ends safe1(2) by blast
  ultimately show ?thesis
    using ends by (auto simp: endpoint_safe_def)
qed

lemma endpoint_handler_safe:
  fixes s :: "('ss, 'ls, 'ts) endpoint_behaviour"
  shows "endpoint_on_handler_event e s = (s', es) \<Longrightarrow>
     nc_relay_peer_id ` set (eb_pending_new_connections s') =
       nc_relay_peer_id ` set (eb_pending_new_connections s) \<union>
       endpoint_input_relays (EbHandler p c e :: ('ss, 'ls) endpoint_input)"
  by (cases e) auto

lemma endpoint_swarm_safe:
  "endpoint_on_swarm_event L e s = (s', es) \<Longrightarrow>
     eb_pending_new_connections s' = eb_pending_new_connections s"
  by (induction L e s rule: endpoint_on_swarm_event.induct)
     (auto simp: Let_def split: if_splits option.splits)

lemma endpoint_step_safe:
  fixes s :: "('ss, 'ls, 'ts) endpoint_behaviour"
  assumes live: "live_sender tops" and safe: "endpoint_safe relays s"
    and input: "endpoint_input_relays i \<subseteq> relays"
  shows "\<exists>s' os. endpoint_step L lops tops i s = Inr (s', os) \<and> endpoint_safe relays s'"
proof (cases i)
  case (EbPoll recv)
  with endpoint_poll_safe [OF live safe, of L lops recv] show ?thesis
    by auto
next
  case (EbHandler p c e)
  obtain s' es where h: "endpoint_on_handler_event e s = (s', es)"
    by fastforce
  with EbHandler have st: "endpoint_step L lops tops i s = Inr (s', map Effect es)"
    by simp
  have "known_relays s' = relays"
    using endpoint_on_handler_event_frame [OF h] safe by (simp add: endpoint_safe_def known_relays_def)
  moreover have "nc_relay_peer_id ` set (eb_pending_new_connections s') \<subseteq> relays"
    unfolding endpoint_handler_safe [OF h, of p c] using safe input EbHandler
    by (simp add: endpoint_safe_def)
  ultimately show ?thesis
    using st endpoint_step_inv [OF _ st] safe by (simp add: endpoint_safe_def)
next
  case (EbSwarm e)
  obtain s' es where h: "endpoint_on_swarm_event L e s = (s', es)"
    by fastforce
  with EbSwarm have st: "endpoint_step L lops tops i s = Inr (s', map Effect es)"
    by simp
  with endpoint_step_inv [OF _ st] endpoint_on_swarm_event_keys [OF h]
    endpoint_swarm_safe [OF h] safe
  show ?thesis
    by (auto simp: endpoint_safe_def known_relays_def)
qed

text \<open>
  As long as the transports are alive and the connections the handlers report come from
  relays the endpoint was configured with, no sequence of polls, swarm events and handler events
  makes the endpoint's behaviour panic.
\<close>

theorem endpoint_never_panics:
  assumes "distinct (map fst tts)" and "live_sender tops"
    and "\<And>i. i \<in> set is \<Longrightarrow> endpoint_input_relays i \<subseteq> fst ` set tts"
  shows "\<exists>s' os. run (endpoint_step L lops tops) is (endpoint_behaviour_new me tts) = Inr (s', os) \<and>
     endpoint_inv s'"
proof -
  have "endpoint_safe (fst ` set tts) (endpoint_behaviour_new me tts)"
    using endpoint_inv_new [OF assms(1), of me]
    by (simp add: endpoint_safe_def known_relays_def) (simp add: endpoint_behaviour_new_def)
  moreover have "\<exists>s' os. endpoint_step L lops tops i s = Inr (s', os) \<and> endpoint_safe (fst ` set tts) s'"
    if "i \<in> set is" "endpoint_safe (fst ` set tts) s" for i s
    using endpoint_step_safe [OF assms(2) that(2) assms(3) [OF that(1)]] .
  ultimately have "\<exists>s' os. run (endpoint_step L lops tops) is (endpoint_behaviour_new me tts)
      = Inr (s', os) \<and> endpoint_safe (fst ` set tts) s'"
    by (intro run_no_panic) auto
  then show ?thesis
    by (auto simp: endpoint_safe_def)
qed

theorem endpoint_never_panics_witness:
  "\<exists>s' os. run (endpoint_step raw_lib open_ops open_ops)
     [EbPoll (Ready (Some (TListen (ListenerId 1) (PeerId [1]) (Multiaddr [1]) (PeerId [9])
        (Multiaddr [9]) []))),
      EbSwarm (ConnectionEstablished (PeerId [9]) (ConnectionId 4) (Multiaddr [9])), EbPoll Pending,
      EbHandler (PeerId [9]) (ConnectionId 4)
        (EoNewConnection (PeerId [9]) (Multiaddr [1]) (new_connection (Multiaddr [2]) [] [7 :: 8 word])),
      EbPoll Pending]
     (endpoint_behaviour_new (PeerId [1]) [(PeerId [9], [])]) = Inr (s', os) \<and> endpoint_inv s'"
  by (rule endpoint_never_panics) (auto simp: open_ops_live)

text \<open>
  A connection that some other peer's handler reports for an address the endpoint listens on
  is given to the listener, and then the poll panics: only the configured relays have a queue to
  report to.
\<close>

theorem endpoint_foreign_connection_panics:
  assumes "live_sender lops" and "stranger \<noteq> relay"
    and "tx_poll_ready lops ls = (Ready (Inr ()), ls1)"
  shows "run (endpoint_step L lops tops)
      [EbPoll (Ready (Some (TListen lid me a relay relay_addr ls))),
       EbSwarm (ConnectionEstablished relay cid remote), EbPoll Pending,
       EbHandler stranger cid2 (EoNewConnection stranger a connection), EbPoll Pending]
      (endpoint_behaviour_new me [(relay, tx)])
    = Inl (Panic (''relay peer '' @ show_peer L stranger @
        '' pending to transport event queue not found''))"
proof -
  from assms(1,3) obtain ls2 where send: "tx_start_send lops ls1 (Inr connection) = (Inr (), ls2)"
    by (cases "tx_start_send lops ls1 (Inr connection)"; cases "fst (tx_start_send lops ls1 (Inr connection))")
       (auto simp: live_sender_def)
  obtain r ls3 where "tx_poll_flush lops ls2 = (r, ls3)"
    by fastforce
  with assms(1) have "offer_connection lops ls connection = OfferTaken ls3"
    using assms(3) send
    by (auto simp: offer_connection_def live_sender_def split: poll.splits sum.splits)
  with assms(2) show ?thesis
    by (simp add: endpoint_poll_def endpoint_behaviour_new_def endpoint_next_event_def Let_def)
qed

theorem endpoint_foreign_connection_panics_witness:
  "run (endpoint_step raw_lib open_ops open_ops)
      [EbPoll (Ready (Some (TListen (ListenerId 1) (PeerId [1]) (Multiaddr [1]) (PeerId [9])
         (Multiaddr [9]) []))),
       EbSwarm (ConnectionEstablished (PeerId [9]) (ConnectionId 4) (Multiaddr [9])), EbPoll Pending,
       EbHandler (PeerId [65]) (ConnectionId 5)
         (EoNewConnection (PeerId [65]) (Multiaddr [1]) (new_connection (Multiaddr [2]) [] [7 :: 8 word])),
       EbPoll Pending]
      (endpoint_behaviour_new (PeerId [1]) [(PeerId [9], [])])
    = Inl (Panic (''relay peer '' @ show_peer raw_lib (PeerId [65]) @
        '' pending to transport event queue not found''))"
  by (rule endpoint_foreign_connection_panics [where ?ls1.0 = "[]"])
     (simp_all add: open_ops_live, simp add: open_ops_def)

end
