(* ===== verification/Endpoint_Delivery.thy ===== *)
theory Endpoint_Delivery
  imports Endpoint_Safety
begin

text \<open>
  What the endpoint's behaviour hands on, and to whom: accepted connections to listeners, and
  events to transports. The channels are the documented ones (\<open>fifo_sender\<close>), over the messages
  \<open>msgs\<close> into each.
\<close>

section \<open>Connections to listeners\<close>

lemma live_offer:
  assumes "live_sender lops"
  shows "offer_connection lops tx c \<noteq> OfferClosed tx'"
  using assms
  by (auto simp: offer_connection_def live_sender_def split: poll.splits sum.splits prod.splits)

lemma fifo_offer:
  assumes "fifo_sender lops msgs"
  shows "offer_connection lops tx c = OfferTaken tx' \<Longrightarrow> msgs tx' = msgs tx @ [Inr c]"
    and "offer_connection lops tx c = OfferPending tx' \<Longrightarrow> msgs tx' = msgs tx"
  using assms
  by (auto simp: offer_connection_def split: poll.splits sum.splits prod.splits
      dest!: fifo_poll_ready [OF assms] fifo_poll_flush [OF assms] fifo_start_send_Inr [OF assms])

text \<open>The connections of a queue that are for the address \<open>a\<close>, and the reports of them to the
  relay \<open>r\<close>.\<close>

definition connections_for :: "multiaddr \<Rightarrow> 'ss pending_new_connection list \<Rightarrow> 'ss connection list" where
  "connections_for a ncs = map nc_connection (filter (\<lambda>nc. nc_listen_addr nc = a) ncs)"

definition accepted_events ::
  "peer_id \<Rightarrow> (multiaddr \<Rightarrow> listener_id option) \<Rightarrow> 'ss pending_new_connection list \<Rightarrow>
     behaviour_to_transport_event list" where
  "accepted_events r ids ncs =
     map (\<lambda>nc. BListenSuccess (the (ids (nc_listen_addr nc))) (nc_listen_addr nc))
       (filter (\<lambda>nc. nc_relay_peer_id nc = r) ncs)"

text \<open>The listener ids of the addresses, which handing over connections does not change.\<close>

definition listener_ids :: "('ss, 'ls, 'ts) endpoint_behaviour \<Rightarrow> multiaddr \<Rightarrow> listener_id option" where
  "listener_ids s a = map_option ls_listener_id (eb_listeners s a)"

definition sent_to ::
  "('ls \<Rightarrow> 'm list) \<Rightarrow> ('ss, 'ls, 'ts) endpoint_behaviour \<Rightarrow> multiaddr \<Rightarrow> 'm list" where
  "sent_to msgs s a = (case eb_listeners s a of None \<Rightarrow> [] | Some l \<Rightarrow> msgs (ls_sender l))"

lemma listener_ids_set_sender [simp]:
  "listener_ids (set_listener_sender a tx s) = listener_ids s"
  by (rule ext) (auto simp: listener_ids_def set_listener_sender_def option.map_comp comp_def)

lemma listener_ids_pending [simp]:
  "listener_ids (s\<lparr>eb_pending_new_connections := ncs\<rparr>) = listener_ids s"
  by (simp add: listener_ids_def fun_eq_iff)

lemma sent_to_set_sender:
  "eb_listeners s a = Some l \<Longrightarrow>
     sent_to msgs (set_listener_sender a tx s) b = (if b = a then msgs tx else sent_to msgs s b)"
  by (simp add: sent_to_def set_listener_sender_def)

lemma queue_to_transport_other [simp]:
  "listener_ids (queue_to_transport r evs s) = listener_ids s"
  "sent_to msgs (queue_to_transport r evs s) = sent_to msgs s"
  by (simp_all add: fun_eq_iff listener_ids_def sent_to_def)

lemma queue_of_map_entry:
  "map_of (AList.map_entry k f xs) k' = (if k' = k then map_option f (map_of xs k) else map_of xs k')"
  by (cases "map_of xs k") (simp_all add: AList.map_of_map_entry)

lemma queue_to_transport_queue:
  "map_of (eb_pending_to_transport (queue_to_transport r evs s)) r' =
     (if r' = r then map_option (\<lambda>q. q @ evs) (map_of (eb_pending_to_transport s) r)
      else map_of (eb_pending_to_transport s) r')"
  by (simp add: queue_to_transport_def queue_of_map_entry)

text \<open>
  The loop over new connections, on channels whose receivers stay alive: a first part of the queue
  was \<open>taken\<close>. Each listener got the connections for its address, in order; the transport of each
  relay is told of those that came through the relay; what is left stays queued, except a
  connection nobody listens for, which ends the loop with an event.
\<close>

definition handed_over ::
  "('ls \<Rightarrow> (io_error + 'ss connection) list) \<Rightarrow> ('ss, 'ls, 'ts) endpoint_behaviour \<Rightarrow>
     'ss pending_new_connection list \<Rightarrow> 'ss pending_new_connection list \<Rightarrow>
     ('ss, 'ls, 'ts) endpoint_behaviour \<Rightarrow> endpoint_action option \<Rightarrow> bool" where
  "handed_over msgs s taken rest s' act \<longleftrightarrow> listener_ids s' = listener_ids s \<and>
     (\<forall>a. sent_to msgs s' a = sent_to msgs s a @ map Inr (connections_for a taken)) \<and>
     (\<forall>r q. map_of (eb_pending_to_transport s) r = Some q \<longrightarrow>
        map_of (eb_pending_to_transport s') r = Some (q @ accepted_events r (listener_ids s) taken)) \<and>
     (case act of
        None \<Rightarrow> eb_pending_new_connections s' = rest
      | Some ev \<Rightarrow> \<exists>nc. rest = nc # eb_pending_new_connections s' \<and>
          listener_ids s (nc_listen_addr nc) = None \<and>
          ev = GenerateEvent (UnexpectedConnection (nc_listen_addr nc)))"

lemma endpoint_new_connections_delivers:
  assumes "endpoint_new_connections L lops ncs s = Inr (s', act)"
    and fifo: "fifo_sender lops msgs" and live: "live_sender lops"
  shows "\<exists>taken rest. ncs = taken @ rest \<and> handed_over msgs s taken rest s' act"
  using assms(1)
proof (induction ncs arbitrary: s)
  case Nil
  then show ?case
    by (auto simp: handed_over_def connections_for_def accepted_events_def listener_ids_def sent_to_def)
next
  case (Cons nc ncs)
  let ?a = "nc_listen_addr nc"
  show ?case
  proof (cases "eb_listeners s ?a")
    case None
    with Cons.prems show ?thesis
      by (intro exI [of _ "[]"] exI [of _ "nc # ncs"])
         (auto simp: handed_over_def connections_for_def accepted_events_def listener_ids_def
           sent_to_def)
  next
    case (Some l)
    show ?thesis
    proof (cases "offer_connection lops (ls_sender l) (nc_connection nc)")
      case (OfferPending tx)
      have "sent_to msgs (set_listener_sender ?a tx
          (s\<lparr>eb_pending_new_connections := nc # ncs\<rparr>)) b = sent_to msgs s b" for b
        using fifo_offer(2) [OF fifo OfferPending] Some
        by (simp add: sent_to_def set_listener_sender_def)
      with OfferPending Some Cons.prems show ?thesis
        by (intro exI [of _ "[]"] exI [of _ "nc # ncs"])
           (auto simp: handed_over_def connections_for_def accepted_events_def)
    next
      case (OfferClosed tx)
      with live_offer [OF live] show ?thesis by blast
    next
      case (OfferTaken tx)
      let ?ev = "BListenSuccess (ls_listener_id l) ?a"
      let ?s = "queue_to_transport (nc_relay_peer_id nc) [?ev] (set_listener_sender ?a tx s)"
      have r: "endpoint_new_connections L lops ncs ?s = Inr (s', act)"
        using Cons.prems Some OfferTaken by (auto split: if_splits)
      from Cons.IH [OF r] obtain taken rest where split: "ncs = taken @ rest"
        and h: "handed_over msgs ?s taken rest s' act"
        by blast
      note h' = h [unfolded handed_over_def queue_to_transport_other listener_ids_set_sender]
      then have sent: "\<And>b. sent_to msgs s' b =
          sent_to msgs (set_listener_sender ?a tx s) b @ map Inr (connections_for b taken)"
        and queue: "\<And>r q. map_of (eb_pending_to_transport ?s) r = Some q \<Longrightarrow>
          map_of (eb_pending_to_transport s') r = Some (q @ accepted_events r (listener_ids s) taken)"
        by blast+
      have "sent_to msgs s' b = sent_to msgs s b @ map Inr (connections_for b (nc # taken))" for b
        unfolding sent sent_to_set_sender [OF Some]
        using fifo_offer(1) [OF fifo OfferTaken] Some
        by (simp add: connections_for_def sent_to_def)
      moreover have "map_of (eb_pending_to_transport s') r =
          Some (q @ accepted_events r (listener_ids s) (nc # taken))"
        if "map_of (eb_pending_to_transport s) r = Some q" for r q
        using that queue [of r "q @ (if r = nc_relay_peer_id nc then [?ev] else [])"] Some
        by (auto simp: queue_to_transport_queue accepted_events_def listener_ids_def)
      ultimately have "handed_over msgs s (nc # taken) rest s' act"
        using h' unfolding handed_over_def by blast
      with split show ?thesis by (metis append_Cons)
    qed
  qed
qed

text \<open>An event that would start listening on \<open>a\<close>.\<close>

fun listens_on :: "multiaddr \<Rightarrow> 'ls transport_to_behaviour_event \<Rightarrow> bool" where
  "listens_on a (TDial dst_peer_id dst_addr relay_addr relay_peer_id sender) = False"
| "listens_on a (TListen listener_id local_peer_id local_addr relay_peer_id relay_addr sender) =
     (local_addr = a)"

fun input_listens_on :: "multiaddr \<Rightarrow> ('ss, 'ls) endpoint_input \<Rightarrow> bool" where
  "input_listens_on a (EbPoll (Ready (Some event))) = listens_on a event"
| "input_listens_on a i = False"

text \<open>The address \<open>a\<close> has its listener and no other is on its way.\<close>

definition settled_listener :: "multiaddr \<Rightarrow> ('ss, 'ls, 'ts) endpoint_behaviour \<Rightarrow> bool" where
  "settled_listener a s \<longleftrightarrow> eb_listeners s a \<noteq> None \<and>
     (\<forall>e\<in>set (eb_pending_t2b s). \<not> listens_on a e) \<and>
     (\<forall>p evs. eb_wait s p = Some evs \<longrightarrow> (\<forall>e\<in>set evs. \<not> listens_on a e))"

fun connections_in :: "multiaddr \<Rightarrow> ('ss, 'ls) endpoint_input \<Rightarrow> 'ss connection list" where
  "connections_in a (EbHandler p c (EoNewConnection relay b connection)) =
     (if b = a then [connection] else [])"
| "connections_in a i = []"

definition connection_stream ::
  "('ls \<Rightarrow> (io_error + 'ss connection) list) \<Rightarrow> multiaddr \<Rightarrow> ('ss, 'ls, 'ts) endpoint_behaviour \<Rightarrow>
     (io_error + 'ss connection) list" where
  "connection_stream msgs a s =
     sent_to msgs s a @ map Inr (connections_for a (eb_pending_new_connections s))"

lemma connection_stream_frame:
  "eb_listeners s' a = eb_listeners s a \<Longrightarrow>
     eb_pending_new_connections s' = eb_pending_new_connections s \<Longrightarrow>
     connection_stream msgs a s' = connection_stream msgs a s"
  by (simp add: connection_stream_def sent_to_def)

lemma settled_listener_frame:
  "eb_listeners s' a = eb_listeners s a \<Longrightarrow> eb_pending_t2b s' = eb_pending_t2b s \<Longrightarrow>
     eb_wait s' = eb_wait s \<Longrightarrow> settled_listener a s' = settled_listener a s"
  by (simp add: settled_listener_def)

lemma endpoint_next_event_settled:
  assumes "endpoint_next_event recv s = (s', r)" and "settled_listener a s"
    and "\<not> input_listens_on a (EbPoll recv)"
  shows "settled_listener a s' \<and> (\<forall>event. r = Inr (Some event) \<longrightarrow> \<not> listens_on a event)"
proof (cases "\<exists>event. recv = Ready (Some event)")
  case False
  with endpoint_next_event_none [OF assms(1)] assms(2) show ?thesis
    by (auto simp: settled_listener_def) (metis endpoint_behaviour.ext_inject
      endpoint_behaviour.surjective endpoint_behaviour.update_convs(10))+
next
  case True
  then obtain event where recv: "recv = Ready (Some event)"
    by blast
  show ?thesis
  proof (cases "eb_wait s (t2b_relay_peer_id event)")
    case None
    with recv assms show ?thesis
      by (auto simp: endpoint_next_event_def Let_def settled_listener_def split: if_splits)
  next
    case (Some evs)
    then have "\<forall>e\<in>set evs. \<not> listens_on a e"
      using assms(2) by (simp add: settled_listener_def)
    with Some recv assms show ?thesis
      by (auto simp: endpoint_next_event_def Let_def settled_listener_def split: if_splits)
  qed
qed

lemma endpoint_new_connections_settled:
  assumes "endpoint_new_connections L lops (eb_pending_new_connections s) s = Inr (s', act)"
    and "fifo_sender lops msgs" and "live_sender lops" and "settled_listener a s"
  shows "settled_listener a s' \<and> connection_stream msgs a s' = connection_stream msgs a s"
proof -
  from endpoint_new_connections_delivers [OF assms(1-3)] obtain taken rest where
    split: "eb_pending_new_connections s = taken @ rest" and h: "handed_over msgs s taken rest s' act"
    by blast
  have "listener_ids s a \<noteq> None" and "listener_ids s' = listener_ids s"
    using assms(4) h by (auto simp: settled_listener_def listener_ids_def handed_over_def)
  then have "eb_listeners s' a \<noteq> None"
    by (metis listener_ids_def option.map_disc_iff)
  with endpoint_new_connections_frame [OF assms(1)] assms(4) have "settled_listener a s'"
    by (simp add: settled_listener_def)
  moreover have "connections_for a rest = connections_for a (eb_pending_new_connections s')"
    using h \<open>listener_ids s a \<noteq> None\<close>
    by (cases act) (auto simp: handed_over_def connections_for_def)
  ultimately show ?thesis
    using h split by (simp add: handed_over_def connection_stream_def connections_for_def)
qed

lemma endpoint_dispatch_listeners:
  "endpoint_dispatch event s = (s', act) \<Longrightarrow> \<not> listens_on a event \<Longrightarrow>
     eb_listeners s' a = eb_listeners s a"
  by (cases event) auto

lemma endpoint_poll_actions_frame:
  "endpoint_poll_actions s = (s', es, r) \<Longrightarrow>
     s' = s\<lparr>eb_pending_actions := eb_pending_actions s'\<rparr>"
  by (cases "eb_pending_actions s") (auto simp: endpoint_poll_actions_def)

lemma endpoint_poll_stream:
  assumes poll: "endpoint_poll L lops tops recv s = Inr (s', es, r)"
    and ch: "fifo_sender lops msgs" "live_sender lops" and st: "settled_listener a s"
    and "\<not> input_listens_on a (EbPoll recv)"
  shows "settled_listener a s' \<and> connection_stream msgs a s' = connection_stream msgs a s"
proof -
  have first: "settled_listener a s1 \<and> connection_stream msgs a s1 = connection_stream msgs a s"
    if "endpoint_next_event recv s = (s1, x)" for s1 x
    using endpoint_next_event_settled [OF that st assms(5)] endpoint_next_event_frame [OF that]
      connection_stream_frame [of s1 a s] by simp
  from poll show ?thesis
  proof (cases rule: endpoint_poll_cases)
    case (dial act)
    with first show ?thesis by blast
  next
    case (dispatch event s1 act)
    from endpoint_next_event_settled [OF dispatch(1) st assms(5)] have "\<not> listens_on a event"
      by simp
    with first [OF dispatch(1)] endpoint_dispatch_frame [OF dispatch(2)]
      endpoint_dispatch_listeners [OF dispatch(2)] settled_listener_frame [of s' a s1]
      connection_stream_frame [of s' a s1]
    show ?thesis by simp
  next
    case (offer s1 act)
    with first [OF offer(1)] endpoint_new_connections_settled [OF offer(2) ch] show ?thesis
      by simp
  next
    case (flush s1 s2 act)
    with first [OF flush(1)] endpoint_new_connections_settled [OF flush(2) ch]
      flush_transports_frame [OF flush(3)] settled_listener_frame [of s' a s2]
      connection_stream_frame [of s' a s2]
    show ?thesis by simp
  next
    case (actions s1 s2 s3)
    have "eb_listeners s' = eb_listeners s3 \<and> eb_pending_t2b s' = eb_pending_t2b s3 \<and>
        eb_wait s' = eb_wait s3 \<and> eb_pending_new_connections s' = eb_pending_new_connections s3"
      using endpoint_poll_actions_frame [OF actions(4)]
      by (metis endpoint_behaviour.select_convs(2,3,9,10) endpoint_behaviour.surjective
          endpoint_behaviour.update_convs(4))
    with first [OF actions(1)] endpoint_new_connections_settled [OF actions(2) ch]
      flush_transports_frame [OF actions(3)] settled_listener_frame [of s' a s2]
      connection_stream_frame [of s' a s2]
    show ?thesis by simp
  qed
qed

lemma endpoint_swarm_settled:
  "endpoint_on_swarm_event L e s = (s', es) \<Longrightarrow> settled_listener a s \<Longrightarrow>
     settled_listener a s' \<and> eb_listeners s' = eb_listeners s"
  by (induction L e s rule: endpoint_on_swarm_event.induct)
     (auto simp: Let_def settled_listener_def split: if_splits option.splits)

lemma endpoint_step_stream:
  fixes s :: "('ss, 'ls, 'ts) endpoint_behaviour"
  assumes st: "endpoint_step L lops tops i s = Inr (s', os)"
    and ch: "fifo_sender lops msgs" "live_sender lops" and set: "settled_listener a s"
    and i: "\<not> input_listens_on a i"
  shows "settled_listener a s' \<and>
     connection_stream msgs a s' = connection_stream msgs a s @ map Inr (connections_in a i)"
proof (cases i)
  case (EbPoll recv)
  with st obtain es r where "endpoint_poll L lops tops recv s = Inr (s', es, r)"
    by (auto split: sum.splits prod.splits)
  from endpoint_poll_stream [OF this ch set] i EbPoll show ?thesis by simp
next
  case (EbHandler p c e)
  with st obtain es where h: "endpoint_on_handler_event e s = (s', es)"
    by (auto split: prod.splits)
  have "connection_stream msgs a s' = connection_stream msgs a s @
      map Inr (connections_in a (EbHandler p c e :: ('ss, 'ls) endpoint_input))"
    using h by (cases e) (auto simp: connection_stream_def sent_to_def connections_for_def)
  with endpoint_on_handler_event_frame [OF h] settled_listener_frame [of s' a s] set EbHandler
  show ?thesis by simp
next
  case (EbSwarm e)
  with st obtain es where h: "endpoint_on_swarm_event L e s = (s', es)"
    by (auto split: prod.splits)
  from endpoint_swarm_settled [OF h set] endpoint_swarm_safe [OF h] EbSwarm
    connection_stream_frame [of s' a s]
  show ?thesis by simp
qed

text \<open>
  C16: While an address keeps its listener, every connection that the handlers report for the
  address is handed to that listener exactly once and in the order reported, or is still queued in
  that order: none is lost, duplicated, overtaken or given to another address's listener.
\<close>

theorem endpoint_connections_delivered:
  assumes "run (endpoint_step L lops tops) is s = Inr (s', os)"
    and "fifo_sender lops msgs" and "live_sender lops" and "settled_listener a s"
    and "\<And>i. i \<in> set is \<Longrightarrow> \<not> input_listens_on a i"
  shows "sent_to msgs s' a @ map Inr (connections_for a (eb_pending_new_connections s')) =
     sent_to msgs s a @ map Inr (connections_for a (eb_pending_new_connections s)) @
       map Inr (concat (map (connections_in a) is))"
proof -
  have "connection_stream msgs a s' = connection_stream msgs a s @
      concat (map (\<lambda>i. map Inr (connections_in a i)) is)"
    by (rule run_accumulates [where Q = "settled_listener a" and stream = "connection_stream msgs a",
          OF _ assms(4,1)])
       (use endpoint_step_stream [OF _ assms(2-3)] assms(5) in blast)
  then show ?thesis
    by (simp add: connection_stream_def map_concat comp_def)
qed

theorem endpoint_connections_delivered_witness:
  "\<exists>s' os. run (endpoint_step raw_lib open_ops open_ops)
      [EbHandler (PeerId [9]) (ConnectionId 4)
         (EoNewConnection (PeerId [9]) (Multiaddr [1]) (new_connection (Multiaddr [2]) [] [7 :: 8 word])),
       EbHandler (PeerId [9]) (ConnectionId 4)
         (EoNewConnection (PeerId [9]) (Multiaddr [1]) (new_connection (Multiaddr [3]) [] [8])),
       EbPoll Pending]
      ((endpoint_behaviour_new (PeerId [1]) [(PeerId [9], [])])\<lparr>eb_listeners :=
         [Multiaddr [1] \<mapsto> \<lparr>ls_listener_id = ListenerId 1, ls_sender = []\<rparr>]\<rparr>) = Inr (s', os) \<and>
     sent_to (\<lambda>ms. ms) s' (Multiaddr [1]) @
       map Inr (connections_for (Multiaddr [1]) (eb_pending_new_connections s')) =
     [Inr (new_connection (Multiaddr [2]) [] [7]), Inr (new_connection (Multiaddr [3]) [] [8])]"
proof -
  let ?is = "[EbHandler (PeerId [9]) (ConnectionId 4)
         (EoNewConnection (PeerId [9]) (Multiaddr [1]) (new_connection (Multiaddr [2]) [] [7])),
       EbHandler (PeerId [9]) (ConnectionId 4)
         (EoNewConnection (PeerId [9]) (Multiaddr [1]) (new_connection (Multiaddr [3]) [] [8])),
       EbPoll Pending] :: (bytes, (io_error + bytes connection) list) endpoint_input list"
  let ?s = "(endpoint_behaviour_new (PeerId [1]) [(PeerId [9], [])])\<lparr>eb_listeners :=
         [Multiaddr [1] \<mapsto> \<lparr>ls_listener_id = ListenerId 1, ls_sender = []\<rparr>]\<rparr>
    :: (bytes, (io_error + bytes connection) list, behaviour_to_transport_event list) endpoint_behaviour"
  obtain s' os where r: "run (endpoint_step raw_lib open_ops open_ops) ?is ?s = Inr (s', os)"
    by (simp add: endpoint_poll_def endpoint_behaviour_new_def endpoint_next_event_def Let_def
        endpoint_poll_actions_def open_ops_def offer_connection_def set_listener_sender_def
        queue_to_transport_def)
  have "settled_listener (Multiaddr [1]) ?s"
    by (simp add: settled_listener_def endpoint_behaviour_new_def)
  moreover have "sent_to (\<lambda>ms. ms) ?s (Multiaddr [1]) = []"
    and "eb_pending_new_connections ?s = []"
    by (simp_all add: sent_to_def endpoint_behaviour_new_def)
  moreover have "\<not> input_listens_on (Multiaddr [1]) i" if "i \<in> set ?is" for i
    using that by auto
  ultimately have "sent_to (\<lambda>ms. ms) s' (Multiaddr [1]) @
       map Inr (connections_for (Multiaddr [1]) (eb_pending_new_connections s')) =
     [Inr (new_connection (Multiaddr [2]) [] [7]), Inr (new_connection (Multiaddr [3]) [] [8])]"
    using endpoint_connections_delivered [OF r open_ops_fifo open_ops_live]
    by (simp add: connections_for_def)
  with r show ?thesis by blast
qed

section \<open>Events to transports\<close>

text \<open>What the transport of relay \<open>r\<close> was sent, and what is queued for it.\<close>

definition told ::
  "('ts \<Rightarrow> behaviour_to_transport_event list) \<Rightarrow> peer_id \<Rightarrow> ('ss, 'ls, 'ts) endpoint_behaviour \<Rightarrow>
     behaviour_to_transport_event list" where
  "told msgs r s = (case map_of (eb_to_transports s) r of None \<Rightarrow> [] | Some tx \<Rightarrow> msgs tx) @
     (case map_of (eb_pending_to_transport s) r of None \<Rightarrow> [] | Some q \<Rightarrow> q)"

lemma fifo_flush_queue:
  assumes "fifo_sender tops msgs"
  shows "flush_queue tops tx q = FlushGoOn tx' q' \<Longrightarrow> msgs tx' @ q' = msgs tx @ q"
proof (induction q arbitrary: tx)
  case Nil
  then show ?case by simp
next
  case (Cons event q)
  obtain r s1 where r: "tx_poll_ready tops tx = (r, s1)"
    by fastforce
  then have s1: "msgs s1 = msgs tx"
    by (rule fifo_poll_ready [OF assms])
  show ?case
  proof (cases "r = Pending")
    case True
    with Cons.prems r s1 show ?thesis by simp
  next
    case False
    with Cons.prems r obtain u s2 where s2: "tx_start_send tops s1 event = (Inr u, s2)"
      and q: "flush_queue tops s2 q = FlushGoOn tx' q'"
      by (auto split: poll.splits sum.splits prod.splits)
    from Cons.IH [OF q] fifo_start_send_Inr [OF assms s2] s1 show ?thesis by simp
  qed
qed

lemma told_frame:
  "eb_to_transports s' = eb_to_transports s \<Longrightarrow>
     eb_pending_to_transport s' = eb_pending_to_transport s \<Longrightarrow> told msgs r s' = told msgs r s"
  by (simp add: told_def)

lemma told_queue:
  "\<exists>evs'. told msgs r (queue_to_transport r' evs s) = told msgs r s @ evs'"
  by (cases "map_of (eb_pending_to_transport s) r")
     (auto simp: told_def queue_to_transport_queue)

lemma told_flush:
  assumes "fifo_sender tops msgs" and "live_sender tops"
  shows "flush_transports L tops entries s = Inr (s', None) \<Longrightarrow> distinct (map fst entries) \<Longrightarrow>
     (\<forall>(r, q)\<in>set entries. map_of (eb_pending_to_transport s) r = Some q) \<Longrightarrow>
     told msgs r s' = told msgs r s"
proof (induction entries arbitrary: s)
  case Nil
  then show ?case by simp
next
  case (Cons entry entries)
  obtain relay queue where entry: "entry = (relay, queue)"
    by fastforce
  with Cons.prems(1) obtain tx where tx: "map_of (eb_to_transports s) relay = Some tx"
    by (auto split: option.splits)
  from live_flush_queue [OF assms(2)] obtain tx' q' where
    fl: "flush_queue tops tx queue = FlushGoOn tx' q'"
    by blast
  let ?s = "s\<lparr>eb_to_transports := AList.update relay tx' (eb_to_transports s),
    eb_pending_to_transport := AList.update relay q' (eb_pending_to_transport s)\<rparr>"
  have "flush_transports L tops entries ?s = Inr (s', None)"
    using Cons.prems(1) entry tx fl by simp
  moreover have "map_of (eb_pending_to_transport ?s) r = Some q" if "(r, q) \<in> set entries" for r q
  proof -
    have "r \<noteq> relay"
      using Cons.prems(2) entry that by force
    with Cons.prems(3) that show ?thesis by (auto simp: AList.update_conv')
  qed
  ultimately have "told msgs r s' = told msgs r ?s"
    using Cons.IH Cons.prems(2) by fastforce
  also have "told msgs r ?s = told msgs r s"
    using fifo_flush_queue [OF assms(1) fl] tx Cons.prems(3) entry
    by (simp add: told_def AList.update_conv')
  finally show ?case .
qed

lemma told_new_connections:
  "endpoint_new_connections L lops ncs s = Inr (s', act) \<Longrightarrow>
     \<exists>evs. told msgs r s' = told msgs r s @ evs"
proof (induction ncs arbitrary: s)
  case Nil
  then show ?case by (auto simp: told_def)
next
  case (Cons nc ncs)
  show ?case
  proof (cases "eb_listeners s (nc_listen_addr nc)")
    case None
    with Cons.prems show ?thesis by (auto simp: told_def)
  next
    case (Some l)
    show ?thesis
    proof (cases "offer_connection lops (ls_sender l) (nc_connection nc)")
      case (OfferTaken tx)
      let ?t = "set_listener_sender (nc_listen_addr nc) tx s"
      let ?s = "queue_to_transport (nc_relay_peer_id nc)
        [BListenSuccess (ls_listener_id l) (nc_listen_addr nc)] ?t"
      have "endpoint_new_connections L lops ncs ?s = Inr (s', act)"
        using Cons.prems Some OfferTaken by (auto split: if_splits)
      from Cons.IH [OF this] obtain evs where "told msgs r s' = told msgs r ?s @ evs"
        by blast
      moreover obtain evs' where "told msgs r ?s = told msgs r ?t @ evs'"
        using told_queue by blast
      moreover have "told msgs r ?t = told msgs r s"
        by (simp add: told_def)
      ultimately show ?thesis by simp
    qed (use Cons.prems Some in \<open>auto simp: told_def\<close>)
  qed
qed

lemma told_swarm:
  "endpoint_on_swarm_event L e s = (s', es) \<Longrightarrow> \<exists>evs. told msgs r s' = told msgs r s @ evs"
proof (induction L e s rule: endpoint_on_swarm_event.induct)
  case (1 L peer_id connection_id addr s)
  then show ?case
    by (auto simp: Let_def told_def split: if_splits option.splits)
next
  case (2 L peer_id connection_id addr s)
  let ?s = "queue_to_transport peer_id [BPeerClosed peer_id addr connection_id] s"
  have "told msgs r s' = told msgs r ?s"
    using 2 by (intro told_frame) (auto simp: Let_def split: option.splits)
  with told_queue show ?case by metis
next
  case (3 L peer_id error s)
  show ?case
  proof (cases "eb_wait s peer_id")
    case None
    with 3 show ?thesis by simp
  next
    case (Some events)
    let ?s = "s\<lparr>eb_wait := (eb_wait s)(peer_id := None)\<rparr>"
    have "told msgs r ?s = told msgs r s"
      by (simp add: told_def)
    with 3 Some told_queue [of msgs r peer_id _ ?s] show ?thesis
      by (auto simp: Let_def split: if_splits)
  qed
qed simp_all

lemma told_handler:
  assumes "endpoint_on_handler_event e s = (s', es)"
  shows "\<exists>evs. told msgs r s' = told msgs r s @ evs"
proof (cases e)
  case (EoListenSuccess p lid q a)
  with assms told_queue show ?thesis by fastforce
next
  case (EoListenFailed err p lid q a)
  with assms told_queue show ?thesis by fastforce
qed (use assms in \<open>auto simp: told_def\<close>)

lemma told_poll:
  assumes poll: "endpoint_poll L lops tops recv s = Inr (s', es, r)" and inv: "endpoint_inv s"
    and ch: "fifo_sender tops msgs" "live_sender tops"
  shows "\<exists>evs. told msgs p s' = told msgs p s @ evs"
proof -
  have first: "told msgs p s1 = told msgs p s" if "endpoint_next_event recv s = (s1, x)" for s1 x
    using endpoint_next_event_frame [OF that] by (intro told_frame) simp_all
  have flushed: "act = None \<and> told msgs p s3 = told msgs p s2"
    if n: "endpoint_next_event recv s = (s1, x)"
      and c: "endpoint_new_connections L lops ncs s1 = Inr (s2, None)"
      and f: "flush_transports L tops (eb_pending_to_transport s2) s2 = Inr (s3, act)"
    for s1 s2 s3 x ncs act
  proof -
    have keys: "endpoint_keys s2"
      using endpoint_new_connections_keys [OF c] endpoint_next_event_keys [OF n] inv
      by (simp add: endpoint_inv_def)
    then have "fst ` set (eb_pending_to_transport s2) \<subseteq> known_relays s2"
      by (metis endpoint_keys_def known_relays_def list.set_map order_refl)
    from live_flush_transports [OF ch(2) this, of L] f have "act = None"
      by auto
    moreover have "distinct (map fst (eb_pending_to_transport s2))"
      using keys by (simp add: endpoint_keys_def)
    ultimately show ?thesis
      using told_flush [OF ch, of L "eb_pending_to_transport s2" s2 s3 p] f by auto
  qed
  from poll show ?thesis
  proof (cases rule: endpoint_poll_cases)
    case (dial a)
    with first show ?thesis by simp
  next
    case (dispatch event s1 a)
    with first endpoint_dispatch_frame [OF dispatch(2)] told_frame [of s' s1 msgs p]
    show ?thesis by simp
  next
    case (offer s1 a)
    with first told_new_connections [OF offer(2)] show ?thesis by metis
  next
    case (flush s1 s2 a)
    with flushed [OF flush(1-3)] show ?thesis by simp
  next
    case (actions s1 s2 s3)
    have "told msgs p s' = told msgs p s3"
      using endpoint_poll_actions_frame [OF actions(4)]
      by (metis endpoint_behaviour.select_convs(5,6) endpoint_behaviour.surjective
          endpoint_behaviour.update_convs(4) told_frame)
    with flushed [OF actions(1-3)] first [OF actions(1)] told_new_connections [OF actions(2)]
    show ?thesis by metis
  qed
qed

text \<open>
  As long as the transports are alive, what the behaviour has for a transport only grows at its
  end: in every run, what was sent to it or queued for it before is still there in the same order.
  No event for a transport is lost, repeated or overtaken by a later one.
\<close>

theorem endpoint_tells_in_order:
  assumes "run (endpoint_step L lops tops) is s = Inr (s', os)" and "endpoint_inv s"
    and "fifo_sender tops msgs" and "live_sender tops"
  shows "\<exists>evs. told msgs r s' = told msgs r s @ evs"
proof -
  let ?Q = "\<lambda>t. endpoint_inv t \<and> (\<exists>evs. told msgs r t = told msgs r s @ evs)"
  have step: "?Q t' \<and> (\<forall>ob\<in>set os'. True)"
    if Q: "?Q t" and st: "endpoint_step L lops tops i t = Inr (t', os')" for i t t' os'
  proof -
    have "\<exists>evs. told msgs r t' = told msgs r t @ evs"
    proof (cases i)
      case (EbPoll recv)
      with st obtain es x where "endpoint_poll L lops tops recv t = Inr (t', es, x)"
        by (auto split: sum.splits prod.splits)
      with told_poll Q assms(3,4) show ?thesis by blast
    next
      case (EbHandler p c e)
      with st told_handler show ?thesis by (auto split: prod.splits)
    next
      case (EbSwarm e)
      with st told_swarm show ?thesis by (auto split: prod.splits)
    qed
    with Q endpoint_step_inv [OF _ st] show ?thesis by auto
  qed
  from run_preserves [where Q = ?Q and P = "\<lambda>ob. True", OF step _ assms(1)] assms(2)
  show ?thesis by auto
qed

theorem endpoint_tells_in_order_witness:
  "\<exists>s' os. run (endpoint_step raw_lib open_ops open_ops)
      [EbSwarm (ConnectionClosed (PeerId [9]) (ConnectionId 4) (Multiaddr [9])), EbPoll Pending]
      ((endpoint_behaviour_new (PeerId [1]) [(PeerId [9], [BListenSuccess (ListenerId 1) (Multiaddr [1])])])
        :: (bytes, (io_error + bytes connection) list, behaviour_to_transport_event list) endpoint_behaviour)
      = Inr (s', os) \<and>
     (\<exists>evs. told (\<lambda>ms. ms) (PeerId [9]) s' = [BListenSuccess (ListenerId 1) (Multiaddr [1])] @ evs)"
  (is "\<exists>s' os. run ?step ?is ?s = Inr (s', os) \<and> _")
proof -
  obtain s' os where r: "run ?step ?is ?s = Inr (s', os)"
    by (simp add: endpoint_poll_def endpoint_behaviour_new_def endpoint_next_event_def Let_def
        endpoint_poll_actions_def open_ops_def queue_to_transport_def)
  have "endpoint_inv ?s"
    by (rule endpoint_inv_new) simp
  from endpoint_tells_in_order [OF r this open_ops_fifo open_ops_live, of "PeerId [9]"] r
  show ?thesis
    by (simp add: told_def endpoint_behaviour_new_def)
qed

section \<open>Wakeups\<close>

lemma endpoint_swarm_silent:
  "endpoint_on_swarm_event L e s = (s', es) \<Longrightarrow> Wake \<notin> set es \<Longrightarrow>
     eb_pending_t2b s' = eb_pending_t2b s \<and>
     eb_pending_new_connections s' = eb_pending_new_connections s \<and>
     eb_pending_actions s' = eb_pending_actions s \<and>
     eb_pending_to_transport s' = eb_pending_to_transport s"
  by (induction L e s rule: endpoint_on_swarm_event.induct)
     (auto simp: Let_def split: if_splits option.splits)

lemma endpoint_handler_silent:
  "endpoint_on_handler_event e s = (s', es) \<Longrightarrow> Wake \<notin> set es \<Longrightarrow> s' = s"
  by (cases e) auto

text \<open>
  An event of the swarm or of a handler that leaves new work for \<open>poll\<close> wakes the task: if it
  does not wake, then no event, connection, action or report was queued.
\<close>

theorem endpoint_wakes_for_work:
  assumes "endpoint_step L lops tops i s = Inr (s', os)" and "\<And>recv. i \<noteq> EbPoll recv"
    and "Effect Wake \<notin> set os"
  shows "eb_pending_t2b s' = eb_pending_t2b s \<and>
     eb_pending_new_connections s' = eb_pending_new_connections s \<and>
     eb_pending_actions s' = eb_pending_actions s \<and>
     eb_pending_to_transport s' = eb_pending_to_transport s"
proof (cases i)
  case (EbPoll recv)
  with assms(2) show ?thesis by blast
next
  case (EbHandler p c e)
  with assms obtain es where "endpoint_on_handler_event e s = (s', es)" and "Wake \<notin> set es"
    by (auto simp: image_iff split: prod.splits)
  from endpoint_handler_silent [OF this] show ?thesis by simp
next
  case (EbSwarm e)
  with assms obtain es where "endpoint_on_swarm_event L e s = (s', es)" and "Wake \<notin> set es"
    by (auto simp: image_iff split: prod.splits)
  from endpoint_swarm_silent [OF this] show ?thesis .
qed

theorem endpoint_wakes_for_work_witness:
  "eb_pending_actions (fst (endpoint_on_handler_event
       (EoDialFailed (IoSimple KindTimedOut) (PeerId [9]) (Oneshot 1) :: bytes endpoint_out_event)
       ((endpoint_behaviour_new (PeerId [1]) [] :: (bytes, (io_error + bytes connection) chan,
            behaviour_to_transport_event chan) endpoint_behaviour)
          \<lparr>eb_pending_actions := [GenerateEvent (OtherError ''x'')]\<rparr>)))
   = [GenerateEvent (OtherError ''x'')]"
proof -
  let ?s = "(endpoint_behaviour_new (PeerId [1]) [] :: (bytes, (io_error + bytes connection) chan,
            behaviour_to_transport_event chan) endpoint_behaviour)
          \<lparr>eb_pending_actions := [GenerateEvent (OtherError ''x'')]\<rparr>"
  let ?e = "EoDialFailed (IoSimple KindTimedOut) (PeerId [9]) (Oneshot 1) :: bytes endpoint_out_event"
  have st: "endpoint_step raw_lib chan_ops chan_ops (EbHandler (PeerId [9]) (ConnectionId 1) ?e)
      ?s =
      Inr (?s, [Effect (Answer (Oneshot 1) (Inl (IoSimple KindTimedOut)))])"
    by simp
  from endpoint_wakes_for_work [OF this] show ?thesis
    by simp
qed

text \<open>
  A poll that receives an event for a relay that is still being dialed puts it aside and, with
  nothing else to do, ends pending. The receiver was ready, so it has not registered the task; a
  further event already in the channel is not looked at until something else wakes the task.
\<close>

theorem endpoint_ready_poll_sleeps:
  assumes "t2b_relay_peer_id e1 = p" and "t2b_relay_peer_id e2 = p"
  shows "\<exists>s'. run (endpoint_step L lops tops)
      [EbPoll (Ready (Some e1)), EbPoll (Ready (Some e2))] (endpoint_behaviour_new me [(p, tx)]) =
    Inr (s', [Emit (DialPeer p [t2b_relay_addr e1] (endpoint_into_handler_new me)), Effect Register])"
  using assms
  by (simp add: endpoint_poll_def endpoint_behaviour_new_def endpoint_next_event_def Let_def
      endpoint_poll_actions_def endpoint_new_handler_def)

end
