(* ===== verification/Endpoint_Transport.thy ===== *)
theory Endpoint_Transport
  imports Transport Endpoint_Delivery
begin

text \<open>
  \<open>src/endpoint/transport.rs\<close>: the endpoint's transport. It turns dials and listens into events for
  the behaviour, and reports of the behaviour and accepted connections into transport events.

  The channels to and from the behaviour and the listener's channel are third-party: \<open>'ts\<close>, \<open>'tr\<close>
  and \<open>'lr\<close> with their operations. A channel, a \<open>oneshot\<close> or a listener id that the code creates
  is an argument of the operation that creates it.
\<close>

section \<open>State and errors\<close>

datatype endpoint_transport_error =
    TeDialFailed io_error
  | TeUnsupportedDialAsListener
  | TeListenFailed io_error
  | TeMissPeerId multiaddr

fun endpoint_transport_error_display :: "lib \<Rightarrow> endpoint_transport_error \<Rightarrow> string" where
  "endpoint_transport_error_display L (TeDialFailed e) = ''dial failed: '' @ show_io L e"
| "endpoint_transport_error_display L TeUnsupportedDialAsListener = ''unsupported dial as listener''"
| "endpoint_transport_error_display L (TeListenFailed e) = ''listen failed: '' @ show_io L e"
| "endpoint_transport_error_display L (TeMissPeerId a) = ''addr '' @ show_addr L a @ '' miss peer id''"

record 'lr endpoint_listener =
  el_local_addr :: multiaddr
  el_listener_id :: listener_id
  el_receiver :: "'lr option"

record ('ls, 'lr, 'ts, 'tr) endpoint_transport =
  et_local_peer_id :: peer_id
  et_relay_addr :: multiaddr
  et_relay_peer_id :: peer_id
  et_pending_to_behaviour :: "'ls transport_to_behaviour_event list"
  et_to_behaviour :: 'ts
  et_from_behaviour :: 'tr
  et_listener :: "'lr endpoint_listener option"

type_synonym 'ss endpoint_transport_event =
  "('ss connection, endpoint_transport_error) transport_event"

definition endpoint_transport_new ::
  "peer_id \<Rightarrow> multiaddr \<Rightarrow> peer_id \<Rightarrow> 'ts \<Rightarrow> 'tr \<Rightarrow> 'bs \<Rightarrow>
     ('ls, 'lr, 'ts, 'tr) endpoint_transport \<times> ('ss, 'ls, 'bs) endpoint_behaviour" where
  "endpoint_transport_new local_peer_id relay_addr relay_peer_id t_to_b_sender b_to_t_receiver
     b_to_t_sender =
     (\<lparr>et_local_peer_id = local_peer_id, et_relay_addr = relay_addr,
       et_relay_peer_id = relay_peer_id, et_pending_to_behaviour = [],
       et_to_behaviour = t_to_b_sender, et_from_behaviour = b_to_t_receiver, et_listener = None\<rparr>,
      endpoint_behaviour_new local_peer_id [(relay_peer_id, b_to_t_sender)])"

section \<open>Operations\<close>

definition endpoint_listen_on ::
  "'ls \<Rightarrow> 'lr \<Rightarrow> listener_id \<Rightarrow> multiaddr \<Rightarrow> ('ls, 'lr, 'ts, 'tr) endpoint_transport \<Rightarrow>
     ('ls, 'lr, 'ts, 'tr) endpoint_transport \<times> 'ss effect list \<times>
     (endpoint_transport_error transport_error + listener_id)" where
  "endpoint_listen_on conn_sender conn_receiver listener_id addr t =
     (case et_listener t of
        Some listener \<Rightarrow> (t, [], Inr (el_listener_id listener))
      | None \<Rightarrow>
          (t\<lparr>et_pending_to_behaviour := et_pending_to_behaviour t @
               [TListen listener_id (et_local_peer_id t) addr (et_relay_peer_id t) (et_relay_addr t)
                  conn_sender],
             et_listener := Some \<lparr>el_local_addr = addr, el_listener_id = listener_id,
               el_receiver = Some conn_receiver\<rparr>\<rparr>,
           [Wake], Inr listener_id))"

definition endpoint_remove_listener ::
  "listener_id \<Rightarrow> ('ls, 'lr, 'ts, 'tr) endpoint_transport \<Rightarrow>
     ('ls, 'lr, 'ts, 'tr) endpoint_transport \<times> bool" where
  "endpoint_remove_listener lid t =
     (if (case et_listener t of None \<Rightarrow> False | Some listener \<Rightarrow> el_listener_id listener = lid)
      then (t\<lparr>et_listener := None\<rparr>, True) else (t, False))"

text \<open>A dial returns the receiver of the \<open>oneshot\<close> that its future waits for.\<close>

definition endpoint_dial ::
  "lib \<Rightarrow> oneshot \<Rightarrow> multiaddr \<Rightarrow> ('ls, 'lr, 'ts, 'tr) endpoint_transport \<Rightarrow>
     ('ls, 'lr, 'ts, 'tr) endpoint_transport \<times> 'ss effect list \<times>
     (endpoint_transport_error transport_error + oneshot)" where
  "endpoint_dial L conn addr t =
     (case peer_of_addr L addr of
        None \<Rightarrow> (t, [], Inl (TransportOther (TeMissPeerId addr)))
      | Some dst_peer_id \<Rightarrow>
          (t\<lparr>et_pending_to_behaviour := et_pending_to_behaviour t @
               [TDial dst_peer_id addr (et_relay_addr t) (et_relay_peer_id t) conn]\<rparr>,
           [Wake], Inr conn))"

definition endpoint_dial_as_listener ::
  "multiaddr \<Rightarrow> ('ls, 'lr, 'ts, 'tr) endpoint_transport \<Rightarrow>
     ('ls, 'lr, 'ts, 'tr) endpoint_transport \<times> (endpoint_transport_error transport_error + oneshot)" where
  "endpoint_dial_as_listener addr t = (t, Inl (TransportOther TeUnsupportedDialAsListener))"

text \<open>What the future of a dial makes of what its receiver gives; \<open>None\<close> is \<open>Canceled\<close>.\<close>

fun endpoint_dial_result ::
  "(io_error + 'ss connection) option \<Rightarrow> endpoint_transport_error + 'ss connection" where
  "endpoint_dial_result None = Inl (TeDialFailed (IoCustom KindOther ''connection sender is dropped''))"
| "endpoint_dial_result (Some (Inl e)) = Inl (TeDialFailed e)"
| "endpoint_dial_result (Some (Inr c)) = Inr c"

definition endpoint_dial_poll ::
  "('o \<Rightarrow> (io_error + 'ss connection) option poll \<times> 'o) \<Rightarrow> 'o \<Rightarrow>
     (endpoint_transport_error + 'ss connection) poll \<times> 'o" where
  "endpoint_dial_poll recv f =
     (case recv f of
        (Pending, f') \<Rightarrow> (Pending, f')
      | (Ready r, f') \<Rightarrow> (Ready (endpoint_dial_result r), f'))"

text \<open>The stream of a listener's connections.\<close>

definition endpoint_listener_poll_next ::
  "('lr, io_error + 'ss connection) receiver_ops \<Rightarrow> 'lr endpoint_listener \<Rightarrow>
     'lr endpoint_listener \<times> 'ss endpoint_transport_event option poll" where
  "endpoint_listener_poll_next rops l =
     (case el_receiver l of
        None \<Rightarrow> (l, Ready None)
      | Some receiver \<Rightarrow>
          (case rx_poll_next rops receiver of
             (Pending, r) \<Rightarrow> (l\<lparr>el_receiver := Some r\<rparr>, Pending)
           | (Ready None, r) \<Rightarrow> (l\<lparr>el_receiver := Some r\<rparr>, Ready None)
           | (Ready (Some (Inl err)), r) \<Rightarrow>
               (l\<lparr>el_receiver := None\<rparr>,
                Ready (Some (TrListenerError (el_listener_id l) (TeDialFailed err))))
           | (Ready (Some (Inr conn)), r) \<Rightarrow>
               (l\<lparr>el_receiver := Some r\<rparr>,
                Ready (Some (TrIncoming (el_listener_id l) conn (el_local_addr l)
                  (remote_addr conn))))))"

section \<open>Polling\<close>

definition behaviour_dropped :: panic where
  "behaviour_dropped = Panic ''behaviour is dropped but transport is still polled''"

text \<open>The loop over the behaviour's events; a loop that never ends is \<open>None\<close>.\<close>

partial_function (option) endpoint_drain ::
  "('tr, behaviour_to_transport_event) receiver_ops \<Rightarrow> ('ls, 'lr, 'ts, 'tr) endpoint_transport \<Rightarrow>
     (panic + ('ls, 'lr, 'ts, 'tr) endpoint_transport \<times> 'ss endpoint_transport_event option) option"
where
  "endpoint_drain rops t =
     (case rx_poll_next rops (et_from_behaviour t) of
        (Pending, r) \<Rightarrow> Some (Inr (t\<lparr>et_from_behaviour := r\<rparr>, None))
      | (Ready None, r) \<Rightarrow> Some (Inl behaviour_dropped)
      | (Ready (Some event), r) \<Rightarrow>
          (case event of
             BListenSuccess listener_id listen_addr \<Rightarrow>
               Some (Inr (t\<lparr>et_from_behaviour := r\<rparr>, Some (TrNewAddress listener_id listen_addr)))
           | BListenFailed err listener_id local_addr \<Rightarrow>
               Some (Inr (fst (endpoint_remove_listener listener_id (t\<lparr>et_from_behaviour := r\<rparr>)),
                 Some (TrListenerError listener_id (TeListenFailed err))))
           | BPeerClosed peer_id peer_addr connection_id \<Rightarrow>
               endpoint_drain rops (t\<lparr>et_from_behaviour := r\<rparr>)
           | BDialFailed err dst_peer_id dst_addr \<Rightarrow>
               endpoint_drain rops (t\<lparr>et_from_behaviour := r\<rparr>)))"

text \<open>The loop that sends the queued events.\<close>

fun endpoint_send_pending ::
  "('ts, 'ls transport_to_behaviour_event) sender_ops \<Rightarrow> 'ts \<Rightarrow>
     'ls transport_to_behaviour_event list \<Rightarrow>
     panic + 'ts \<times> 'ls transport_to_behaviour_event list" where
  "endpoint_send_pending tops tx [] = Inr (tx, [])"
| "endpoint_send_pending tops tx (event # events) =
     (case tx_poll_ready tops tx of
        (Pending, s1) \<Rightarrow> Inr (s1, event # events)
      | (Ready (Inl _), s1) \<Rightarrow> Inl behaviour_dropped
      | (Ready (Inr _), s1) \<Rightarrow>
          (case tx_start_send tops s1 event of
             (Inl _, s2) \<Rightarrow> Inl behaviour_dropped
           | (Inr _, s2) \<Rightarrow> endpoint_send_pending tops s2 events))"

definition endpoint_poll_listener ::
  "('lr, io_error + 'ss connection) receiver_ops \<Rightarrow> ('ls, 'lr, 'ts, 'tr) endpoint_transport \<Rightarrow>
     ('ls, 'lr, 'ts, 'tr) endpoint_transport \<times> 'ss endpoint_transport_event poll" where
  "endpoint_poll_listener lrops t =
     (case et_listener t of
        None \<Rightarrow> (t, Pending)
      | Some listener \<Rightarrow>
          (case endpoint_listener_poll_next lrops listener of
             (l, Ready (Some event)) \<Rightarrow> (t\<lparr>et_listener := Some l\<rparr>, Ready event)
           | (l, _) \<Rightarrow> (t\<lparr>et_listener := Some l\<rparr>, Pending)))"

definition endpoint_transport_poll ::
  "('tr, behaviour_to_transport_event) receiver_ops \<Rightarrow>
     ('ts, 'ls transport_to_behaviour_event) sender_ops \<Rightarrow>
     ('lr, io_error + 'ss connection) receiver_ops \<Rightarrow> ('ls, 'lr, 'ts, 'tr) endpoint_transport \<Rightarrow>
     (panic + ('ls, 'lr, 'ts, 'tr) endpoint_transport \<times> 'ss endpoint_transport_event poll) option" where
  "endpoint_transport_poll rops tops lrops t =
     (case endpoint_drain rops t of
        None \<Rightarrow> None
      | Some (Inl p) \<Rightarrow> Some (Inl p)
      | Some (Inr (t1, Some event)) \<Rightarrow> Some (Inr (t1, Ready event))
      | Some (Inr (t1, None)) \<Rightarrow>
          (case endpoint_send_pending tops (et_to_behaviour t1) (et_pending_to_behaviour t1) of
             Inl p \<Rightarrow> Some (Inl p)
           | Inr (tx, events) \<Rightarrow>
               (case tx_poll_flush tops tx of
                  (Ready (Inl _), tx') \<Rightarrow> Some (Inl behaviour_dropped)
                | (_, tx') \<Rightarrow>
                    Some (Inr (endpoint_poll_listener lrops
                      (t1\<lparr>et_to_behaviour := tx', et_pending_to_behaviour := events\<rparr>))))))"

definition endpoint_address_translation ::
  "('ls, 'lr, 'ts, 'tr) endpoint_transport \<Rightarrow> multiaddr \<Rightarrow> multiaddr \<Rightarrow> multiaddr option" where
  "endpoint_address_translation t listen observed = None"

lemma endpoint_drain_Pending:
  "rx_poll_next rops (et_from_behaviour t) = (Pending, r) \<Longrightarrow>
     endpoint_drain rops t = Some (Inr (t\<lparr>et_from_behaviour := r\<rparr>, None))"
  by (simp add: endpoint_drain.simps [of rops t])

lemma endpoint_drain_success:
  "rx_poll_next rops (et_from_behaviour t) = (Ready (Some (BListenSuccess lid a)), r) \<Longrightarrow>
     endpoint_drain rops t = Some (Inr (t\<lparr>et_from_behaviour := r\<rparr>, Some (TrNewAddress lid a)))"
  by (simp add: endpoint_drain.simps [of rops t])

section \<open>The transport interface\<close>

text \<open>
  The operations as the interface has them. What the code creates (a channel, a listener id, a
  \<open>oneshot\<close>) is supplied by \<open>fresh\<close>, the \<open>n\<close>-th time anything is created; the wake of the task is
  not visible to the caller.
\<close>

definition endpoint_transport_ops ::
  "lib \<Rightarrow> (nat \<Rightarrow> 'ls \<times> 'lr \<times> listener_id \<times> oneshot) \<Rightarrow>
     ('tr, behaviour_to_transport_event) receiver_ops \<Rightarrow>
     ('ts, 'ls transport_to_behaviour_event) sender_ops \<Rightarrow>
     ('lr, io_error + 'ss connection) receiver_ops \<Rightarrow>
     (nat \<times> ('ls, 'lr, 'ts, 'tr) endpoint_transport, oneshot, 'ss connection,
      endpoint_transport_error) transport_ops" where
  "endpoint_transport_ops L fresh rops tops lrops = \<lparr>
     tr_listen_on = (\<lambda>a (n, t). case fresh n of (conn_sender, conn_receiver, lid, conn) \<Rightarrow>
       (case endpoint_listen_on conn_sender conn_receiver lid a t of
          (t', es :: 'ss effect list, r) \<Rightarrow> ((Suc n, t'), r))),
     tr_remove_listener = (\<lambda>lid (n, t). case endpoint_remove_listener lid t of (t', b) \<Rightarrow> ((n, t'), b)),
     tr_dial = (\<lambda>a (n, t). case fresh n of (conn_sender, conn_receiver, lid, conn) \<Rightarrow>
       (case endpoint_dial L conn a t of (t', es :: 'ss effect list, r) \<Rightarrow> ((Suc n, t'), r))),
     tr_dial_as_listener = (\<lambda>a (n, t). case endpoint_dial_as_listener a t of (t', r) \<Rightarrow> ((n, t'), r)),
     tr_poll = (\<lambda>(n, t). map_option (map_sum id (\<lambda>(t', ev). ((n, t'), ev)))
       (endpoint_transport_poll rops tops lrops t)),
     tr_address_translation = (\<lambda>(n, t). endpoint_address_translation t)\<rparr>"

definition endpoint_listening :: "nat \<times> ('ls, 'lr, 'ts, 'tr) endpoint_transport \<Rightarrow> listener_id set" where
  "endpoint_listening nt = (case et_listener (snd nt) of None \<Rightarrow> {} | Some l \<Rightarrow> {el_listener_id l})"

interpretation endpoint_listening: listening_transport
    "endpoint_transport_ops L fresh rops tops lrops" endpoint_listening
  for L fresh rops tops lrops
  by unfold_locales
     (auto simp: endpoint_transport_ops_def endpoint_listening_def endpoint_listen_on_def
       endpoint_remove_listener_def split: prod.splits option.splits if_splits)

interpretation endpoint_dial_future: future "endpoint_dial_poll recv" "results (endpoint_dial_poll recv)"
  for recv
  by unfold_locales (simp_all add: results_Ready results_Pending)

section \<open>What polling does\<close>

text \<open>The transport event of a report; the transport takes no notice of the others.\<close>

fun report_event :: "behaviour_to_transport_event \<Rightarrow> 'ss endpoint_transport_event option" where
  "report_event (BListenSuccess lid a) = Some (TrNewAddress lid a)"
| "report_event (BListenFailed err lid a) = Some (TrListenerError lid (TeListenFailed err))"
| "report_event (BPeerClosed p a c) = None"
| "report_event (BDialFailed err p a) = None"

definition ignored_report :: "behaviour_to_transport_event \<Rightarrow> bool" where
  "ignored_report e \<longleftrightarrow> (report_event e :: unit endpoint_transport_event option) = None"

fun report_ends :: "behaviour_to_transport_event \<Rightarrow> listener_id set" where
  "report_ends (BListenFailed err lid a) = {lid}"
| "report_ends e = {}"

definition live_receiver :: "('r, 'm) receiver_ops \<Rightarrow> bool" where
  "live_receiver rops \<longleftrightarrow> (\<forall>r r'. rx_poll_next rops r \<noteq> (Ready None, r'))"

lemma list_receiver_live: "live_receiver list_receiver"
  by (auto simp: live_receiver_def list_receiver_def split: list.splits)

lemma ignored_report_simps [simp]:
  "\<not> ignored_report (BListenSuccess lid a)" "\<not> ignored_report (BListenFailed err lid a)"
  "ignored_report (BPeerClosed p a c)" "ignored_report (BDialFailed err p a)"
  by (simp_all add: ignored_report_def)

lemma endpoint_remove_listener_fields [simp]:
  "et_from_behaviour (fst (endpoint_remove_listener lid t)) = et_from_behaviour t"
  "et_to_behaviour (fst (endpoint_remove_listener lid t)) = et_to_behaviour t"
  "et_pending_to_behaviour (fst (endpoint_remove_listener lid t)) = et_pending_to_behaviour t"
  "et_relay_addr (fst (endpoint_remove_listener lid t)) = et_relay_addr t"
  "et_relay_peer_id (fst (endpoint_remove_listener lid t)) = et_relay_peer_id t"
  by (simp_all add: endpoint_remove_listener_def)

text \<open>The loop over reports, on a channel with the documented order: it ends.\<close>

type_synonym ('ls, 'lr, 'ts, 'tr, 'ss) drained =
  "(panic + ('ls, 'lr, 'ts, 'tr) endpoint_transport \<times> 'ss endpoint_transport_event option) option"

definition drains_to ::
  "('tr \<Rightarrow> behaviour_to_transport_event list) \<Rightarrow> ('ls, 'lr, 'ts, 'tr) endpoint_transport \<Rightarrow>
     ('ls, 'lr, 'ts, 'tr, 'ss) drained \<Rightarrow> bool" where
  "drains_to queued t out \<longleftrightarrow>
     (case dropWhile ignored_report (queued (et_from_behaviour t)) of
        [] \<Rightarrow> \<exists>r. out = Some (Inr (t\<lparr>et_from_behaviour := r\<rparr>, None)) \<and> queued r = []
      | e # es \<Rightarrow> \<exists>r. out = Some (Inr
            ((case e of
                BListenFailed err lid a \<Rightarrow>
                  fst (endpoint_remove_listener lid (t\<lparr>et_from_behaviour := r\<rparr>))
              | _ \<Rightarrow> t\<lparr>et_from_behaviour := r\<rparr>), report_event e)) \<and> queued r = es)"

lemma drains_to_skip:
  assumes "queued (et_from_behaviour t) = e # queued r" and "ignored_report e"
  shows "drains_to queued (t\<lparr>et_from_behaviour := r\<rparr>) out \<longleftrightarrow> drains_to queued t out"
  using assms
  by (cases "dropWhile ignored_report (queued r)")
     (simp_all add: drains_to_def del: dropWhile_eq_Nil_conv
       split: behaviour_to_transport_event.split)

lemma endpoint_drain_spec:
  fixes t :: "('ls, 'lr, 'ts, 'tr) endpoint_transport"
  assumes "fifo_receiver rops queued" and "live_receiver rops"
  shows "drains_to queued t (endpoint_drain rops t :: ('ls, 'lr, 'ts, 'tr, 'ss) drained)"
proof (induction "queued (et_from_behaviour t)" arbitrary: t)
  case Nil
  obtain x r where p: "rx_poll_next rops (et_from_behaviour t) = (x, r)"
    by fastforce
  show ?case
  proof (cases x)
    case Pending
    with p fifo_receiver_Pending [OF assms(1), of "et_from_behaviour t" r] Nil show ?thesis
      by (auto simp: drains_to_def endpoint_drain.simps [of rops t])
  next
    case (Ready m)
    with p assms(2) fifo_receiver_Some [OF assms(1), of "et_from_behaviour t"] Nil show ?thesis
      by (cases m) (auto simp: live_receiver_def)
  qed
next
  case (Cons e es)
  obtain x r where p: "rx_poll_next rops (et_from_behaviour t) = (x, r)"
    by fastforce
  with Cons.hyps(2) assms fifo_receiver_Pending [OF assms(1), of "et_from_behaviour t" r]
  obtain m where x: "x = Ready (Some m)"
    by (cases x) (auto simp: live_receiver_def split: option.splits, metis not_None_eq)
  with fifo_receiver_Some [OF assms(1)] p Cons.hyps(2) have m: "m = e" "queued r = es"
    by fastforce+
  let ?t = "t\<lparr>et_from_behaviour := r\<rparr>"
  show ?case
  proof (cases "ignored_report e")
    case True
    then have "endpoint_drain rops t = (endpoint_drain rops ?t :: ('ls, 'lr, 'ts, 'tr, 'ss) drained)"
      using p x m by (cases e) (simp_all add: endpoint_drain.simps [of rops t])
    moreover have "drains_to queued ?t (endpoint_drain rops ?t :: ('ls, 'lr, 'ts, 'tr, 'ss) drained)"
      using Cons.hyps(1) [of ?t] m by simp
    moreover have "drains_to queued ?t out \<longleftrightarrow> drains_to queued t out"
      for out :: "('ls, 'lr, 'ts, 'tr, 'ss) drained"
      using Cons.hyps(2) m True by (intro drains_to_skip) auto
    ultimately show ?thesis by simp
  next
    case False
    with p x m Cons.hyps(2) [symmetric] show ?thesis
      by (cases e) (auto simp: drains_to_def endpoint_drain.simps [of rops t])
  qed
qed

text \<open>Sending keeps the stream: what was sent, then what is queued.\<close>

lemma endpoint_send_pending_stream:
  assumes "fifo_sender tops msgs"
  shows "endpoint_send_pending tops tx evs = Inr (tx', evs') \<Longrightarrow> msgs tx' @ evs' = msgs tx @ evs"
proof (induction evs arbitrary: tx)
  case Nil
  then show ?case by simp
next
  case (Cons event evs)
  obtain r s1 where r: "tx_poll_ready tops tx = (r, s1)"
    by fastforce
  then have s1: "msgs s1 = msgs tx"
    by (rule fifo_poll_ready [OF assms])
  show ?case
  proof (cases "r = Pending")
    case True
    with Cons.prems r s1 show ?thesis by simp
  next
    case False
    with Cons.prems r obtain u s2 where s2: "tx_start_send tops s1 event = (Inr u, s2)"
      and q: "endpoint_send_pending tops s2 evs = Inr (tx', evs')"
      by (auto split: poll.splits sum.splits prod.splits)
    from Cons.IH [OF q] fifo_start_send_Inr [OF assms s2] s1 show ?thesis by simp
  qed
qed

lemma live_send_pending:
  "live_sender tops \<Longrightarrow> \<exists>tx' evs'. endpoint_send_pending tops tx evs = Inr (tx', evs')"
proof (induction evs arbitrary: tx)
  case Nil
  then show ?case by simp
next
  case (Cons event evs)
  obtain r s1 where r: "tx_poll_ready tops tx = (r, s1)"
    by fastforce
  show ?case
  proof (cases r)
    case Pending
    with r show ?thesis by simp
  next
    case (Ready x)
    then obtain u where x: "x = Inr u"
      using r Cons.prems by (cases x) (auto simp: live_sender_def)
    obtain y s2 where y: "tx_start_send tops s1 event = (y, s2)"
      by fastforce
    with r Ready x Cons.prems obtain v where "y = Inr v"
      by (cases y) (auto simp: live_sender_def)
    with Cons r Ready x y show ?thesis by simp
  qed
qed

lemma endpoint_poll_listener_fields:
  "endpoint_poll_listener lrops t = (t', r) \<Longrightarrow>
     et_pending_to_behaviour t' = et_pending_to_behaviour t \<and>
     et_to_behaviour t' = et_to_behaviour t \<and> et_from_behaviour t' = et_from_behaviour t \<and>
     et_relay_addr t' = et_relay_addr t \<and> et_relay_peer_id t' = et_relay_peer_id t"
  by (auto simp: endpoint_poll_listener_def split: option.splits prod.splits poll.splits)

text \<open>
  C26: While the behaviour is alive, a poll of the transport returns and does not panic: the loop
  over the behaviour's reports ends.
\<close>

theorem endpoint_transport_poll_returns:
  fixes lrops :: "('lr, io_error + 'ss connection) receiver_ops"
    and t :: "('ls, 'lr, 'ts, 'tr) endpoint_transport"
  assumes "fifo_receiver rops queued" and "live_receiver rops" and "live_sender tops"
  shows "\<exists>t' r. endpoint_transport_poll rops tops lrops t = Some (Inr (t', r))"
proof -
  from endpoint_drain_spec [OF assms(1,2), of t] obtain t1 ev
    where d: "endpoint_drain rops t = (Some (Inr (t1, ev)) :: ('ls, 'lr, 'ts, 'tr, 'ss) drained)"
    by (auto simp: drains_to_def split: list.splits)
  obtain tx evs where s: "endpoint_send_pending tops (et_to_behaviour t1) (et_pending_to_behaviour t1) = Inr (tx, evs)"
    using live_send_pending [OF assms(3)] by blast
  obtain x tx' where "tx_poll_flush tops tx = (x, tx')"
    by fastforce
  with d s assms(3) show ?thesis
    by (cases ev) (auto simp: endpoint_transport_poll_def live_sender_def surj_pair
        split: poll.split sum.split)
qed

theorem endpoint_transport_poll_returns_witness:
  "\<exists>t' r. endpoint_transport_poll list_receiver open_ops list_receiver
     (fst (endpoint_transport_new (PeerId [1]) (Multiaddr [9]) (PeerId [9]) []
        [BPeerClosed (PeerId [9]) (Multiaddr [9]) (ConnectionId 1), BListenSuccess (ListenerId 1) (Multiaddr [1])]
        ([] :: bytes)
      :: ((io_error + bytes connection) list, (io_error + bytes connection) list, _, _) endpoint_transport
         \<times> (bytes, (io_error + bytes connection) list, bytes) endpoint_behaviour))
   = Some (Inr (t', r))"
  by (rule endpoint_transport_poll_returns [OF list_receiver_fifo list_receiver_live open_ops_live])

lemma endpoint_transport_poll_report:
  fixes lrops :: "('lr, io_error + 'ss connection) receiver_ops"
    and t :: "('ls, 'lr, 'ts, 'tr) endpoint_transport"
  assumes "fifo_receiver rops queued" and "live_receiver rops"
    and "dropWhile ignored_report (queued (et_from_behaviour t)) = e # es"
  shows "\<exists>t' ev. endpoint_transport_poll rops tops lrops t = Some (Inr (t', Ready ev)) \<and>
     report_event e = Some ev \<and> queued (et_from_behaviour t') = es \<and>
     et_pending_to_behaviour t' = et_pending_to_behaviour t \<and>
     et_to_behaviour t' = et_to_behaviour t \<and>
     et_listener t' = (case et_listener t of None \<Rightarrow> None
       | Some l \<Rightarrow> if el_listener_id l \<in> report_ends e then None else Some l)"
proof -
  have "\<not> ignored_report e"
    using assms(3) by (metis dropWhile_eq_Cons_conv)
  then show ?thesis
    using endpoint_drain_spec [OF assms(1,2), of t] assms(3)
    by (cases e) (auto simp: drains_to_def endpoint_transport_poll_def endpoint_remove_listener_def
        split: option.splits)
qed

text \<open>
  A poll reports the oldest report of the behaviour that concerns the application, after
  discarding those about closed relays and failed dials; a failed listen also ends the listener it
  names and no other. Reports after it stay queued, and nothing is sent to the behaviour.
\<close>

theorem endpoint_transport_poll_reports:
  fixes lrops :: "('lr, io_error + 'ss connection) receiver_ops"
    and t :: "('ls, 'lr, 'ts, 'tr) endpoint_transport"
  assumes "fifo_receiver rops queued" and "live_receiver rops"
    and "dropWhile ignored_report (queued (et_from_behaviour t)) = e # es"
  shows "\<exists>t' ev. endpoint_transport_poll rops tops lrops t = Some (Inr (t', Ready ev)) \<and>
     report_event e = Some ev \<and> queued (et_from_behaviour t') = es \<and>
     et_pending_to_behaviour t' = et_pending_to_behaviour t \<and>
     et_to_behaviour t' = et_to_behaviour t \<and>
     et_listener t' = (case et_listener t of None \<Rightarrow> None
       | Some l \<Rightarrow> if el_listener_id l \<in> report_ends e then None else Some l)"
  by (rule endpoint_transport_poll_report [OF assms])

theorem endpoint_transport_poll_reports_witness:
  "report_event (BListenFailed (IoSimple KindTimedOut) (ListenerId 1) (Multiaddr [1])) =
     Some (TrListenerError (ListenerId 1) (TeListenFailed (IoSimple KindTimedOut)) :: bytes endpoint_transport_event)"
proof -
  let ?t = "fst (endpoint_transport_new (PeerId [1]) (Multiaddr [9]) (PeerId [9]) []
        [BPeerClosed (PeerId [9]) (Multiaddr [9]) (ConnectionId 1),
         BListenFailed (IoSimple KindTimedOut) (ListenerId 1) (Multiaddr [1])] ([] :: bytes)
      :: ((io_error + bytes connection) list, (io_error + bytes connection) list, _, _) endpoint_transport
         \<times> (bytes, (io_error + bytes connection) list, bytes) endpoint_behaviour)"
  have "dropWhile ignored_report (et_from_behaviour ?t) =
      [BListenFailed (IoSimple KindTimedOut) (ListenerId 1) (Multiaddr [1])]"
    by (simp add: endpoint_transport_new_def)
  from endpoint_transport_poll_reports [OF list_receiver_fifo list_receiver_live this,
    of "open_ops" "list_receiver :: (_, io_error + bytes connection) receiver_ops"]
  show ?thesis by auto
qed

section \<open>Runs of the transport\<close>

datatype ('ls, 'lr) transport_input =
    TiListenOn 'ls 'lr listener_id multiaddr
  | TiRemoveListener listener_id
  | TiDial oneshot multiaddr
  | TiDialAsListener multiaddr
  | TiPoll

text \<open>One call on the transport that returns, and a sequence of them.\<close>

inductive transport_step ::
  "lib \<Rightarrow> ('tr, behaviour_to_transport_event) receiver_ops \<Rightarrow>
     ('ts, 'ls transport_to_behaviour_event) sender_ops \<Rightarrow>
     ('lr, io_error + 'ss connection) receiver_ops \<Rightarrow> ('ls, 'lr, 'ts, 'tr) endpoint_transport \<Rightarrow>
     ('ls, 'lr) transport_input \<Rightarrow> ('ls, 'lr, 'ts, 'tr) endpoint_transport \<Rightarrow> bool"
  for L rops tops lrops where
  listen_on: "endpoint_listen_on conn_sender conn_receiver lid a t = (t', es :: 'ss effect list, r) \<Longrightarrow>
     transport_step L rops tops lrops t (TiListenOn conn_sender conn_receiver lid a) t'"
| remove_listener: "endpoint_remove_listener lid t = (t', b) \<Longrightarrow>
     transport_step L rops tops lrops t (TiRemoveListener lid) t'"
| dial: "endpoint_dial L conn a t = (t', es :: 'ss effect list, r) \<Longrightarrow>
     transport_step L rops tops lrops t (TiDial conn a) t'"
| dial_as_listener: "endpoint_dial_as_listener a t = (t', r) \<Longrightarrow>
     transport_step L rops tops lrops t (TiDialAsListener a) t'"
| poll: "endpoint_transport_poll rops tops lrops t = Some (Inr (t', ev)) \<Longrightarrow>
     transport_step L rops tops lrops t TiPoll t'"

inductive transport_run ::
  "lib \<Rightarrow> ('tr, behaviour_to_transport_event) receiver_ops \<Rightarrow>
     ('ts, 'ls transport_to_behaviour_event) sender_ops \<Rightarrow>
     ('lr, io_error + 'ss connection) receiver_ops \<Rightarrow> ('ls, 'lr, 'ts, 'tr) endpoint_transport \<Rightarrow>
     ('ls, 'lr) transport_input list \<Rightarrow> ('ls, 'lr, 'ts, 'tr) endpoint_transport \<Rightarrow> bool"
  for L rops tops lrops where
  stop: "transport_run L rops tops lrops t [] t"
| call: "transport_step L rops tops lrops t i t1 \<Longrightarrow> transport_run L rops tops lrops t1 is t2 \<Longrightarrow>
     transport_run L rops tops lrops t (i # is) t2"

text \<open>What was asked of the behaviour so far: what was sent to it, then what is queued.\<close>

definition asked ::
  "('ts \<Rightarrow> 'ls transport_to_behaviour_event list) \<Rightarrow> ('ls, 'lr, 'ts, 'tr) endpoint_transport \<Rightarrow>
     'ls transport_to_behaviour_event list" where
  "asked msgs t = msgs (et_to_behaviour t) @ et_pending_to_behaviour t"

fun is_dial :: "'ls transport_to_behaviour_event \<Rightarrow> bool" where
  "is_dial (TDial dst_peer_id dst_addr relay_addr relay_peer_id sender) = True"
| "is_dial (TListen listener_id local_peer_id local_addr relay_peer_id relay_addr sender) = False"

fun dials_asked ::
  "lib \<Rightarrow> multiaddr \<Rightarrow> peer_id \<Rightarrow> ('ls, 'lr) transport_input \<Rightarrow> 'ls transport_to_behaviour_event list"
where
  "dials_asked L relay_addr relay_peer_id (TiDial conn a) =
     (case peer_of_addr L a of None \<Rightarrow> []
      | Some dst_peer_id \<Rightarrow> [TDial dst_peer_id a relay_addr relay_peer_id conn])"
| "dials_asked L relay_addr relay_peer_id i = []"

lemma endpoint_drain_frame:
  fixes t :: "('ls, 'lr, 'ts, 'tr) endpoint_transport"
  assumes "fifo_receiver rops queued" and "live_receiver rops"
  obtains t1 dr where
    "endpoint_drain rops t = (Some (Inr (t1, dr)) :: ('ls, 'lr, 'ts, 'tr, 'ss) drained)"
    "et_to_behaviour t1 = et_to_behaviour t"
    "et_pending_to_behaviour t1 = et_pending_to_behaviour t"
    "et_relay_addr t1 = et_relay_addr t" "et_relay_peer_id t1 = et_relay_peer_id t"
proof (cases "dropWhile ignored_report (queued (et_from_behaviour t))")
  case Nil
  with endpoint_drain_spec [OF assms, of t] that show ?thesis
    by (fastforce simp: drains_to_def)
next
  case (Cons e es)
  with endpoint_drain_spec [OF assms, of t] obtain r where
    "endpoint_drain rops t = (Some (Inr
        ((case e of
            BListenFailed err lid a \<Rightarrow>
              fst (endpoint_remove_listener lid (t\<lparr>et_from_behaviour := r\<rparr>))
          | _ \<Rightarrow> t\<lparr>et_from_behaviour := r\<rparr>), report_event e)) :: ('ls, 'lr, 'ts, 'tr, 'ss) drained)"
    by (auto simp: drains_to_def)
  then show ?thesis
    by (rule that) (simp_all split: behaviour_to_transport_event.split)
qed

lemma endpoint_transport_poll_asked:
  fixes lrops :: "('lr, io_error + 'ss connection) receiver_ops"
    and t :: "('ls, 'lr, 'ts, 'tr) endpoint_transport"
  assumes "endpoint_transport_poll rops tops lrops t = Some (Inr (t', ev))"
    and fifo: "fifo_sender tops msgs" and "fifo_receiver rops queued" and "live_receiver rops"
  shows "asked msgs t' = asked msgs t \<and> et_relay_addr t' = et_relay_addr t \<and>
     et_relay_peer_id t' = et_relay_peer_id t"
proof -
  obtain t1 dr where
    d: "endpoint_drain rops t = (Some (Inr (t1, dr)) :: ('ls, 'lr, 'ts, 'tr, 'ss) drained)"
    and t1: "et_to_behaviour t1 = et_to_behaviour t"
    "et_pending_to_behaviour t1 = et_pending_to_behaviour t"
    "et_relay_addr t1 = et_relay_addr t" "et_relay_peer_id t1 = et_relay_peer_id t"
    by (rule endpoint_drain_frame [OF assms(3,4)])
  show ?thesis
  proof (cases dr)
    case (Some e)
    with assms(1) d t1 show ?thesis
      by (simp add: endpoint_transport_poll_def asked_def)
  next
    case None
    with assms(1) d obtain tx evs x tx' where
      s: "endpoint_send_pending tops (et_to_behaviour t1) (et_pending_to_behaviour t1) = Inr (tx, evs)"
      and f: "tx_poll_flush tops tx = (x, tx')"
      and l: "endpoint_poll_listener lrops
        (t1\<lparr>et_to_behaviour := tx', et_pending_to_behaviour := evs\<rparr>) = (t', ev)"
      by (auto simp: endpoint_transport_poll_def split: sum.splits prod.splits poll.splits)
    from endpoint_send_pending_stream [OF fifo s] fifo_poll_flush [OF fifo f]
      endpoint_poll_listener_fields [OF l] t1
    show ?thesis by (simp add: asked_def)
  qed
qed

lemma transport_step_asked:
  assumes "transport_step L rops tops lrops t i t'"
    and "fifo_sender tops msgs" and "fifo_receiver rops queued" and "live_receiver rops"
  shows "filter is_dial (asked msgs t') = filter is_dial (asked msgs t) @
      dials_asked L (et_relay_addr t) (et_relay_peer_id t) i \<and>
     et_relay_addr t' = et_relay_addr t \<and> et_relay_peer_id t' = et_relay_peer_id t"
  using assms(1)
proof (cases rule: transport_step.cases)
  case (listen_on conn_sender conn_receiver lid a es r)
  then show ?thesis
    by (auto simp: endpoint_listen_on_def asked_def split: option.splits)
next
  case (remove_listener lid b)
  then show ?thesis
    by (auto simp: endpoint_remove_listener_def asked_def split: if_splits)
next
  case (dial conn a es r)
  then show ?thesis
    by (auto simp: endpoint_dial_def asked_def split: option.splits)
next
  case (dial_as_listener a r)
  then show ?thesis
    by (auto simp: endpoint_dial_as_listener_def)
next
  case (poll ev)
  with endpoint_transport_poll_asked [OF poll(2) assms(2-4)] show ?thesis by simp
qed

text \<open>
  C32: Every dial of an address with a peer id asks the behaviour, through this transport's relay and
  with the dial's own sender, exactly once and in the order of the dials: in every sequence of
  calls, the dials sent to the behaviour or queued for it are those. An address without a peer id
  asks for nothing.
\<close>

theorem endpoint_dials_asked_in_order:
  assumes "transport_run L rops tops lrops t is t'"
    and "fifo_sender tops msgs" and "fifo_receiver rops queued" and "live_receiver rops"
  shows "filter is_dial (msgs (et_to_behaviour t') @ et_pending_to_behaviour t') =
     filter is_dial (msgs (et_to_behaviour t) @ et_pending_to_behaviour t) @
     concat (map (dials_asked L (et_relay_addr t) (et_relay_peer_id t)) is)"
proof -
  have "filter is_dial (asked msgs t') = filter is_dial (asked msgs t) @
     concat (map (dials_asked L (et_relay_addr t) (et_relay_peer_id t)) is)"
    using assms(1)
  proof (induction rule: transport_run.induct)
    case (stop t)
    then show ?case by simp
  next
    case (call t i t1 "is" t2)
    with transport_step_asked [OF call.hyps(1) assms(2-4)] show ?case by simp
  qed
  then show ?thesis by (simp add: asked_def)
qed

theorem endpoint_dials_asked_in_order_witness:
  "\<exists>t'. transport_run raw_lib list_receiver open_ops
      (list_receiver :: (_, io_error + bytes connection) receiver_ops)
      (\<lparr>et_local_peer_id = PeerId [1], et_relay_addr = Multiaddr [9],
        et_relay_peer_id = PeerId [9], et_pending_to_behaviour = [], et_to_behaviour = [],
        et_from_behaviour = [], et_listener = None\<rparr>
       :: (bytes, (io_error + bytes connection) list, bytes transport_to_behaviour_event list,
           behaviour_to_transport_event list) endpoint_transport)
      [TiDial (Oneshot 1) (Multiaddr [5, 1]), TiDial (Oneshot 2) (Multiaddr []), TiPoll] t' \<and>
     filter is_dial (et_to_behaviour t' @ et_pending_to_behaviour t') =
       [TDial (PeerId [5]) (Multiaddr [5, 1]) (Multiaddr [9]) (PeerId [9]) (Oneshot 1)]"
  (is "\<exists>t'. transport_run _ _ _ _ ?t ?is t' \<and> _")
proof -
  let ?d = "TDial (PeerId [5]) (Multiaddr [5, 1]) (Multiaddr [9]) (PeerId [9]) (Oneshot 1)"
  have 1: "transport_step raw_lib list_receiver open_ops (list_receiver :: (_, io_error + bytes connection) receiver_ops) ?t
      (TiDial (Oneshot 1) (Multiaddr [5, 1])) (?t\<lparr>et_pending_to_behaviour := [?d]\<rparr>)"
    by (rule transport_step.dial) (simp add: endpoint_dial_def raw_lib_def)
  have 2: "transport_step raw_lib list_receiver open_ops (list_receiver :: (_, io_error + bytes connection) receiver_ops)
      (?t\<lparr>et_pending_to_behaviour := [?d]\<rparr>)
      (TiDial (Oneshot 2) (Multiaddr [])) (?t\<lparr>et_pending_to_behaviour := [?d]\<rparr>)"
    by (rule transport_step.dial) (simp add: endpoint_dial_def raw_lib_def)
  have 3: "transport_step raw_lib list_receiver open_ops (list_receiver :: (_, io_error + bytes connection) receiver_ops)
      (?t\<lparr>et_pending_to_behaviour := [?d]\<rparr>) TiPoll (?t\<lparr>et_to_behaviour := [?d]\<rparr>)"
    by (rule transport_step.poll)
       (simp add: endpoint_transport_poll_def endpoint_drain_Pending
         list_receiver_def open_ops_def endpoint_poll_listener_def)
  from 1 2 3 have r: "transport_run raw_lib list_receiver open_ops
      (list_receiver :: (_, io_error + bytes connection) receiver_ops) ?t ?is
      (?t\<lparr>et_to_behaviour := [?d]\<rparr>)"
    by (blast intro: transport_run.intros)
  have "filter is_dial (et_to_behaviour (?t\<lparr>et_to_behaviour := [?d]\<rparr>) @
      et_pending_to_behaviour (?t\<lparr>et_to_behaviour := [?d]\<rparr>)) =
    filter is_dial (et_to_behaviour ?t @ et_pending_to_behaviour ?t) @
    concat (map (dials_asked raw_lib (et_relay_addr ?t) (et_relay_peer_id ?t)) ?is)"
    by (rule endpoint_dials_asked_in_order
        [OF r open_ops_fifo list_receiver_fifo list_receiver_live])
  also have "\<dots> = [?d]"
    by (simp add: raw_lib_def)
  finally show ?thesis
    using r by blast
qed

text \<open>
  A transport has one listener: listening again, on whatever address, gives the listener it
  has, creates nothing and tells the behaviour nothing, until the listener is removed.
\<close>

lemma endpoint_second_listen_ignored:
  assumes "et_listener t = None"
    and "endpoint_listen_on s1 r1 lid1 a t = (t1, es1 :: 'ss effect list, res1)"
  shows "res1 = Inr lid1 \<and> endpoint_listen_on s2 r2 lid2 b t1 = (t1, [] :: 'ss effect list, Inr lid1) \<and>
     endpoint_remove_listener lid1 t1 = (t1\<lparr>et_listener := None\<rparr>, True) \<and>
     (lid2 \<noteq> lid1 \<longrightarrow> endpoint_remove_listener lid2 t1 = (t1, False))"
  using assms by (auto simp: endpoint_listen_on_def endpoint_remove_listener_def)

text \<open>
  An incoming connection that a poll reports is the oldest one in the channel of the listener
  that the transport has, reported with the listener's id and address and the connection's remote
  address; the channel keeps the rest in order. The poll has then nothing left to report from the
  behaviour.
\<close>

theorem endpoint_transport_incoming:
  fixes lrops :: "('lr, io_error + 'ss connection) receiver_ops"
    and t :: "('ls, 'lr, 'ts, 'tr) endpoint_transport"
  assumes "endpoint_transport_poll rops tops lrops t =
      Some (Inr (t', Ready (TrIncoming lid conn local_addr send_back_addr)))"
    and "fifo_receiver rops queued" and "live_receiver rops" and "fifo_receiver lrops accepted"
  shows "\<exists>l r r'. et_listener t = Some l \<and> el_listener_id l = lid \<and> el_local_addr l = local_addr \<and>
     el_receiver l = Some r \<and> accepted r = Inr conn # accepted r' \<and>
     send_back_addr = remote_addr conn \<and>
     et_listener t' = Some (l\<lparr>el_receiver := Some r'\<rparr>) \<and>
     list_all ignored_report (queued (et_from_behaviour t))"
proof -
  have nil: "dropWhile ignored_report (queued (et_from_behaviour t)) = []"
  proof (cases "dropWhile ignored_report (queued (et_from_behaviour t))")
    case (Cons e es)
    from endpoint_transport_poll_report [OF assms(2,3) this, of tops lrops] assms(1)
    have "report_event e = Some (TrIncoming lid conn local_addr send_back_addr)"
      by auto
    then show ?thesis by (cases e) simp_all
  qed simp
  with endpoint_drain_spec [OF assms(2,3), of t] obtain r0 where
    d: "endpoint_drain rops t =
      (Some (Inr (t\<lparr>et_from_behaviour := r0\<rparr>, None)) :: ('ls, 'lr, 'ts, 'tr, 'ss) drained)"
    by (auto simp: drains_to_def)
  have ign: "list_all ignored_report (queued (et_from_behaviour t))"
    using nil by (simp add: list_all_iff)
  from d assms(1) obtain t1 where l: "endpoint_poll_listener lrops t1 =
      (t', Ready (TrIncoming lid conn local_addr send_back_addr))"
    and t1: "et_listener t1 = et_listener t"
    by (auto simp: endpoint_transport_poll_def split: sum.splits prod.splits poll.splits)
  from l obtain ls where ls: "et_listener t1 = Some ls"
    by (auto simp: endpoint_poll_listener_def split: option.splits)
  from l ls obtain r r' where r: "el_receiver ls = Some r"
    and rx: "rx_poll_next lrops r = (Ready (Some (Inr conn)), r')"
    and "t' = t1\<lparr>et_listener := Some (ls\<lparr>el_receiver := Some r'\<rparr>)\<rparr>"
    and "lid = el_listener_id ls" "local_addr = el_local_addr ls" "send_back_addr = remote_addr conn"
    by (auto simp: endpoint_poll_listener_def endpoint_listener_poll_next_def
        split: option.splits prod.splits poll.splits sum.splits)
  with fifo_receiver_Some [OF assms(4) rx] ls t1 ign show ?thesis by auto
qed

theorem endpoint_transport_incoming_witness:
  "\<exists>t'. endpoint_transport_poll list_receiver open_ops list_receiver
      (\<lparr>et_local_peer_id = PeerId [1], et_relay_addr = Multiaddr [9],
        et_relay_peer_id = PeerId [9], et_pending_to_behaviour = [], et_to_behaviour = [],
        et_from_behaviour = [], et_listener = Some \<lparr>el_local_addr = Multiaddr [1],
          el_listener_id = ListenerId 1, el_receiver =
            Some [Inr (new_connection (Multiaddr [2]) [] [7]) :: io_error + bytes connection]\<rparr>\<rparr>
       :: (bytes, (io_error + bytes connection) list, bytes transport_to_behaviour_event list,
           behaviour_to_transport_event list) endpoint_transport) =
     Some (Inr (t', Ready (TrIncoming (ListenerId 1) (new_connection (Multiaddr [2]) [] [7])
       (Multiaddr [1]) (Multiaddr [2])))) \<and>
     et_listener t' = Some \<lparr>el_local_addr = Multiaddr [1], el_listener_id = ListenerId 1,
       el_receiver = Some []\<rparr>"
  (is "\<exists>t'. ?poll = _ \<and> _")
proof -
  obtain t' where p: "?poll =
      Some (Inr (t', Ready (TrIncoming (ListenerId 1) (new_connection (Multiaddr [2]) [] [7])
        (Multiaddr [1]) (Multiaddr [2]))))"
    by (simp add: endpoint_transport_poll_def endpoint_drain_Pending
         list_receiver_def open_ops_def endpoint_poll_listener_def endpoint_listener_poll_next_def
         new_connection_def)
  from endpoint_transport_incoming [OF p list_receiver_fifo list_receiver_live list_receiver_fifo]
  have "et_listener t' = Some \<lparr>el_local_addr = Multiaddr [1], el_listener_id = ListenerId 1,
      el_receiver = Some []\<rparr>"
    by auto
  with p show ?thesis by blast
qed

end
