(* ===== verification/Endpoint_Dials.thy ===== *)
theory Endpoint_Dials
  imports Endpoint_Safety
begin

text \<open>
  The dials of the endpoint's behaviour (\<open>src/endpoint/behaviour.rs\<close>): where the senders of
  dials go, and when a relay is dialed. The behaviour is interpreted as a ledger of senders.
\<close>

section \<open>No dial is lost\<close>

text \<open>The senders that dials and finished dials bring in, and those that waiting events hold.\<close>

fun dial_sender :: "'ls transport_to_behaviour_event \<Rightarrow> oneshot multiset" where
  "dial_sender (TDial dst_peer_id dst_addr relay_addr relay_peer_id sender) = {#sender#}"
| "dial_sender (TListen listener_id local_peer_id local_addr relay_peer_id relay_addr sender) = {#}"

definition dial_senders :: "'ls transport_to_behaviour_event list \<Rightarrow> oneshot multiset" where
  "dial_senders evs = sum_list (map dial_sender evs)"

fun endpoint_taken :: "('ss, 'ls) endpoint_input \<Rightarrow> oneshot multiset" where
  "endpoint_taken (EbPoll (Ready (Some event))) = dial_sender event"
| "endpoint_taken (EbPoll (Ready None)) = {#}"
| "endpoint_taken (EbPoll Pending) = {#}"
| "endpoint_taken (EbHandler p c (EoDialSuccess relay connection sender)) = {#sender#}"
| "endpoint_taken (EbHandler p c (EoDialFailed err relay sender)) = {#sender#}"
| "endpoint_taken i = {#}"

definition waiting_senders :: "(peer_id \<rightharpoonup> 'ls transport_to_behaviour_event list) \<Rightarrow> oneshot multiset" where
  "waiting_senders w = \<Sum>\<^sub># (image_mset dial_senders (ran_mset w))"

definition endpoint_held :: "('ss, 'ls, 'ts) endpoint_behaviour \<Rightarrow> oneshot multiset" where
  "endpoint_held s = waiting_senders (eb_wait s) + dial_senders (eb_pending_t2b s)"

fun action_sender :: "endpoint_action \<Rightarrow> oneshot multiset" where
  "action_sender (NotifyHandler p (EiDial dst_peer_id dst_addr sender)) = {#sender#}"
| "action_sender a = {#}"

fun endpoint_given :: "('ss, endpoint_action) emission \<Rightarrow> oneshot multiset" where
  "endpoint_given (Effect e) = settled e"
| "endpoint_given (Emit a) = action_sender a"

lemma dial_senders_simps [simp]:
  "dial_senders [] = {#}"
  "dial_senders (e # es) = dial_sender e + dial_senders es"
  "dial_senders (es @ fs) = dial_senders es + dial_senders fs"
  by (simp_all add: dial_senders_def)

lemma waiting_senders_empty [simp]: "waiting_senders Map.empty = {#}"
  by (simp add: waiting_senders_def)

lemma waiting_senders_split:
  "finite (dom w) \<Longrightarrow> w p = Some evs \<Longrightarrow>
     waiting_senders w = dial_senders evs + waiting_senders (w(p := None))"
  by (simp add: waiting_senders_def ran_mset_split)

lemma waiting_senders_update:
  "finite (dom w) \<Longrightarrow>
     waiting_senders (w(p \<mapsto> evs)) = dial_senders evs + waiting_senders (w(p := None))"
  by (simp add: waiting_senders_def ran_mset_update)

lemma waiting_senders_push:
  assumes "finite (dom w)"
  shows "waiting_senders (w(p \<mapsto> (case w p of None \<Rightarrow> [] | Some evs \<Rightarrow> evs) @ [event])) =
     waiting_senders w + dial_sender event"
proof (cases "w p")
  case None
  then show ?thesis
    using assms by (simp add: waiting_senders_update map_delete_absent)
next
  case (Some evs)
  then show ?thesis
    using assms waiting_senders_split [OF assms Some]
    by (simp add: waiting_senders_update)
qed

lemma endpoint_inv_finite: "endpoint_inv s \<Longrightarrow> finite (dom (eb_wait s))"
  by (simp add: endpoint_inv_def endpoint_relays_def)

text \<open>Only a dial that is dispatched leaves through \<open>poll\<close>; queued actions hold no sender.\<close>

definition endpoint_quiet :: "('ss, 'ls, 'ts) endpoint_behaviour \<Rightarrow> bool" where
  "endpoint_quiet s \<longleftrightarrow> (\<forall>a\<in>set (eb_pending_actions s). \<exists>err. a = GenerateEvent (OtherError err))"

lemma endpoint_next_event_balance:
  assumes "endpoint_next_event recv s = (s', r)" and "finite (dom (eb_wait s))"
  shows "endpoint_held s + endpoint_taken (EbPoll recv) =
     endpoint_held s' + (case r of Inl a \<Rightarrow> action_sender a | Inr None \<Rightarrow> {#}
       | Inr (Some event) \<Rightarrow> dial_sender event)"
proof (cases "\<exists>event. recv = Ready (Some event)")
  case False
  then have "endpoint_taken (EbPoll recv) = {#}"
    by (metis endpoint_taken.simps(2,3) option.exhaust poll.exhaust)
  with endpoint_next_event_none [OF assms(1)] False show ?thesis
    by (auto simp: endpoint_held_def) (metis (no_types, lifting) add.commute add.assoc
      dial_senders_simps(2) endpoint_behaviour.select_convs(9) endpoint_behaviour.surjective
      endpoint_behaviour.update_convs(10))
next
  case True
  with assms show ?thesis
    by (auto simp: endpoint_next_event_def Let_def endpoint_held_def waiting_senders_push
        split: if_splits)
qed

lemma endpoint_dispatch_sender:
  "endpoint_dispatch event s = (s', a) \<Longrightarrow> action_sender a = dial_sender event"
  by (cases event) auto

lemma endpoint_new_connections_action:
  "endpoint_new_connections L lops ncs s = Inr (s', Some a) \<Longrightarrow> \<exists>ev. a = GenerateEvent ev"
proof (induction L lops ncs s rule: endpoint_new_connections.induct)
  case (1 L lops s)
  then show ?case by simp
next
  case (2 L lops nc ncs s)
  then show ?case
    by (auto split: option.splits offer.splits if_splits)
qed

lemma flush_transports_action:
  "flush_transports L tops entries s = Inr (s', Some a) \<Longrightarrow> \<exists>ev. a = GenerateEvent ev"
  by (induction L tops entries s rule: flush_transports.induct)
     (auto split: option.splits flushed.splits)

lemma endpoint_held_frame:
  "eb_wait s' = eb_wait s \<Longrightarrow> eb_pending_t2b s' = eb_pending_t2b s \<Longrightarrow>
     endpoint_held s' = endpoint_held s"
  by (simp add: endpoint_held_def)

lemma endpoint_quiet_frame:
  "eb_pending_actions s' = eb_pending_actions s \<Longrightarrow> endpoint_quiet s' = endpoint_quiet s"
  by (simp add: endpoint_quiet_def)

lemma endpoint_poll_actions_quiet:
  assumes "endpoint_poll_actions s = (s', es, r)" and "endpoint_quiet s"
  shows "endpoint_quiet s' \<and> endpoint_held s' = endpoint_held s \<and>
     sum_list (map settled es) = {#} \<and> (\<forall>a. r = Ready a \<longrightarrow> action_sender a = {#})"
  using assms
  by (auto simp: endpoint_poll_actions_def endpoint_quiet_def endpoint_held_def split: list.splits)

lemma endpoint_poll_balance:
  assumes inv: "finite (dom (eb_wait s))" and quiet: "endpoint_quiet s"
    and poll: "endpoint_poll L lops tops recv s = Inr (s', es, r)"
  shows "endpoint_quiet s' \<and> endpoint_held s + endpoint_taken (EbPoll recv) = endpoint_held s' +
     sum_list (map settled es) + (case r of Pending \<Rightarrow> {#} | Ready a \<Rightarrow> action_sender a)"
  using poll
proof (cases rule: endpoint_poll_cases)
  case (dial a)
  with endpoint_next_event_balance [OF dial(1) inv] endpoint_next_event_frame [OF dial(1)]
    quiet endpoint_quiet_frame [of s' s]
  show ?thesis by simp
next
  case (dispatch event s1 a)
  with endpoint_next_event_balance [OF dispatch(1) inv] endpoint_next_event_frame [OF dispatch(1)]
    endpoint_dispatch_frame [OF dispatch(2)] endpoint_dispatch_sender [OF dispatch(2)]
    endpoint_held_frame [of s' s1] quiet endpoint_quiet_frame [of s' s]
  show ?thesis by simp
next
  case (offer s1 a)
  with endpoint_next_event_balance [OF offer(1) inv] endpoint_next_event_frame [OF offer(1)]
    endpoint_new_connections_frame [OF offer(2)] endpoint_new_connections_action [OF offer(2)]
    endpoint_held_frame [of s' s1] quiet endpoint_quiet_frame [of s' s]
  show ?thesis by auto
next
  case (flush s1 s2 a)
  with endpoint_next_event_balance [OF flush(1) inv] endpoint_next_event_frame [OF flush(1)]
    endpoint_new_connections_frame [OF flush(2)] flush_transports_frame [OF flush(3)]
    flush_transports_action [OF flush(3)]
    endpoint_held_frame [of s' s1] quiet endpoint_quiet_frame [of s' s]
  show ?thesis by auto
next
  case (actions s1 s2 s3)
  have "endpoint_held s3 = endpoint_held s1" "endpoint_quiet s3"
    using endpoint_next_event_frame [OF actions(1)] endpoint_new_connections_frame [OF actions(2)]
      flush_transports_frame [OF actions(3)] endpoint_held_frame [of s3 s1]
      quiet endpoint_quiet_frame [of s3 s]
    by simp_all
  with endpoint_poll_actions_quiet [OF actions(4)] endpoint_next_event_balance [OF actions(1) inv]
  show ?thesis by (cases r) simp_all
qed

lemma endpoint_handler_balance:
  fixes s :: "('ss, 'ls, 'ts) endpoint_behaviour"
  assumes "endpoint_on_handler_event e s = (s', es)" and "endpoint_quiet s"
  shows "endpoint_quiet s' \<and> endpoint_held s +
     endpoint_taken (EbHandler p c e :: ('ss, 'ls) endpoint_input) =
     endpoint_held s' + sum_list (map settled es)"
  using assms by (cases e) (auto simp: endpoint_held_def endpoint_quiet_def)

lemma fail_waiting_senders:
  "sum_list (map settled (concat (map (snd \<circ> fail_waiting L error) evs))) = dial_senders evs"
proof (induction evs)
  case (Cons e evs)
  then show ?case by (cases e) simp_all
qed simp

lemma drop_waiting_senders:
  "sum_list (map settled (concat (map drop_waiting evs))) = dial_senders evs"
proof (induction evs)
  case (Cons e evs)
  then show ?case by (cases e) simp_all
qed simp

lemma endpoint_swarm_balance:
  "endpoint_on_swarm_event L e s = (s', es) \<Longrightarrow> finite (dom (eb_wait s)) \<Longrightarrow> endpoint_quiet s \<Longrightarrow>
     endpoint_quiet s' \<and> endpoint_held s = endpoint_held s' + sum_list (map settled es)"
proof (induction L e s rule: endpoint_on_swarm_event.induct)
  case (1 L peer_id connection_id addr s)
  then show ?case
    using waiting_senders_split [of "eb_wait s" peer_id]
    by (auto simp: Let_def endpoint_quiet_def endpoint_held_def split: if_splits option.splits)
next
  case (2 L peer_id connection_id addr s)
  then show ?case
    by (auto simp: Let_def endpoint_quiet_def endpoint_held_def split: if_splits option.splits)
next
  case (3 L peer_id error s)
  show ?case
  proof (cases "eb_wait s peer_id")
    case None
    with 3 show ?thesis by simp
  next
    case (Some evs)
    with 3 waiting_senders_split [OF "3.prems"(2) Some] show ?thesis
      by (auto simp: Let_def endpoint_quiet_def endpoint_held_def fail_waiting_senders
          drop_waiting_senders split: if_splits)
  qed
qed simp_all

lemma endpoint_given_effects:
  "sum_list (map endpoint_given (map Effect es)) = sum_list (map settled es)"
  by (simp add: comp_def)

definition endpoint_ledger_inv :: "('ss, 'ls, 'ts) endpoint_behaviour \<Rightarrow> bool" where
  "endpoint_ledger_inv s \<longleftrightarrow> endpoint_inv s \<and> endpoint_quiet s"

lemma endpoint_step_balance:
  fixes s :: "('ss, 'ls, 'ts) endpoint_behaviour"
  assumes inv: "endpoint_ledger_inv s" and st: "endpoint_step L lops tops i s = Inr (s', os)"
  shows "endpoint_ledger_inv s' \<and>
     endpoint_held s + endpoint_taken i = endpoint_held s' + sum_list (map endpoint_given os)"
proof -
  have fin: "finite (dom (eb_wait s))" and quiet: "endpoint_quiet s" and inv': "endpoint_inv s'"
    using inv endpoint_inv_finite endpoint_step_inv [OF _ st]
    by (auto simp: endpoint_ledger_inv_def)
  have "endpoint_quiet s' \<and>
     endpoint_held s + endpoint_taken i = endpoint_held s' + sum_list (map endpoint_given os)"
  proof (cases i)
    case (EbPoll recv)
    with st obtain es r where p: "endpoint_poll L lops tops recv s = Inr (s', es, r)"
      and os: "os = map Effect es @ (case r of Pending \<Rightarrow> [] | Ready a \<Rightarrow> [Emit a])"
      by (auto split: sum.splits prod.splits)
    from endpoint_poll_balance [OF fin quiet p] show ?thesis
      unfolding os EbPoll by (cases r) (simp_all add: comp_def ac_simps)
  next
    case (EbHandler p c e)
    with st obtain es where h: "endpoint_on_handler_event e s = (s', es)" and os: "os = map Effect es"
      by (auto split: prod.splits)
    from endpoint_handler_balance [OF h quiet, of p c] show ?thesis
      unfolding os EbHandler endpoint_given_effects .
  next
    case (EbSwarm e)
    with st obtain es where h: "endpoint_on_swarm_event L e s = (s', es)" and os: "os = map Effect es"
      by (auto split: prod.splits)
    from endpoint_swarm_balance [OF h fin quiet] show ?thesis
      unfolding os EbSwarm endpoint_given_effects by simp
  qed
  with inv' show ?thesis by (simp add: endpoint_ledger_inv_def)
qed

interpretation endpoint_ledger: ledger "endpoint_step L lops tops" endpoint_ledger_inv
    endpoint_taken endpoint_held endpoint_given
  for L lops tops
  by unfold_locales (use endpoint_step_balance in blast)+

text \<open>
  In every run of the endpoint's behaviour from its start, the senders of the dials it took in
  (from its transports, or back from its handlers) are exactly those waiting for their relay or
  queued, together with those passed on to a handler, answered or dropped: no dial is lost and none
  is answered twice.
\<close>

theorem endpoint_dials_conserved:
  assumes "distinct (map fst tts)"
    and "run (endpoint_step L lops tops) is (endpoint_behaviour_new me tts) = Inr (s', os)"
  shows "sum_list (map endpoint_taken is) =
     waiting_senders (eb_wait s') + dial_senders (eb_pending_t2b s') + sum_list (map endpoint_given os)"
proof -
  have "endpoint_ledger_inv (endpoint_behaviour_new me tts)"
    using endpoint_inv_new [OF assms(1)]
    by (simp add: endpoint_ledger_inv_def) (simp add: endpoint_quiet_def endpoint_behaviour_new_def)
  from endpoint_ledger.run_balance [OF this assms(2)] show ?thesis
    by (simp add: endpoint_held_def endpoint_behaviour_new_def)
qed

theorem endpoint_dials_conserved_witness:
  "\<exists>s' os. run (endpoint_step raw_lib open_ops open_ops)
      [EbPoll (Ready (Some (TDial (PeerId [5]) (Multiaddr [5]) (Multiaddr [9]) (PeerId [9]) (Oneshot 1)))),
       EbSwarm (DialFailure (Some (PeerId [9])) ''down''),
       EbPoll (Ready (Some (TDial (PeerId [5]) (Multiaddr [5]) (Multiaddr [9]) (PeerId [8]) (Oneshot 2))))]
      (endpoint_behaviour_new (PeerId [1]) [(PeerId [9], []), (PeerId [8], [])]
        :: (bytes, (io_error + bytes connection) list, behaviour_to_transport_event list) endpoint_behaviour)
      = Inr (s', os) \<and>
     {#Oneshot 1, Oneshot 2#} = waiting_senders (eb_wait s') + dial_senders (eb_pending_t2b s') +
       sum_list (map endpoint_given os)"
  (is "\<exists>s' os. run ?step ?is (endpoint_behaviour_new ?me ?tts) = Inr (s', os) \<and> _")
proof -
  obtain s' os where r: "run ?step ?is (endpoint_behaviour_new ?me ?tts) = Inr (s', os)"
    by (simp add: endpoint_poll_def endpoint_behaviour_new_def endpoint_next_event_def Let_def
        queue_to_transport_def)
  have "distinct (map fst ?tts)"
    by simp
  from endpoint_dials_conserved [OF this r]
  have "sum_list (map endpoint_taken ?is) = waiting_senders (eb_wait s') +
      dial_senders (eb_pending_t2b s') + sum_list (map endpoint_given os)" .
  moreover have "sum_list (map endpoint_taken ?is) = {#Oneshot 1, Oneshot 2#}"
    by (simp add: add_mset_commute)
  ultimately show ?thesis
    using r by metis
qed

section \<open>Dialing a relay\<close>

text \<open>
  A relay that is being dialed stays so until the swarm reports its connection: a failed dial does
  not end it.
\<close>

definition dialing :: "peer_id \<Rightarrow> ('ss, 'ls, 'ts) endpoint_behaviour \<Rightarrow> bool" where
  "dialing p s \<longleftrightarrow> p \<in> eb_connecting s \<and> endpoint_ledger_inv s"

text \<open>The relay an emission dials.\<close>

fun dials :: "('ss, endpoint_action) emission \<Rightarrow> peer_id set" where
  "dials (Emit (DialPeer p addrs h)) = {p}"
| "dials e = {}"

lemma dials_iff: "p \<in> dials ob \<longleftrightarrow> (\<exists>addrs h. ob = Emit (DialPeer p addrs h))"
  by (cases ob rule: dials.cases) auto

text \<open>The relay an emission notifies.\<close>

fun notifies :: "('ss, endpoint_action) emission \<Rightarrow> peer_id set" where
  "notifies (Emit (NotifyHandler p e)) = {p}"
| "notifies e = {}"

fun established_peer :: "('ss, 'ls) endpoint_input \<Rightarrow> peer_id set" where
  "established_peer (EbSwarm (ConnectionEstablished p c a)) = {p}"
| "established_peer i = {}"

lemma endpoint_swarm_connecting:
  "endpoint_on_swarm_event L e s = (s', es) \<Longrightarrow>
     eb_connecting s' = eb_connecting s - established_peer (EbSwarm e)"
  by (induction L e s rule: endpoint_on_swarm_event.induct)
     (auto simp: Let_def split: if_splits option.splits)

lemma endpoint_next_event_connecting:
  "endpoint_next_event recv s = (s', r) \<Longrightarrow>
     eb_connecting s \<subseteq> eb_connecting s' \<and>
     (\<forall>a. r = Inl a \<longrightarrow> (\<exists>q addr h. a = DialPeer q [addr] h \<and> q \<notin> eb_connecting s))"
  by (auto simp: endpoint_next_event_def Let_def
      split: poll.splits option.splits list.splits if_splits)

lemma endpoint_poll_connecting:
  assumes "endpoint_poll L lops tops recv s = Inr (s', es, r)" and "endpoint_quiet s"
  shows "eb_connecting s \<subseteq> eb_connecting s' \<and>
     (\<forall>q addrs h. r = Ready (DialPeer q addrs h) \<longrightarrow> q \<notin> eb_connecting s)"
  using assms(1)
proof (cases rule: endpoint_poll_cases)
  case (dial a)
  with endpoint_next_event_connecting [OF dial(1)] show ?thesis by auto
next
  case (dispatch event s1 a)
  with endpoint_next_event_connecting [OF dispatch(1)] endpoint_dispatch_frame [OF dispatch(2)]
    endpoint_dispatch_action [OF dispatch(2)]
  show ?thesis by (elim exE) simp
next
  case (offer s1 a)
  with endpoint_next_event_connecting [OF offer(1)] endpoint_new_connections_frame [OF offer(2)]
    endpoint_new_connections_action [OF offer(2)]
  show ?thesis by auto
next
  case (flush s1 s2 a)
  with endpoint_next_event_connecting [OF flush(1)] endpoint_new_connections_frame [OF flush(2)]
    flush_transports_frame [OF flush(3)] flush_transports_action [OF flush(3)]
  show ?thesis by auto
next
  case (actions s1 s2 s3)
  have "endpoint_quiet s3"
    using endpoint_next_event_frame [OF actions(1)] endpoint_new_connections_frame [OF actions(2)]
      flush_transports_frame [OF actions(3)] assms(2) endpoint_quiet_frame [of s3 s]
    by simp
  with actions(4) have "eb_connecting s' = eb_connecting s3" and "\<And>q addrs h. r \<noteq> Ready (DialPeer q addrs h)"
    by (auto simp: endpoint_poll_actions_def endpoint_quiet_def split: list.splits)
  with endpoint_next_event_connecting [OF actions(1)]
    endpoint_new_connections_frame [OF actions(2)] flush_transports_frame [OF actions(3)]
  show ?thesis by simp
qed

lemma endpoint_step_dialing:
  assumes "dialing p s" and st: "endpoint_step L lops tops i s = Inr (s', os)"
    and "p \<notin> established_peer i"
  shows "dialing p s' \<and> (\<forall>ob\<in>set os. p \<notin> dials ob)"
proof -
  have inv': "endpoint_ledger_inv s'" and quiet: "endpoint_quiet s"
    using endpoint_ledger.inv_step [OF _ st] assms(1)
    by (auto simp: dialing_def endpoint_ledger_inv_def)
  show ?thesis
  proof (cases i)
    case (EbPoll recv)
    with st obtain es r where "endpoint_poll L lops tops recv s = Inr (s', es, r)"
      and os: "os = map Effect es @ (case r of Pending \<Rightarrow> [] | Ready a \<Rightarrow> [Emit a])"
      by (auto split: sum.splits prod.splits)
    from endpoint_poll_connecting [OF this(1) quiet] assms(1) inv' os show ?thesis
      by (auto simp: dialing_def dials_iff split: poll.splits)
  next
    case (EbHandler q c e)
    with st obtain es where h: "endpoint_on_handler_event e s = (s', es)" and os: "os = map Effect es"
      by (auto split: prod.splits)
    from endpoint_on_handler_event_frame [OF h] assms(1) inv' os show ?thesis
      by (auto simp: dialing_def)
  next
    case (EbSwarm e)
    with st obtain es where h: "endpoint_on_swarm_event L e s = (s', es)" and os: "os = map Effect es"
      by (auto split: prod.splits)
    from endpoint_swarm_connecting [OF h] assms EbSwarm inv' os show ?thesis
      by (auto simp: dialing_def)
  qed
qed

text \<open>
  The endpoint has at most one dial of a relay under way. From the moment it asks the swarm
  to dial a relay until the swarm reports a connection to it, no further dial of that relay is
  asked for, whatever else happens.
\<close>

theorem endpoint_dials_once:
  assumes "distinct (map fst tts)"
    and "run (endpoint_step L lops tops) pre (endpoint_behaviour_new me tts) = Inr (s0, os0)"
    and "endpoint_step L lops tops i s0 = Inr (s1, os1)" and "Emit (DialPeer p addrs h) \<in> set os1"
    and "run (endpoint_step L lops tops) post s1 = Inr (s2, os2)"
    and "\<And>j. j \<in> set post \<Longrightarrow> p \<notin> established_peer j"
  shows "\<forall>ob\<in>set os2. p \<notin> dials ob"
proof -
  have new: "endpoint_ledger_inv (endpoint_behaviour_new me tts)"
    using endpoint_inv_new [OF assms(1)]
    by (simp add: endpoint_ledger_inv_def) (simp add: endpoint_quiet_def endpoint_behaviour_new_def)
  have inv0: "endpoint_ledger_inv s0"
    by (rule endpoint_ledger.run_inv [OF new assms(2)])
  then have inv1: "endpoint_ledger_inv s1"
    using endpoint_ledger.inv_step assms(3) by blast
  from assms(3,4) obtain recv es where i: "i = EbPoll recv"
    and poll: "endpoint_poll L lops tops recv s0 = Inr (s1, es, Ready (DialPeer p addrs h))"
    by (cases i) (auto split: sum.splits prod.splits poll.splits)
  have "p \<in> eb_connecting s1"
    using poll
  proof (cases rule: endpoint_poll_cases)
    case (dial a)
    then show ?thesis
      by (auto simp: endpoint_next_event_def Let_def
          split: poll.splits option.splits list.splits if_splits)
  next
    case (dispatch event t a)
    then show ?thesis by (cases event) auto
  next
    case (offer t a)
    with endpoint_new_connections_action [OF offer(2)] show ?thesis by auto
  next
    case (flush t1 t2 a)
    with flush_transports_action [OF flush(3)] show ?thesis by auto
  next
    case (actions t1 t2 t3)
    have "endpoint_quiet t3"
      using endpoint_next_event_frame [OF actions(1)] endpoint_new_connections_frame [OF actions(2)]
        flush_transports_frame [OF actions(3)] inv0 endpoint_quiet_frame [of t3 s0]
      by (simp add: endpoint_ledger_inv_def)
    with actions(4) show ?thesis
      by (auto simp: endpoint_poll_actions_def endpoint_quiet_def split: list.splits)
  qed
  with inv1 have "dialing p s1"
    by (simp add: dialing_def)
  then show ?thesis
    using run_preserves [where Q = "dialing p" and P = "\<lambda>ob. p \<notin> dials ob", OF _ _ assms(5)]
      endpoint_step_dialing assms(6) by blast
qed

theorem endpoint_dials_once_witness:
  "\<exists>s2 os2. run (endpoint_step raw_lib open_ops open_ops)
      [EbPoll (Ready (Some (TDial (PeerId [5]) (Multiaddr [5]) (Multiaddr [9]) (PeerId [9]) (Oneshot 2))))]
      ((endpoint_behaviour_new (PeerId [1]) [(PeerId [9], [])])
        \<lparr>eb_wait := [PeerId [9] \<mapsto>
           [TDial (PeerId [5]) (Multiaddr [5]) (Multiaddr [9]) (PeerId [9]) (Oneshot 1)]],
         eb_connecting := {PeerId [9]}\<rparr>
        :: (bytes, (io_error + bytes connection) list, behaviour_to_transport_event list) endpoint_behaviour)
      = Inr (s2, os2) \<and>
     PeerId [9] \<notin> \<Union> (set (map dials os2))"
  (is "\<exists>s2 os2. run ?step ?post ?s1 = Inr (s2, os2) \<and> _")
proof -
  let ?dial = "TDial (PeerId [5]) (Multiaddr [5]) (Multiaddr [9]) (PeerId [9]) (Oneshot 1)
    :: (io_error + bytes connection) list transport_to_behaviour_event"
  obtain h where d: "?step (EbPoll (Ready (Some ?dial)))
      (endpoint_behaviour_new (PeerId [1]) [(PeerId [9], [])]) =
      Inr (?s1, [Emit (DialPeer (PeerId [9]) [Multiaddr [9]] h)])"
    by (simp add: endpoint_poll_def endpoint_behaviour_new_def endpoint_next_event_def Let_def)
  obtain s2 os2 where r: "run ?step ?post ?s1 = Inr (s2, os2)"
    by (simp add: endpoint_poll_def endpoint_behaviour_new_def endpoint_next_event_def Let_def
        endpoint_poll_actions_def open_ops_def)
  have start: "run ?step [] (endpoint_behaviour_new (PeerId [1]) [(PeerId [9], [])]) =
      Inr (endpoint_behaviour_new (PeerId [1]) [(PeerId [9], [])], [])"
    by simp
  have "distinct (map fst [(PeerId [9], [] :: behaviour_to_transport_event list)])"
    by simp
  from endpoint_dials_once [OF this start d _ r] have "\<forall>ob\<in>set os2. PeerId [9] \<notin> dials ob"
    by simp
  with r show ?thesis by auto
qed

text \<open>The events of a run that ask for the relay \<open>p\<close>, and those waiting for its connection.\<close>

fun asks_for :: "peer_id \<Rightarrow> ('ss, 'ls) endpoint_input \<Rightarrow> 'ls transport_to_behaviour_event list" where
  "asks_for p (EbPoll (Ready (Some event))) = (if t2b_relay_peer_id event = p then [event] else [])"
| "asks_for p i = []"

definition waiting_for ::
  "peer_id \<Rightarrow> ('ss, 'ls, 'ts) endpoint_behaviour \<Rightarrow> 'ls transport_to_behaviour_event list" where
  "waiting_for p s = (case eb_wait s p of None \<Rightarrow> [] | Some evs \<Rightarrow> evs)"

fun failed_peer :: "('ss, 'ls) endpoint_input \<Rightarrow> peer_id set" where
  "failed_peer (EbSwarm (DialFailure (Some p) error)) = {p}"
| "failed_peer i = {}"

lemma dialing_not_established: "dialing p s \<Longrightarrow> eb_established s p = None"
  by (cases "eb_established s p")
     (auto simp: dialing_def endpoint_ledger_inv_def endpoint_inv_def endpoint_relays_def)

lemma endpoint_next_event_waiting:
  assumes "endpoint_next_event recv s = (s', r)" and "eb_established s p = None"
  shows "waiting_for p s' = waiting_for p s @ asks_for p (EbPoll recv)"
proof (cases "\<exists>event. recv = Ready (Some event)")
  case False
  then have "asks_for p (EbPoll recv) = []"
    by (metis asks_for.simps(2,3) option.exhaust poll.exhaust)
  moreover have "eb_wait s' = eb_wait s"
    using endpoint_next_event_none [OF assms(1)] False
    by (metis endpoint_behaviour.select_convs(9) endpoint_behaviour.surjective
        endpoint_behaviour.update_convs(10))
  ultimately show ?thesis
    by (simp add: waiting_for_def)
next
  case True
  with assms show ?thesis
    by (auto simp: endpoint_next_event_def Let_def waiting_for_def split: if_splits)
qed

lemma endpoint_poll_wait:
  assumes "endpoint_poll L lops tops recv s = Inr (s', es, r)"
  shows "\<exists>s1 x. endpoint_next_event recv s = (s1, x) \<and> eb_wait s' = eb_wait s1"
  using assms
proof (cases rule: endpoint_poll_cases)
  case (dispatch event s1 a)
  with endpoint_dispatch_frame [OF dispatch(2)] show ?thesis by auto
next
  case (offer s1 a)
  with endpoint_new_connections_frame [OF offer(2)] show ?thesis by auto
next
  case (flush s1 s2 a)
  with endpoint_new_connections_frame [OF flush(2)] flush_transports_frame [OF flush(3)]
  show ?thesis by auto
next
  case (actions s1 s2 s3)
  moreover have "eb_wait s' = eb_wait s3"
    using actions(4) by (cases "eb_pending_actions s3") (auto simp: endpoint_poll_actions_def)
  ultimately show ?thesis
    using endpoint_new_connections_frame [OF actions(2)] flush_transports_frame [OF actions(3)]
    by auto
qed auto

lemma endpoint_swarm_waiting:
  fixes s :: "('ss, 'ls, 'ts) endpoint_behaviour"
  shows "endpoint_on_swarm_event L e s = (s', es :: 'ss effect list) \<Longrightarrow>
     p \<notin> established_peer (EbSwarm e :: ('ss, 'ls) endpoint_input) \<Longrightarrow>
     p \<notin> failed_peer (EbSwarm e :: ('ss, 'ls) endpoint_input) \<Longrightarrow> eb_wait s' p = eb_wait s p"
  by (induction L e s rule: endpoint_on_swarm_event.induct)
     (auto simp: Let_def split: if_splits option.splits)

lemma endpoint_step_waiting:
  fixes s :: "('ss, 'ls, 'ts) endpoint_behaviour"
  assumes dial: "dialing p s" and st: "endpoint_step L lops tops i s = Inr (s', os)"
    and "p \<notin> established_peer i" and "p \<notin> failed_peer i"
  shows "waiting_for p s' = waiting_for p s @ asks_for p i"
proof (cases i)
  case (EbPoll recv)
  with st obtain es r where poll: "endpoint_poll L lops tops recv s = Inr (s', es, r)"
    by (auto split: sum.splits prod.splits)
  from endpoint_poll_wait [OF poll] endpoint_next_event_waiting [OF _ dialing_not_established [OF dial]]
  show ?thesis
    unfolding EbPoll waiting_for_def by metis
next
  case (EbHandler q c e)
  with st obtain es where h: "endpoint_on_handler_event e s = (s', es)"
    by (auto split: prod.splits)
  from endpoint_on_handler_event_frame [OF h] EbHandler show ?thesis
    by (simp add: waiting_for_def)
next
  case (EbSwarm e)
  with st obtain es where h: "endpoint_on_swarm_event L e s = (s', es)"
    by (auto split: prod.splits)
  from endpoint_swarm_waiting [OF h] assms EbSwarm show ?thesis
    by (simp add: waiting_for_def)
qed

lemma endpoint_run_dialing:
  assumes "dialing p s" and "run (endpoint_step L lops tops) is s = Inr (s', os)"
    and "\<And>i. i \<in> set is \<Longrightarrow> p \<notin> established_peer i \<and> p \<notin> failed_peer i"
  shows "waiting_for p s' = waiting_for p s @ concat (map (asks_for p) is)"
proof (rule run_accumulates [where Q = "dialing p" and stream = "waiting_for p", OF _ assms(1,2)])
  fix i t t' os'
  assume "i \<in> set is" "dialing p t" "endpoint_step L lops tops i t = Inr (t', os')"
  with endpoint_step_dialing endpoint_step_waiting assms(3)
  show "dialing p t' \<and> waiting_for p t' = waiting_for p t @ asks_for p i"
    by blast
qed

text \<open>
  C35: A failed dial of a relay fails the requests that waited for it, but the relay stays marked
  as being dialed. Every later dial or listen for that relay is queued behind a connection that
  nothing asks for any more: unless some other part of the program connects to the relay (or fails
  to), the relay is never dialed again and all those requests stay waiting.
\<close>

theorem endpoint_failed_dial_strands_relay:
  assumes "dialing p s"
    and "run (endpoint_step L lops tops) (EbSwarm (DialFailure (Some p) error) # post) s = Inr (s', os)"
    and "\<And>i. i \<in> set post \<Longrightarrow> p \<notin> established_peer i \<and> p \<notin> failed_peer i"
  shows "waiting_for p s' = concat (map (asks_for p) post) \<and> (\<forall>ob\<in>set os. p \<notin> dials ob)"
proof -
  from run_Cons_Inr [OF assms(2)] obtain s1 os1 os2 where
    s1: "endpoint_step L lops tops (EbSwarm (DialFailure (Some p) error)) s = Inr (s1, os1)"
    and r: "run (endpoint_step L lops tops) post s1 = Inr (s', os2)" and os: "os = os1 @ os2"
    by blast
  have d1: "dialing p s1" "\<forall>ob\<in>set os1. p \<notin> dials ob"
    using endpoint_step_dialing [OF assms(1) s1] by simp_all
  moreover have "waiting_for p s1 = []"
    using s1 by (auto simp: waiting_for_def Let_def split: option.splits if_splits)
  moreover have "\<forall>ob\<in>set os2. p \<notin> dials ob"
    using run_preserves [where Q = "dialing p" and P = "\<lambda>ob. p \<notin> dials ob", OF _ d1(1) r]
      endpoint_step_dialing assms(3) by blast
  ultimately show ?thesis
    using endpoint_run_dialing [OF d1(1) r assms(3)] os by auto
qed

theorem endpoint_failed_dial_strands_relay_witness:
  "\<exists>s' os. run (endpoint_step raw_lib open_ops open_ops)
      [EbSwarm (DialFailure (Some (PeerId [9])) ''down''),
       EbPoll (Ready (Some (TDial (PeerId [5]) (Multiaddr [5]) (Multiaddr [9]) (PeerId [9]) (Oneshot 2))))]
      ((endpoint_behaviour_new (PeerId [1]) [(PeerId [9], [])])\<lparr>eb_connecting := {PeerId [9]}\<rparr>
        :: (bytes, (io_error + bytes connection) list, behaviour_to_transport_event list) endpoint_behaviour)
      = Inr (s', os) \<and>
     waiting_for (PeerId [9]) s' =
       [TDial (PeerId [5]) (Multiaddr [5]) (Multiaddr [9]) (PeerId [9]) (Oneshot 2)] \<and>
     PeerId [9] \<notin> \<Union> (set (map dials os))"
  (is "\<exists>s' os. run ?step (?fail # ?post) ?s = Inr (s', os) \<and> _")
proof -
  have d: "dialing (PeerId [9]) ?s"
    by (simp add: dialing_def endpoint_ledger_inv_def endpoint_inv_def endpoint_keys_def
        endpoint_relays_def endpoint_quiet_def endpoint_behaviour_new_def)
  obtain s' os where r: "run ?step (?fail # ?post) ?s = Inr (s', os)"
    by (simp add: endpoint_poll_def endpoint_behaviour_new_def endpoint_next_event_def Let_def
        endpoint_poll_actions_def open_ops_def)
  from endpoint_failed_dial_strands_relay [OF d r] have
    "waiting_for (PeerId [9]) s' = concat (map (asks_for (PeerId [9])) ?post) \<and>
     (\<forall>ob\<in>set os. PeerId [9] \<notin> dials ob)"
    by simp
  with r show ?thesis by auto
qed

end
