(* ===== verification/Endpoint_System.thy ===== *)
theory Endpoint_System
  imports Endpoint_Transport Endpoint_Dials
begin

text \<open>
  The endpoint as a whole: the transport (\<open>src/endpoint/transport.rs\<close>) and the behaviour
  (\<open>src/endpoint/behaviour.rs\<close>) joined by the two bounded channels that \<open>Transport::new\<close> creates,
  with every interleaving of their operations. A channel's contents are the state of its sending
  half; the other component acts on the same queue. The capacity is arbitrary.

  The swarm and the handlers are the environment. What the behaviour passes to a handler is lent to
  it; a handler gives back, with its outcome, only what was lent (\<open>Endpoint_Handler\<close> shows that it
  loses and invents nothing), or loses it when its connection closes.
\<close>

section \<open>The composed state\<close>

record ('ss, 'ls, 'lr) endpoint_system =
  es_transport :: "('ls, 'lr, 'ls transport_to_behaviour_event list,
    behaviour_to_transport_event list) endpoint_transport"
  es_behaviour :: "('ss, 'ls, behaviour_to_transport_event list) endpoint_behaviour"
  es_lent :: "endpoint_open_info multiset"

definition endpoint_system_new ::
  "peer_id \<Rightarrow> multiaddr \<Rightarrow> peer_id \<Rightarrow> ('ss, 'ls, 'lr) endpoint_system" where
  "endpoint_system_new local_peer_id relay_addr relay_peer_id =
     (case endpoint_transport_new local_peer_id relay_addr relay_peer_id [] [] [] of
        (t, b) \<Rightarrow> \<lparr>es_transport = t, es_behaviour = b, es_lent = {#}\<rparr>)"

text \<open>The transport takes reports out of the channel: what is left of it.\<close>

definition set_reports ::
  "peer_id \<Rightarrow> behaviour_to_transport_event list \<Rightarrow>
     ('ss, 'ls, behaviour_to_transport_event list) endpoint_behaviour \<Rightarrow>
     ('ss, 'ls, behaviour_to_transport_event list) endpoint_behaviour" where
  "set_reports relay q b = b\<lparr>eb_to_transports := AList.update relay q (eb_to_transports b)\<rparr>"

datatype ('ss, 'ls, 'lr) system_input =
    SyCall "('ls, 'lr) transport_input"
  | SyPoll
  | SyHandler peer_id connection_id "'ss endpoint_out_event"
  | SySwarm from_swarm
  | SyLose endpoint_open_info

datatype 'ss system_output =
    OutBehaviour "('ss, endpoint_action) emission"
  | OutTransport "'ss endpoint_transport_event"

text \<open>What an emission lends to a handler, what a handler's event gives back, and the sender in it.\<close>

fun lent_by :: "('ss, endpoint_action) emission \<Rightarrow> endpoint_open_info multiset" where
  "lent_by (Emit (NotifyHandler p (EiDial dst_peer_id dst_addr sender))) = {#InfoDial sender#}"
| "lent_by (Emit (NotifyHandler p (EiListen lid local_peer_id addr))) =
     {#InfoListen lid local_peer_id addr#}"
| "lent_by ob = {#}"

fun returned :: "'ss endpoint_out_event \<Rightarrow> endpoint_open_info multiset" where
  "returned (EoDialSuccess relay connection sender) = {#InfoDial sender#}"
| "returned (EoDialFailed err relay sender) = {#InfoDial sender#}"
| "returned (EoListenSuccess relay lid local_peer_id addr) = {#InfoListen lid local_peer_id addr#}"
| "returned (EoListenFailed err relay lid local_peer_id addr) =
     {#InfoListen lid local_peer_id addr#}"
| "returned (EoNewConnection relay addr connection) = {#}"
| "returned (EoError err) = {#}"

fun info_sender :: "endpoint_open_info \<Rightarrow> oneshot multiset" where
  "info_sender (InfoDial sender) = {#sender#}"
| "info_sender (InfoListen lid local_peer_id addr) = {#}"

fun lose :: "endpoint_open_info \<Rightarrow> 'ss effect list" where
  "lose (InfoDial sender) = [DropSender sender]"
| "lose (InfoListen lid local_peer_id addr) = []"

section \<open>Steps and runs\<close>

inductive system_step ::
  "lib \<Rightarrow> nat \<Rightarrow> ('ls, io_error + 'ss connection) sender_ops \<Rightarrow>
     ('lr, io_error + 'ss connection) receiver_ops \<Rightarrow> ('ss, 'ls, 'lr) endpoint_system \<Rightarrow>
     ('ss, 'ls, 'lr) system_input \<Rightarrow> ('ss, 'ls, 'lr) endpoint_system \<Rightarrow>
     'ss system_output list \<Rightarrow> bool"
  for L cap lops lrops where
  call: "i \<noteq> TiPoll \<Longrightarrow>
     transport_step L list_receiver (bounded_ops cap) lrops (es_transport s) i t' \<Longrightarrow>
     system_step L cap lops lrops s (SyCall i) (s\<lparr>es_transport := t'\<rparr>) []"
| transport_poll: "et_relay_peer_id (es_transport s) = relay \<Longrightarrow>
     map_of (eb_to_transports (es_behaviour s)) relay = Some q \<Longrightarrow>
     endpoint_transport_poll list_receiver (bounded_ops cap) lrops
       ((es_transport s)\<lparr>et_from_behaviour := q\<rparr>) = Some (Inr (t', ev)) \<Longrightarrow>
     system_step L cap lops lrops s (SyCall TiPoll)
       (s\<lparr>es_transport := t',
          es_behaviour := set_reports relay (et_from_behaviour t') (es_behaviour s)\<rparr>)
       (case ev of Pending \<Rightarrow> [] | Ready e \<Rightarrow> [OutTransport e])"
| poll: "rx_poll_next list_receiver (et_to_behaviour (es_transport s)) = (recv, q) \<Longrightarrow>
     endpoint_step L lops (bounded_ops cap) (EbPoll recv) (es_behaviour s) = Inr (b', os) \<Longrightarrow>
     system_step L cap lops lrops s SyPoll
       (s\<lparr>es_transport := (es_transport s)\<lparr>et_to_behaviour := q\<rparr>, es_behaviour := b',
          es_lent := es_lent s + sum_list (map lent_by os)\<rparr>)
       (map OutBehaviour os)"
| handler: "returned e \<subseteq># es_lent s \<Longrightarrow>
     endpoint_step L lops (bounded_ops cap) (EbHandler p c e) (es_behaviour s) = Inr (b', os) \<Longrightarrow>
     system_step L cap lops lrops s (SyHandler p c e)
       (s\<lparr>es_behaviour := b', es_lent := es_lent s - returned e\<rparr>) (map OutBehaviour os)"
| swarm: "endpoint_step L lops (bounded_ops cap) (EbSwarm e) (es_behaviour s) = Inr (b', os) \<Longrightarrow>
     system_step L cap lops lrops s (SySwarm e) (s\<lparr>es_behaviour := b'\<rparr>) (map OutBehaviour os)"
| lose: "info \<in># es_lent s \<Longrightarrow>
     system_step L cap lops lrops s (SyLose info) (s\<lparr>es_lent := es_lent s - {#info#}\<rparr>)
       (map (OutBehaviour \<circ> Effect) (lose info))"

inductive system_run ::
  "lib \<Rightarrow> nat \<Rightarrow> ('ls, io_error + 'ss connection) sender_ops \<Rightarrow>
     ('lr, io_error + 'ss connection) receiver_ops \<Rightarrow> ('ss, 'ls, 'lr) endpoint_system \<Rightarrow>
     ('ss, 'ls, 'lr) system_input list \<Rightarrow> ('ss, 'ls, 'lr) endpoint_system \<Rightarrow>
     'ss system_output list \<Rightarrow> bool"
  for L cap lops lrops where
  system_stop: "system_run L cap lops lrops s [] s []"
| system_more: "system_step L cap lops lrops s i s1 os1 \<Longrightarrow>
     system_run L cap lops lrops s1 is s2 os2 \<Longrightarrow>
     system_run L cap lops lrops s (i # is) s2 (os1 @ os2)"

inductive_simps system_run_Nil [simp]: "system_run L cap lops lrops s [] s' os"
inductive_cases system_run_ConsE: "system_run L cap lops lrops s (i # is) s' os"
inductive_cases system_callE: "system_step L cap lops lrops s (SyCall i) s' os"
inductive_cases system_pollE: "system_step L cap lops lrops s SyPoll s' os"
inductive_cases system_handlerE: "system_step L cap lops lrops s (SyHandler p c e) s' os"
inductive_cases system_swarmE: "system_step L cap lops lrops s (SySwarm e) s' os"
inductive_cases system_loseE: "system_step L cap lops lrops s (SyLose info) s' os"

lemma endpoint_system_new_simps [simp]:
  "es_transport (endpoint_system_new me relay_addr relay) =
     \<lparr>et_local_peer_id = me, et_relay_addr = relay_addr, et_relay_peer_id = relay,
      et_pending_to_behaviour = [], et_to_behaviour = [], et_from_behaviour = [],
      et_listener = None\<rparr>"
  "es_behaviour (endpoint_system_new me relay_addr relay) = endpoint_behaviour_new me [(relay, [])]"
  "es_lent (endpoint_system_new me relay_addr relay) = {#}"
  by (simp_all add: endpoint_system_new_def endpoint_transport_new_def)

lemma system_run_append:
  "system_run L cap lops lrops s (is @ js) s2 os \<Longrightarrow>
     \<exists>s1 os1 os2. system_run L cap lops lrops s is s1 os1 \<and>
       system_run L cap lops lrops s1 js s2 os2 \<and> os = os1 @ os2"
proof (induction "is" arbitrary: s os)
  case Nil
  then show ?case by auto
next
  case (Cons i "is")
  from Cons.prems obtain t os0 os' where st: "system_step L cap lops lrops s i t os0"
    and r: "system_run L cap lops lrops t (is @ js) s2 os'" and os: "os = os0 @ os'"
    by (auto elim: system_run_ConsE)
  from Cons.IH [OF r] obtain s1 os1 os2 where
    "system_run L cap lops lrops t is s1 os1" "system_run L cap lops lrops s1 js s2 os2"
    "os' = os1 @ os2"
    by blast
  with st os show ?case
    by (metis append.assoc system_more)
qed

lemma system_run_trans:
  "system_run L cap lops lrops s is s1 os1 \<Longrightarrow> system_run L cap lops lrops s1 js s2 os2 \<Longrightarrow>
     system_run L cap lops lrops s (is @ js) s2 (os1 @ os2)"
  by (induction rule: system_run.induct) (simp_all add: system_more)

text \<open>The senders an output settles.\<close>

fun settles :: "'ss system_output \<Rightarrow> oneshot multiset" where
  "settles (OutBehaviour (Effect e)) = settled e"
| "settles (OutBehaviour (Emit a)) = {#}"
| "settles (OutTransport ev) = {#}"

section \<open>A run, for evaluation\<close>

text \<open>
  A listen and a dial, end to end, over channels of capacity one: the listen waits for the relay,
  is passed to a handler when the relay is connected, succeeds there, and is reported to the
  application; the dial is passed to a handler at once, fails there, and is answered.
\<close>

type_synonym example_channel = "(io_error + bytes connection) list"

definition example_system ::
  "example_channel transport_to_behaviour_event list \<Rightarrow>
     example_channel transport_to_behaviour_event list \<Rightarrow>
     (bytes, example_channel, behaviour_to_transport_event list) endpoint_behaviour \<Rightarrow>
     endpoint_open_info multiset \<Rightarrow> (bytes, example_channel, example_channel) endpoint_system" where
  "example_system pending channel b lent =
     \<lparr>es_transport = \<lparr>et_local_peer_id = PeerId [1], et_relay_addr = Multiaddr [9],
        et_relay_peer_id = PeerId [9], et_pending_to_behaviour = pending, et_to_behaviour = channel,
        et_from_behaviour = [], et_listener = Some \<lparr>el_local_addr = Multiaddr [1],
          el_listener_id = ListenerId 1, el_receiver = Some []\<rparr>\<rparr>,
      es_behaviour = b, es_lent = lent\<rparr>"

definition example_dial :: "example_channel transport_to_behaviour_event" where
  "example_dial = TDial (PeerId [7]) (Multiaddr [7, 1]) (Multiaddr [9]) (PeerId [9]) (Oneshot 1)"

definition example_listen :: "example_channel transport_to_behaviour_event" where
  "example_listen = TListen (ListenerId 1) (PeerId [1]) (Multiaddr [1]) (PeerId [9]) (Multiaddr [9]) []"

abbreviation example_info :: endpoint_open_info where
  "example_info \<equiv> InfoListen (ListenerId 1) (PeerId [1]) (Multiaddr [1])"

abbreviation example_behaviour ::
  "(bytes, example_channel, behaviour_to_transport_event list) endpoint_behaviour" where
  "example_behaviour \<equiv> endpoint_behaviour_new (PeerId [1]) [(PeerId [9], [])]"

abbreviation example_connected ::
  "(bytes, example_channel, behaviour_to_transport_event list) endpoint_behaviour" where
  "example_connected \<equiv> example_behaviour\<lparr>eb_established := [PeerId [9] \<mapsto> {ConnectionId 4}]\<rparr>"

abbreviation example_listening ::
  "(bytes, example_channel, behaviour_to_transport_event list) endpoint_behaviour" where
  "example_listening \<equiv> example_connected\<lparr>eb_listeners :=
     [Multiaddr [1] \<mapsto> \<lparr>ls_listener_id = ListenerId 1, ls_sender = []\<rparr>]\<rparr>"

lemmas example_simps = example_system_def example_listen_def example_dial_def endpoint_behaviour_new_def
  endpoint_poll_def endpoint_next_event_def Let_def list_receiver_def bounded_ops_def
  endpoint_poll_actions_def queue_to_transport_def set_reports_def

lemma example_step1: "system_step raw_lib 1 open_ops list_receiver
    (endpoint_system_new (PeerId [1]) (Multiaddr [9]) (PeerId [9]))
    (SyCall (TiListenOn [] [] (ListenerId 1) (Multiaddr [1])))
    (example_system [example_listen] [] example_behaviour {#}) []"
proof -
  let ?s = "endpoint_system_new (PeerId [1]) (Multiaddr [9]) (PeerId [9])
    :: (bytes, example_channel, example_channel) endpoint_system"
  have "transport_step raw_lib list_receiver (bounded_ops 1)
      (list_receiver :: (example_channel, _) receiver_ops) (es_transport ?s)
      (TiListenOn [] [] (ListenerId 1) (Multiaddr [1]))
      (es_transport (example_system [example_listen] [] example_behaviour {#}))"
    by (rule transport_step.listen_on) (simp add: endpoint_listen_on_def example_simps)
  from system_step.call [OF _ this] show ?thesis
    by (simp add: endpoint_system_new_def endpoint_transport_new_def example_system_def)
qed

lemma example_step2: "system_step raw_lib 1 open_ops list_receiver
    (example_system [example_listen] [] example_behaviour {#}) (SyCall TiPoll)
    (example_system [] [example_listen] example_behaviour {#}) []"
  using system_step.transport_poll [of "example_system [example_listen] [] example_behaviour {#}"
      "PeerId [9]" "[]" 1 list_receiver "es_transport (example_system [] [example_listen] example_behaviour {#})" Pending raw_lib open_ops]
  by (simp add: example_simps endpoint_transport_poll_def endpoint_drain_Pending endpoint_poll_listener_def
      endpoint_listener_poll_next_def)

lemma example_step3: "system_step raw_lib 1 open_ops list_receiver
    (example_system [] [example_listen] example_behaviour {#}) SyPoll
    (example_system [] [] (example_behaviour\<lparr>eb_wait := [PeerId [9] \<mapsto> [example_listen]],
       eb_connecting := {PeerId [9]}\<rparr>) {#})
    [OutBehaviour (Emit (DialPeer (PeerId [9]) [Multiaddr [9]] (endpoint_into_handler_new (PeerId [1]))))]"
  using system_step.poll [of "example_system [] [example_listen] example_behaviour {#}"
      "Ready (Some example_listen)" "[]" raw_lib open_ops 1
      "example_behaviour\<lparr>eb_wait := [PeerId [9] \<mapsto> [example_listen]], eb_connecting := {PeerId [9]}\<rparr>"
      "[Emit (DialPeer (PeerId [9]) [Multiaddr [9]] (endpoint_into_handler_new (PeerId [1])))]" list_receiver]
  by (simp add: example_simps endpoint_new_handler_def)

lemma example_step4: "system_step raw_lib 1 open_ops list_receiver
    (example_system [] [] (example_behaviour\<lparr>eb_wait := [PeerId [9] \<mapsto> [example_listen]],
       eb_connecting := {PeerId [9]}\<rparr>) {#})
    (SySwarm (ConnectionEstablished (PeerId [9]) (ConnectionId 4) (Multiaddr [9])))
    (example_system [] [] (example_connected\<lparr>eb_pending_t2b := [example_listen]\<rparr>) {#})
    [OutBehaviour (Effect Wake)]"
  using system_step.swarm [of raw_lib open_ops 1
      "ConnectionEstablished (PeerId [9]) (ConnectionId 4) (Multiaddr [9])"
      "example_system [] [] (example_behaviour\<lparr>eb_wait := [PeerId [9] \<mapsto> [example_listen]],
         eb_connecting := {PeerId [9]}\<rparr>) {#}"
      "example_connected\<lparr>eb_pending_t2b := [example_listen]\<rparr>" "[Effect Wake]" list_receiver]
  by (simp add: example_simps)

lemma example_step5: "system_step raw_lib 1 open_ops list_receiver
    (example_system [] [] (example_connected\<lparr>eb_pending_t2b := [example_listen]\<rparr>) {#}) SyPoll
    (example_system [] [] example_listening {#example_info#})
    [OutBehaviour (Emit (NotifyHandler (PeerId [9]) (EiListen (ListenerId 1) (PeerId [1]) (Multiaddr [1]))))]"
  using system_step.poll [of "example_system [] [] (example_connected\<lparr>eb_pending_t2b := [example_listen]\<rparr>) {#}"
      Pending "[]" raw_lib open_ops 1 example_listening
      "[Emit (NotifyHandler (PeerId [9]) (EiListen (ListenerId 1) (PeerId [1]) (Multiaddr [1])))]" list_receiver]
  by (simp add: example_simps)

abbreviation example_success :: behaviour_to_transport_event where
  "example_success \<equiv> BListenSuccess (ListenerId 1) (Multiaddr [1])"

lemma example_step6: "system_step raw_lib 1 open_ops list_receiver
    (example_system [] [] example_listening {#example_info#})
    (SyHandler (PeerId [9]) (ConnectionId 4)
       (EoListenSuccess (PeerId [9]) (ListenerId 1) (PeerId [1]) (Multiaddr [1])))
    (example_system [] [] (example_listening\<lparr>eb_pending_to_transport :=
       [(PeerId [9], [example_success])]\<rparr>) {#})
    [OutBehaviour (Effect Wake)]"
  using system_step.handler [of
      "EoListenSuccess (PeerId [9]) (ListenerId 1) (PeerId [1]) (Multiaddr [1])"
      "example_system [] [] example_listening {#example_info#}"
      raw_lib open_ops 1 "PeerId [9]" "ConnectionId 4"
      "example_listening\<lparr>eb_pending_to_transport := [(PeerId [9], [example_success])]\<rparr>"
      "[Effect Wake]" list_receiver]
  by (simp add: example_simps)

lemma example_step7: "system_step raw_lib 1 open_ops list_receiver
    (example_system [] [] (example_listening\<lparr>eb_pending_to_transport :=
       [(PeerId [9], [example_success])]\<rparr>) {#}) SyPoll
    (example_system [] [] (example_listening\<lparr>eb_to_transports :=
       [(PeerId [9], [example_success])]\<rparr>) {#})
    [OutBehaviour (Effect Register)]"
  using system_step.poll [of "example_system [] [] (example_listening\<lparr>eb_pending_to_transport :=
         [(PeerId [9], [example_success])]\<rparr>) {#}"
      Pending "[]" raw_lib open_ops 1
      "example_listening\<lparr>eb_to_transports := [(PeerId [9], [example_success])]\<rparr>"
      "[Effect Register]" list_receiver]
  by (simp add: example_simps)

lemma example_step8: "system_step raw_lib 1 open_ops list_receiver
    (example_system [] [] (example_listening\<lparr>eb_to_transports :=
       [(PeerId [9], [example_success])]\<rparr>) {#}) (SyCall TiPoll)
    (example_system [] [] example_listening {#})
    [OutTransport (TrNewAddress (ListenerId 1) (Multiaddr [1]))]"
  using system_step.transport_poll [of
      "example_system [] [] (example_listening\<lparr>eb_to_transports :=
         [(PeerId [9], [example_success])]\<rparr>) {#}"
      "PeerId [9]" "[example_success]" 1 list_receiver
      "es_transport (example_system [] [] example_listening {#})"
      "Ready (TrNewAddress (ListenerId 1) (Multiaddr [1]))" raw_lib open_ops]
  by (simp add: example_simps endpoint_transport_poll_def endpoint_drain_success)

lemma example_step9: "system_step raw_lib 1 open_ops list_receiver
    (example_system [] [] example_listening {#}) (SyCall (TiDial (Oneshot 1) (Multiaddr [7, 1])))
    (example_system [example_dial] [] example_listening {#}) []"
proof -
  have "transport_step raw_lib list_receiver (bounded_ops 1)
      (list_receiver :: (example_channel, _) receiver_ops)
      (es_transport (example_system [] [] example_listening {#}))
      (TiDial (Oneshot 1) (Multiaddr [7, 1]))
      (es_transport (example_system [example_dial] [] example_listening {#}))"
    by (rule transport_step.dial) (simp add: endpoint_dial_def raw_lib_def example_simps)
  from system_step.call [OF _ this] show ?thesis
    by (simp add: example_system_def)
qed

lemma example_step10: "system_step raw_lib 1 open_ops list_receiver
    (example_system [example_dial] [] example_listening {#}) (SyCall TiPoll)
    (example_system [] [example_dial] example_listening {#}) []"
  using system_step.transport_poll [of "example_system [example_dial] [] example_listening {#}"
      "PeerId [9]" "[]" 1 list_receiver
      "es_transport (example_system [] [example_dial] example_listening {#})" Pending raw_lib open_ops]
  by (simp add: example_simps endpoint_transport_poll_def endpoint_drain_Pending endpoint_poll_listener_def
      endpoint_listener_poll_next_def)

lemma example_step11: "system_step raw_lib 1 open_ops list_receiver
    (example_system [] [example_dial] example_listening {#}) SyPoll
    (example_system [] [] example_listening {#InfoDial (Oneshot 1)#})
    [OutBehaviour (Emit (NotifyHandler (PeerId [9]) (EiDial (PeerId [7]) (Multiaddr [7, 1]) (Oneshot 1))))]"
  using system_step.poll [of "example_system [] [example_dial] example_listening {#}"
      "Ready (Some example_dial)" "[]" raw_lib open_ops 1 example_listening
      "[Emit (NotifyHandler (PeerId [9]) (EiDial (PeerId [7]) (Multiaddr [7, 1]) (Oneshot 1)))]" list_receiver]
  by (simp add: example_simps)

lemma example_step12: "system_step raw_lib 1 open_ops list_receiver
    (example_system [] [] example_listening {#InfoDial (Oneshot 1)#})
    (SyHandler (PeerId [9]) (ConnectionId 4)
       (EoDialFailed (IoSimple KindTimedOut) (PeerId [9]) (Oneshot 1)))
    (example_system [] [] example_listening {#})
    [OutBehaviour (Effect (Answer (Oneshot 1) (Inl (IoSimple KindTimedOut))))]"
  using system_step.handler [of "EoDialFailed (IoSimple KindTimedOut) (PeerId [9]) (Oneshot 1)"
      "example_system [] [] example_listening {#InfoDial (Oneshot 1)#}"
      raw_lib open_ops 1 "PeerId [9]" "ConnectionId 4" example_listening
      "[Effect (Answer (Oneshot 1) (Inl (IoSimple KindTimedOut)))]" list_receiver]
  by (simp add: example_simps)

text \<open>The listen, and then the dial.\<close>

definition example_listen_inputs :: "(bytes, example_channel, example_channel) system_input list" where
  "example_listen_inputs =
     [SyCall (TiListenOn [] [] (ListenerId 1) (Multiaddr [1])), SyCall TiPoll, SyPoll,
      SySwarm (ConnectionEstablished (PeerId [9]) (ConnectionId 4) (Multiaddr [9])), SyPoll,
      SyHandler (PeerId [9]) (ConnectionId 4)
        (EoListenSuccess (PeerId [9]) (ListenerId 1) (PeerId [1]) (Multiaddr [1])),
      SyPoll, SyCall TiPoll]"

lemma example_listen_run:
  "\<exists>os. system_run raw_lib 1 open_ops list_receiver
     (endpoint_system_new (PeerId [1]) (Multiaddr [9]) (PeerId [9])) example_listen_inputs
     (example_system [] [] example_listening {#}) os \<and>
   OutTransport (TrNewAddress (ListenerId 1) (Multiaddr [1])) \<in> set os \<and>
   sum_list (map settles os) = {#}"
  unfolding example_listen_inputs_def
  by (rule exI, rule conjI, rule system_more [OF example_step1 system_more [OF example_step2
        system_more [OF example_step3 system_more [OF example_step4 system_more [OF example_step5
        system_more [OF example_step6 system_more [OF example_step7 system_more [OF example_step8
        system_stop]]]]]]]]) simp

definition example_dial_inputs :: "(bytes, example_channel, example_channel) system_input list" where
  "example_dial_inputs = [SyCall (TiDial (Oneshot 1) (Multiaddr [7, 1])), SyCall TiPoll, SyPoll,
      SyHandler (PeerId [9]) (ConnectionId 4)
       (EoDialFailed (IoSimple KindTimedOut) (PeerId [9]) (Oneshot 1))]"

lemma example_dial_run:
  "system_run raw_lib 1 open_ops list_receiver (example_system [] [] example_listening {#})
     example_dial_inputs
     (example_system [] [] example_listening {#})
     [OutBehaviour (Emit (NotifyHandler (PeerId [9]) (EiDial (PeerId [7]) (Multiaddr [7, 1]) (Oneshot 1)))),
      OutBehaviour (Effect (Answer (Oneshot 1) (Inl (IoSimple KindTimedOut))))]"
  unfolding example_dial_inputs_def
  using system_more [OF example_step9 system_more [OF example_step10 system_more [OF example_step11
      system_more [OF example_step12 system_stop]]]] by simp

section \<open>Every dial is accounted for\<close>

lemma set_reports_fields [simp]:
  "eb_wait (set_reports relay q b) = eb_wait b"
  "eb_pending_t2b (set_reports relay q b) = eb_pending_t2b b"
  "eb_pending_actions (set_reports relay q b) = eb_pending_actions b"
  "eb_pending_new_connections (set_reports relay q b) = eb_pending_new_connections b"
  "eb_pending_to_transport (set_reports relay q b) = eb_pending_to_transport b"
  "eb_listeners (set_reports relay q b) = eb_listeners b"
  "eb_established (set_reports relay q b) = eb_established b"
  "eb_connecting (set_reports relay q b) = eb_connecting b"
  by (simp_all add: set_reports_def)

lemma set_reports_keys:
  assumes "map_of (eb_to_transports b) relay = Some q0"
  shows "map fst (eb_to_transports (set_reports relay q b)) = map fst (eb_to_transports b)"
proof -
  from assms have "relay \<in> set (map fst (eb_to_transports b))"
    by (metis map_of_eq_None_iff option.distinct(1) set_map)
  then show ?thesis
    by (simp add: set_reports_def AList.update_keys)
qed

lemma set_reports_inv:
  "map_of (eb_to_transports b) relay = Some q0 \<Longrightarrow>
     endpoint_inv (set_reports relay q b) = endpoint_inv b"
  using set_reports_keys [of b relay q0 q]
  by (simp add: endpoint_inv_def endpoint_keys_def endpoint_relays_def)

lemma set_reports_ledger:
  "map_of (eb_to_transports b) relay = Some q0 \<Longrightarrow>
     endpoint_ledger_inv (set_reports relay q b) = endpoint_ledger_inv b"
  by (simp add: endpoint_ledger_inv_def set_reports_inv endpoint_quiet_def)

text \<open>The senders of the dials the application made.\<close>

fun dialed :: "lib \<Rightarrow> ('ss, 'ls, 'lr) system_input \<Rightarrow> oneshot multiset" where
  "dialed L (SyCall (TiDial sender a)) =
     (case peer_of_addr L a of None \<Rightarrow> {#} | Some p \<Rightarrow> {#sender#})"
| "dialed L i = {#}"

definition lent_senders :: "endpoint_open_info multiset \<Rightarrow> oneshot multiset" where
  "lent_senders infos = \<Sum>\<^sub># (image_mset info_sender infos)"

definition system_senders :: "('ss, 'ls, 'lr) endpoint_system \<Rightarrow> oneshot multiset" where
  "system_senders s =
     dial_senders (et_to_behaviour (es_transport s) @ et_pending_to_behaviour (es_transport s)) +
     endpoint_held (es_behaviour s) + lent_senders (es_lent s)"

lemma lent_senders_simps [simp]:
  "lent_senders {#} = {#}" "lent_senders (add_mset x m) = info_sender x + lent_senders m"
  "lent_senders (m + n) = lent_senders m + lent_senders n"
  by (simp_all add: lent_senders_def)

lemma lent_senders_diff: "n \<subseteq># m \<Longrightarrow> lent_senders m = lent_senders (m - n) + lent_senders n"
  by (metis lent_senders_simps(3) subset_mset.diff_add)

lemma dial_senders_filter: "dial_senders (filter is_dial es) = dial_senders es"
proof (induction es)
  case (Cons e es)
  then show ?case by (cases e) simp_all
qed simp

lemma given_splits:
  "sum_list (map endpoint_given os) =
     sum_list (map (settles \<circ> OutBehaviour) os) + lent_senders (sum_list (map lent_by os))"
proof (induction os)
  case (Cons ob os)
  then show ?case by (cases ob rule: lent_by.cases) simp_all
qed simp

lemma settles_OutBehaviour:
  "sum_list (map settles (map OutBehaviour os)) = sum_list (map (settles \<circ> OutBehaviour) os)"
  by simp

lemma returned_senders:
  fixes e :: "'ss endpoint_out_event"
  shows "endpoint_taken (EbHandler p c e :: ('ss, 'ls) endpoint_input) = lent_senders (returned e)"
  by (cases e) simp_all

lemma lose_settles: "sum_list (map settles (map (OutBehaviour \<circ> Effect) (lose info))) = info_sender info"
  by (cases info) simp_all

text \<open>A call on the transport adds the dial it asks for, and nothing else moves a sender.\<close>

lemma transport_call_senders:
  fixes t :: "('ls, 'lr, 'ls transport_to_behaviour_event list, behaviour_to_transport_event list)
      endpoint_transport"
  assumes "transport_step L list_receiver (bounded_ops cap) lrops t i t'"
  shows "dial_senders (et_to_behaviour t' @ et_pending_to_behaviour t') =
     dial_senders (et_to_behaviour t @ et_pending_to_behaviour t) +
     dialed L (SyCall i :: ('ss, 'ls, 'lr) system_input)"
proof -
  from transport_step_asked [OF assms bounded_ops_fifo list_receiver_fifo list_receiver_live]
  have "dial_senders (filter is_dial (asked (\<lambda>q. q) t')) =
      dial_senders (filter is_dial (asked (\<lambda>q. q) t) @
        dials_asked L (et_relay_addr t) (et_relay_peer_id t) i)"
    by simp
  moreover have "dial_senders (dials_asked L (et_relay_addr t) (et_relay_peer_id t) i) =
      dialed L (SyCall i :: ('ss, 'ls, 'lr) system_input)"
    by (cases i) (simp_all split: option.split)
  ultimately show ?thesis
    by (simp add: dial_senders_filter asked_def del: filter_append)
qed

lemma channel_senders:
  fixes q :: "'ls transport_to_behaviour_event list"
  assumes "rx_poll_next list_receiver q = (recv, q')"
  shows "dial_senders q = endpoint_taken (EbPoll recv :: ('ss, 'ls) endpoint_input) + dial_senders q'"
  using assms by (auto simp: list_receiver_def split: list.splits)

lemma system_step_balance:
  fixes s :: "('ss, 'ls, 'lr) endpoint_system"
  assumes "system_step L cap lops lrops s i s' os" and "endpoint_ledger_inv (es_behaviour s)"
  shows "endpoint_ledger_inv (es_behaviour s') \<and>
     system_senders s + dialed L i = system_senders s' + sum_list (map settles os)"
  using assms(1)
proof (cases rule: system_step.cases)
  case (call i' t')
  with transport_call_senders [OF call(5), where ?'ss = 'ss] assms(2) show ?thesis
    by (simp add: system_senders_def ac_simps)
next
  case (transport_poll relay q t' ev)
  let ?t = "(es_transport s)\<lparr>et_from_behaviour := q\<rparr>"
  have "asked (\<lambda>q. q) t' = asked (\<lambda>q. q) ?t"
    using endpoint_transport_poll_asked [OF transport_poll(6) bounded_ops_fifo list_receiver_fifo
        list_receiver_live] by blast
  then have "et_to_behaviour t' @ et_pending_to_behaviour t' =
      et_to_behaviour (es_transport s) @ et_pending_to_behaviour (es_transport s)"
    by (simp add: asked_def)
  with transport_poll assms(2) set_reports_ledger show ?thesis
    by (auto simp: system_senders_def endpoint_held_def simp flip: dial_senders_simps(3)
        split: poll.split)
next
  case (poll recv q b' os')
  from endpoint_step_balance [OF assms(2) poll(5)] channel_senders [OF poll(4), where ?'ss = 'ss] poll
  show ?thesis
    unfolding given_splits
    by (simp add: system_senders_def ac_simps)
next
  case (handler e p c b' os')
  from endpoint_step_balance [OF assms(2) handler(5)] lent_senders_diff [OF handler(4)]
  have "endpoint_ledger_inv b' \<and> endpoint_held (es_behaviour s) + lent_senders (es_lent s) =
      endpoint_held b' + sum_list (map endpoint_given os') + lent_senders (es_lent s - returned e)"
    by (simp add: returned_senders ac_simps)
  moreover have "sum_list (map lent_by os') = {#}"
    using handler(5) by (cases e) auto
  ultimately show ?thesis
    using handler by (simp add: system_senders_def given_splits ac_simps)
next
  case (swarm e b' os')
  from endpoint_step_balance [OF assms(2) swarm(4)]
  have "endpoint_ledger_inv b' \<and> endpoint_held (es_behaviour s) =
      endpoint_held b' + sum_list (map endpoint_given os')"
    by simp
  moreover have "sum_list (map lent_by os') = {#}"
    using swarm(4) by (auto split: prod.splits simp: comp_def)
  ultimately show ?thesis
    using swarm by (simp add: system_senders_def given_splits ac_simps)
next
  case (lose info)
  then have "lent_senders (es_lent s) = info_sender info + lent_senders (es_lent s - {#info#})"
    by (metis insert_DiffM lent_senders_simps(2))
  with lose assms(2) show ?thesis
    unfolding lose(3) lose_settles by (simp add: system_senders_def ac_simps)
qed

lemma system_run_balance:
  fixes s :: "('ss, 'ls, 'lr) endpoint_system"
  assumes "system_run L cap lops lrops s is s' os" and "endpoint_ledger_inv (es_behaviour s)"
  shows "endpoint_ledger_inv (es_behaviour s') \<and>
     system_senders s + sum_list (map (dialed L) is) = system_senders s' + sum_list (map settles os)"
  using assms
proof (induction rule: system_run.induct)
  case (system_stop s)
  then show ?case by simp
next
  case (system_more s i s1 os1 "is" s2 os2)
  from system_step_balance [OF system_more(1) system_more(4)] system_more(3)
  have "endpoint_ledger_inv (es_behaviour s2)"
    and "system_senders s + dialed L i = system_senders s1 + sum_list (map settles os1)"
    and "system_senders s1 + sum_list (map (dialed L) is) =
      system_senders s2 + sum_list (map settles os2)"
    by simp_all
  then show ?case
    by simp (metis (no_types, lifting) add.assoc add.commute)
qed

lemma endpoint_ledger_inv_new:
  "distinct (map fst tts) \<Longrightarrow> endpoint_ledger_inv (endpoint_behaviour_new me tts)"
  using endpoint_inv_new [of tts me]
  by (simp add: endpoint_ledger_inv_def) (simp add: endpoint_quiet_def endpoint_behaviour_new_def)

lemma system_run_conserves:
  fixes "is" :: "('ss, 'ls, 'lr) system_input list"
  assumes "system_run L cap lops lrops (endpoint_system_new me relay_addr relay) is s' os"
  shows "sum_list (map (dialed L) is) = system_senders s' + sum_list (map settles os)"
proof -
  let ?new = "endpoint_system_new me relay_addr relay :: ('ss, 'ls, 'lr) endpoint_system"
  have "endpoint_ledger_inv (es_behaviour ?new)"
    by (simp add: endpoint_ledger_inv_new)
  then have "system_senders ?new + sum_list (map (dialed L) is) =
      system_senders s' + sum_list (map settles os)"
    using system_run_balance [OF assms] by blast
  moreover have "system_senders ?new = {#}"
    by (simp add: system_senders_def endpoint_held_def) (simp add: endpoint_behaviour_new_def)
  ultimately show ?thesis
    by simp
qed

text \<open>
  C2: In every interleaving of the transport, the behaviour and their environment, over channels of
  any capacity, the senders of the dials the application made are exactly those queued in the
  transport, in the channel, held by the behaviour, lent to a handler, or settled: no dial is lost
  between the components, and none is settled twice.
\<close>

theorem system_dials_conserved:
  fixes "is" :: "('ss, 'ls, 'lr) system_input list"
  assumes "system_run L cap lops lrops (endpoint_system_new me relay_addr relay) is s' os"
  shows "sum_list (map (dialed L) is) =
     dial_senders (et_pending_to_behaviour (es_transport s')) +
     dial_senders (et_to_behaviour (es_transport s')) +
     waiting_senders (eb_wait (es_behaviour s')) + dial_senders (eb_pending_t2b (es_behaviour s')) +
     lent_senders (es_lent s') + sum_list (map settles os)"
  using system_run_conserves [OF assms] by (simp add: system_senders_def endpoint_held_def ac_simps)

theorem system_dials_conserved_witness:
  "\<exists>s os. system_run raw_lib 1 open_ops list_receiver
       (endpoint_system_new (PeerId [1]) (Multiaddr [9]) (PeerId [9]))
       (example_listen_inputs @ example_dial_inputs) s os \<and>
     sum_list (map settles os) = {#Oneshot 1#}"
proof -
  obtain os where "system_run raw_lib 1 open_ops list_receiver
      (endpoint_system_new (PeerId [1]) (Multiaddr [9]) (PeerId [9])) example_listen_inputs
      (example_system [] [] example_listening {#}) os"
    using example_listen_run by blast
  from system_run_trans [OF this example_dial_run] obtain os' where
    r: "system_run raw_lib 1 open_ops list_receiver
      (endpoint_system_new (PeerId [1]) (Multiaddr [9]) (PeerId [9]))
      (example_listen_inputs @ example_dial_inputs) (example_system [] [] example_listening {#}) os'"
    by blast
  have "sum_list (map (dialed raw_lib) (example_listen_inputs @ example_dial_inputs)) = {#Oneshot 1#}"
    by (simp add: example_listen_inputs_def example_dial_inputs_def raw_lib_def)
  with system_dials_conserved [OF r] have "sum_list (map settles os') = {#Oneshot 1#}"
    by (simp add: example_system_def endpoint_behaviour_new_def)
  with r show ?thesis by blast
qed

section \<open>The system does not panic\<close>

text \<open>
  What the environment may do next: handlers report connections of the configured relay only, and
  give back only what was lent to them.
\<close>

fun from_relay :: "peer_id \<Rightarrow> ('ss, 'ls, 'lr) system_input \<Rightarrow> bool" where
  "from_relay relay (SyHandler p c (EoNewConnection relay' a connection)) \<longleftrightarrow> relay' = relay"
| "from_relay relay i \<longleftrightarrow> True"

fun was_lent :: "('ss, 'ls, 'lr) endpoint_system \<Rightarrow> ('ss, 'ls, 'lr) system_input \<Rightarrow> bool" where
  "was_lent s (SyHandler p c e) \<longleftrightarrow> returned e \<subseteq># es_lent s"
| "was_lent s (SyLose info) \<longleftrightarrow> info \<in># es_lent s"
| "was_lent s i \<longleftrightarrow> True"

definition system_safe :: "peer_id \<Rightarrow> ('ss, 'ls, 'lr) endpoint_system \<Rightarrow> bool" where
  "system_safe relay s \<longleftrightarrow> et_relay_peer_id (es_transport s) = relay \<and>
     endpoint_safe {relay} (es_behaviour s)"

lemma from_relay_inputs:
  "from_relay relay (SyHandler p c e :: ('ss, 'ls, 'lr) system_input) \<Longrightarrow>
     endpoint_input_relays (EbHandler p c e :: ('ss, 'ls) endpoint_input) \<subseteq> {relay}"
  by (cases e) simp_all

lemma system_safe_reports:
  assumes "system_safe relay s"
  obtains q where "map_of (eb_to_transports (es_behaviour s)) relay = Some q"
proof -
  from assms have "relay \<in> fst ` set (eb_to_transports (es_behaviour s))"
    by (auto simp: system_safe_def endpoint_safe_def known_relays_def)
  then have "map_of (eb_to_transports (es_behaviour s)) relay \<noteq> None"
    by (metis map_of_eq_None_iff)
  with that show ?thesis by blast
qed

lemma set_reports_safe:
  assumes "map_of (eb_to_transports b) relay = Some q0"
  shows "endpoint_safe relays (set_reports relay q b) = endpoint_safe relays b"
proof -
  have "known_relays (set_reports relay q b) = known_relays b"
    using set_reports_keys [OF assms, of q] by (metis known_relays_def list.set_map)
  then show ?thesis
    using set_reports_inv [OF assms, of q] by (simp add: endpoint_safe_def)
qed

text \<open>A call on the transport that is not a poll returns.\<close>

lemma transport_call_returns:
  fixes lrops :: "('lr, io_error + 'ss connection) receiver_ops"
  assumes "i \<noteq> TiPoll"
  shows "\<exists>t'. transport_step L rops tops lrops t i t'"
proof (cases i)
  case (TiListenOn conn_sender conn_receiver lid a)
  obtain t' and es :: "'ss effect list" and r where
    "endpoint_listen_on conn_sender conn_receiver lid a t = (t', es, r)"
    by (metis prod.exhaust)
  with TiListenOn show ?thesis
    by (blast intro: transport_step.listen_on)
next
  case (TiRemoveListener lid)
  then show ?thesis
    by (metis prod.exhaust transport_step.remove_listener)
next
  case (TiDial conn a)
  obtain t' and es :: "'ss effect list" and r where "endpoint_dial L conn a t = (t', es, r)"
    by (metis prod.exhaust)
  with TiDial show ?thesis
    by (blast intro: transport_step.dial)
next
  case (TiDialAsListener a)
  then show ?thesis
    by (metis prod.exhaust transport_step.dial_as_listener)
qed (use assms in simp)

lemma system_step_returns:
  fixes s :: "('ss, 'ls, 'lr) endpoint_system"
  assumes safe: "system_safe relay s" and "from_relay relay i" and "was_lent s i"
  shows "\<exists>s' os. system_step L cap lops lrops s i s' os"
proof (cases i)
  case (SyCall call)
  show ?thesis
  proof (cases "call = TiPoll")
    case False
    with transport_call_returns [OF False, of L list_receiver "bounded_ops cap" lrops "es_transport s"]
    show ?thesis
      unfolding SyCall by (blast intro: system_step.call)
  next
    case True
    from system_safe_reports [OF safe] obtain q where
      q: "map_of (eb_to_transports (es_behaviour s)) relay = Some q" .
    have r: "et_relay_peer_id (es_transport s) = relay"
      using safe by (simp add: system_safe_def)
    from endpoint_transport_poll_returns [OF list_receiver_fifo list_receiver_live bounded_ops_live]
    obtain t' ev where "endpoint_transport_poll list_receiver (bounded_ops cap) lrops
        ((es_transport s)\<lparr>et_from_behaviour := q\<rparr>) = Some (Inr (t', ev))"
      by blast
    from system_step.transport_poll [OF r q this] show ?thesis
      unfolding SyCall True by blast
  qed
next
  case SyPoll
  obtain recv q where q: "rx_poll_next list_receiver (et_to_behaviour (es_transport s)) = (recv, q)"
    by fastforce
  from endpoint_step_safe [OF bounded_ops_live, of "{relay}" "es_behaviour s" "EbPoll recv" L lops cap] safe
  obtain b' os where
    "endpoint_step L lops (bounded_ops cap) (EbPoll recv) (es_behaviour s) = Inr (b', os)"
    by (auto simp: system_safe_def)
  from system_step.poll [OF q this] show ?thesis
    unfolding SyPoll by blast
next
  case (SyHandler p c e)
  from endpoint_step_safe [OF bounded_ops_live, of "{relay}" "es_behaviour s" "EbHandler p c e" L lops cap]
    safe from_relay_inputs assms(2) SyHandler
  obtain b' os where
    "endpoint_step L lops (bounded_ops cap) (EbHandler p c e) (es_behaviour s) = Inr (b', os)"
    by (metis system_safe_def)
  with assms(3) SyHandler system_step.handler show ?thesis
    by (metis was_lent.simps(1))
next
  case (SySwarm e)
  from endpoint_step_safe [OF bounded_ops_live, of "{relay}" "es_behaviour s" "EbSwarm e" L lops cap] safe
  obtain b' os where
    "endpoint_step L lops (bounded_ops cap) (EbSwarm e) (es_behaviour s) = Inr (b', os)"
    by (auto simp: system_safe_def)
  from system_step.swarm [OF this] show ?thesis
    unfolding SySwarm by blast
next
  case (SyLose info)
  with assms(3) show ?thesis
    using system_step.lose by (metis was_lent.simps(2))
qed

lemma endpoint_step_keeps_safe:
  fixes b :: "('ss, 'ls, behaviour_to_transport_event list) endpoint_behaviour"
  assumes "endpoint_step L lops (bounded_ops cap) i b = Inr (b', os)" and "endpoint_safe {relay} b"
    and "endpoint_input_relays i \<subseteq> {relay}"
  shows "endpoint_safe {relay} b'"
  using endpoint_step_safe [OF bounded_ops_live assms(2,3), of L lops cap] assms(1) by auto

lemma system_step_safe:
  fixes s :: "('ss, 'ls, 'lr) endpoint_system"
  assumes "system_step L cap lops lrops s i s' os" and safe: "system_safe relay s"
    and "from_relay relay i"
  shows "system_safe relay s'"
  using assms(1)
proof (cases rule: system_step.cases)
  case (call i' t')
  with transport_step_asked [OF call(5) bounded_ops_fifo list_receiver_fifo list_receiver_live] safe
  show ?thesis by (simp add: system_safe_def)
next
  case (transport_poll relay' q t' ev)
  with endpoint_transport_poll_asked [OF transport_poll(6) bounded_ops_fifo list_receiver_fifo
      list_receiver_live] set_reports_safe [OF transport_poll(5)] safe
  show ?thesis by (simp add: system_safe_def)
next
  case (poll recv q b' os')
  with endpoint_step_keeps_safe [OF poll(5)] safe show ?thesis
    by (simp add: system_safe_def)
next
  case (handler e p c b' os')
  have "endpoint_input_relays (EbHandler p c e :: ('ss, 'ls) endpoint_input) \<subseteq> {relay}"
    using assms(3) handler(1) by (intro from_relay_inputs [where ?'lr = 'lr]) simp
  with endpoint_step_keeps_safe [OF handler(5)] handler safe show ?thesis
    by (simp add: system_safe_def)
next
  case (swarm e b' os')
  with endpoint_step_keeps_safe [OF swarm(4)] safe show ?thesis
    by (simp add: system_safe_def)
next
  case (lose info)
  with safe show ?thesis by (simp add: system_safe_def)
qed

lemma system_run_safe:
  "system_run L cap lops lrops s is s' os \<Longrightarrow> system_safe relay s \<Longrightarrow>
     list_all (from_relay relay) is \<Longrightarrow> system_safe relay s'"
  by (induction rule: system_run.induct) (auto dest: system_step_safe)

lemma system_safe_new: "system_safe relay (endpoint_system_new me relay_addr relay)"
  using endpoint_inv_new [of "[(relay, [])]" me]
  by (simp add: system_safe_def endpoint_safe_def known_relays_def)
     (simp add: endpoint_behaviour_new_def)

text \<open>
  C10: The composed endpoint never panics and never hangs. Over channels of any capacity, after any
  interleaving in which the handlers report connections of the configured relay, every operation
  the environment can call next (any call on the transport, a poll of either side, a swarm event, a
  handler's event that answers what was lent) returns.
\<close>

theorem system_never_stuck:
  assumes "system_run L cap lops lrops (endpoint_system_new me relay_addr relay) is s os"
    and "list_all (from_relay relay) (is @ [i])" and "was_lent s i"
  shows "\<exists>s' os'. system_step L cap lops lrops s i s' os'"
proof -
  from assms(2) have "system_safe relay s"
    by (intro system_run_safe [OF assms(1) system_safe_new]) simp
  then show ?thesis
    by (rule system_step_returns) (use assms(2,3) in simp_all)
qed

theorem system_never_stuck_witness:
  "\<exists>s' os'. system_step raw_lib 1 open_ops list_receiver
     (example_system [] [] example_listening {#}) (SyCall TiPoll) s' os'"
proof -
  obtain os where r: "system_run raw_lib 1 open_ops list_receiver
      (endpoint_system_new (PeerId [1]) (Multiaddr [9]) (PeerId [9])) example_listen_inputs
      (example_system [] [] example_listening {#}) os"
    using example_listen_run by blast
  show ?thesis
    by (rule system_never_stuck [OF r]) (simp_all add: example_listen_inputs_def)
qed

end
