(* ===== verification/Endpoint_Wires.thy ===== *)
theory Endpoint_Wires
  imports Endpoint_System
begin

text \<open>
  The endpoint's handlers (\<open>src/endpoint/handler.rs\<close>), one per connection, and the upgrades that run
  on their substreams (\<open>src/endpoint/upgrade\<close>), with the events on their way between the behaviour
  and them: the part of the endpoint that \<open>Endpoint_System\<close> leaves to the environment. The swarm
  opens and closes connections and polls what it likes; an event for a handler may be lost. An input
  that the state does not allow leaves the state alone.
\<close>

section \<open>State\<close>

record 'ss endpoint_link =
  ek_peer :: peer_id
  ek_handler :: "'ss endpoint_handler"

type_synonym 'ss outbound_result = "panic + endpoint_error + ('ss connection + unit)"
type_synonym 'ss inbound_result = "panic + endpoint_error + 'ss inbound_upgrade_output"

text \<open>
  A running upgrade: its connection, what it was started with, the information kept for its outcome,
  the answers that its awaits got so far (which the code does not keep) and what is left to run.
\<close>

datatype 'ss endpoint_task =
    OutDialTask connection_id endpoint_outbound_upgrade endpoint_open_info
      "(pb_dial_response, pb_dial_request, 'ss) ev list"
      "(pb_dial_response, pb_dial_request, 'ss, 'ss outbound_result) upg"
  | OutListenTask connection_id endpoint_outbound_upgrade endpoint_open_info
      "(pb_listen_response, pb_listen_request, 'ss) ev list"
      "(pb_listen_response, pb_listen_request, 'ss, 'ss outbound_result) upg"
  | InConnectTask connection_id endpoint_inbound_upgrade
      "(pb_connect_request, pb_connect_response, 'ss) ev list"
      "(pb_connect_request, pb_connect_response, 'ss, 'ss inbound_result) upg"

fun endpoint_task_link :: "'ss endpoint_task \<Rightarrow> connection_id" where
  "endpoint_task_link (OutDialTask cid u info tr t) = cid"
| "endpoint_task_link (OutListenTask cid u info tr t) = cid"
| "endpoint_task_link (InConnectTask cid u tr t) = cid"

record 'ss endpoint_wires =
  ew_links :: "(connection_id \<times> 'ss endpoint_link) list"
  ew_tasks :: "(nat \<times> 'ss endpoint_task) list"
  ew_notices :: "(peer_id \<times> endpoint_in_event) list"
  ew_events :: "(peer_id \<times> connection_id \<times> 'ss endpoint_out_event) list"

definition endpoint_wires_new :: "'ss endpoint_wires" where
  "endpoint_wires_new = \<lparr>ew_links = [], ew_tasks = [], ew_notices = [], ew_events = []\<rparr>"

datatype 'ss wire_input =
    WiOpen connection_id peer_id endpoint_into_connection_handler
  | WiClose connection_id
  | WiNotice peer_id endpoint_in_event
  | WiNotify connection_id
  | WiLoseNotice
  | WiInbound connection_id nat
  | WiDialAwait nat "(pb_dial_response, pb_dial_request, 'ss) ev"
  | WiListenAwait nat "(pb_listen_response, pb_listen_request, 'ss) ev"
  | WiConnectAwait nat "(pb_connect_request, pb_connect_response, 'ss) ev"
  | WiFinish nat string
  | WiGiveUp nat upgr_err
  | WiHandlerPoll connection_id nat
  | WiTake

text \<open>What a step shows: what was lost with a connection, the event that the behaviour takes, and
  the upgrades that finished, with the peer of their connection.\<close>

datatype 'ss wire_output =
    WoLost endpoint_open_info
  | WoEvent peer_id connection_id "'ss endpoint_out_event"
  | WoDialed peer_id endpoint_outbound_upgrade endpoint_open_info
      "(pb_dial_response, pb_dial_request, 'ss) ev list" "endpoint_error + ('ss connection + unit)"
  | WoListened peer_id endpoint_outbound_upgrade endpoint_open_info
      "(pb_listen_response, pb_listen_request, 'ss) ev list" "endpoint_error + ('ss connection + unit)"
  | WoAccepted peer_id endpoint_inbound_upgrade
      "(pb_connect_request, pb_connect_response, 'ss) ev list" "endpoint_error + 'ss inbound_upgrade_output"

section \<open>What is lent to whom\<close>

fun returned_infos :: "'ss endpoint_out_event \<Rightarrow> endpoint_open_info list" where
  "returned_infos (EoDialSuccess relay connection sender) = [InfoDial sender]"
| "returned_infos (EoDialFailed err relay sender) = [InfoDial sender]"
| "returned_infos (EoListenSuccess relay lid local_peer_id addr) = [InfoListen lid local_peer_id addr]"
| "returned_infos (EoListenFailed err relay lid local_peer_id addr) = [InfoListen lid local_peer_id addr]"
| "returned_infos (EoNewConnection relay addr connection) = []"
| "returned_infos (EoError err) = []"

fun event_infos :: "'ss endpoint_handler_event \<Rightarrow> endpoint_open_info list" where
  "event_infos (OutboundSubstreamRequest u info) = [info]"
| "event_infos (Custom e) = returned_infos e"

definition link_infos :: "'ss endpoint_link \<Rightarrow> endpoint_open_info list" where
  "link_infos l = concat (map event_infos (eh_pending_events (ek_handler l)))"

fun task_infos :: "'ss endpoint_task \<Rightarrow> endpoint_open_info list" where
  "task_infos (OutDialTask cid u info tr t) = [info]"
| "task_infos (OutListenTask cid u info tr t) = [info]"
| "task_infos (InConnectTask cid u tr t) = []"

fun notice_info :: "endpoint_in_event \<Rightarrow> endpoint_open_info" where
  "notice_info (EiDial dst_peer_id dst_addr sender) = InfoDial sender"
| "notice_info (EiListen lid local_peer_id addr) = InfoListen lid local_peer_id addr"

definition wires_lent :: "'ss endpoint_wires \<Rightarrow> endpoint_open_info multiset" where
  "wires_lent w = mset (concat (map (link_infos \<circ> snd) (ew_links w))) +
     mset (concat (map (task_infos \<circ> snd) (ew_tasks w))) +
     mset (map (notice_info \<circ> snd) (ew_notices w)) +
     mset (concat (map (\<lambda>(p, cid, e). returned_infos e) (ew_events w)))"

section \<open>Steps\<close>

text \<open>The first pair with a key is removed.\<close>

fun drop_key :: "'k \<Rightarrow> ('k \<times> 'v) list \<Rightarrow> ('k \<times> 'v) list" where
  "drop_key k [] = []"
| "drop_key k ((k', v) # xs) = (if k' = k then xs else (k', v) # drop_key k xs)"

definition put_handler ::
  "connection_id \<Rightarrow> 'ss endpoint_link \<Rightarrow> 'ss endpoint_handler \<Rightarrow> 'ss endpoint_wires \<Rightarrow> 'ss endpoint_wires" where
  "put_handler cid l h w = w\<lparr>ew_links := AList.update cid (l\<lparr>ek_handler := h\<rparr>) (ew_links w)\<rparr>"

definition put_task :: "nat \<Rightarrow> 'ss endpoint_task \<Rightarrow> 'ss endpoint_wires \<Rightarrow> 'ss endpoint_wires" where
  "put_task k t w = w\<lparr>ew_tasks := AList.update k t (ew_tasks w)\<rparr>"

definition drop_task :: "nat \<Rightarrow> 'ss endpoint_wires \<Rightarrow> 'ss endpoint_wires" where
  "drop_task k w = w\<lparr>ew_tasks := drop_key k (ew_tasks w)\<rparr>"

text \<open>A running upgrade with the link of its connection.\<close>

definition endpoint_task_at ::
  "nat \<Rightarrow> 'ss endpoint_wires \<Rightarrow> ('ss endpoint_task \<times> 'ss endpoint_link) option" where
  "endpoint_task_at k w =
     (case map_of (ew_tasks w) k of
        None \<Rightarrow> None
      | Some t \<Rightarrow> (case map_of (ew_links w) (endpoint_task_link t) of
          None \<Rightarrow> None | Some l \<Rightarrow> Some (t, l)))"

definition report_outcome ::
  "connection_id \<Rightarrow> 'ss endpoint_link \<Rightarrow> 'ss endpoint_connection_event \<Rightarrow> 'ss wire_output list \<Rightarrow>
     'ss endpoint_wires \<Rightarrow> panic + 'ss endpoint_wires \<times> 'ss wire_output list" where
  "report_outcome cid l ce os w =
     (case endpoint_on_connection_event ce (ek_handler l) of
        Inl p \<Rightarrow> Inl p
      | Inr (h, es) \<Rightarrow> Inr (put_handler cid l h w, os))"

text \<open>The result of a finished upgrade, as the swarm hands it to the handler; \<open>text\<close> is what it makes
  of an error.\<close>

fun outbound_outcome_event ::
  "string \<Rightarrow> endpoint_open_info \<Rightarrow> endpoint_error + ('ss connection + unit) \<Rightarrow>
     'ss endpoint_connection_event" where
  "outbound_outcome_event msg info (Inl e) = DialUpgradeError info (UpgrOther msg)"
| "outbound_outcome_event msg info (Inr r) = FullyNegotiatedOutbound r info"

fun inbound_outcome_event ::
  "string \<Rightarrow> endpoint_error + 'ss inbound_upgrade_output \<Rightarrow> 'ss endpoint_connection_event" where
  "inbound_outcome_event msg (Inl e) = ListenUpgradeError (UpgrOther msg)"
| "inbound_outcome_event msg (Inr out) = FullyNegotiatedInbound out"

definition endpoint_finish ::
  "string \<Rightarrow> nat \<Rightarrow> 'ss endpoint_task \<Rightarrow> 'ss endpoint_link \<Rightarrow> 'ss endpoint_wires \<Rightarrow>
     panic + 'ss endpoint_wires \<times> 'ss wire_output list" where
  "endpoint_finish msg k t l w =
     (case t of
        OutDialTask cid u info tr (Done (Inl p)) \<Rightarrow> Inl p
      | OutDialTask cid u info tr (Done (Inr r)) \<Rightarrow>
          report_outcome cid l (outbound_outcome_event msg info r) [WoDialed (ek_peer l) u info tr r]
            (drop_task k w)
      | OutListenTask cid u info tr (Done (Inl p)) \<Rightarrow> Inl p
      | OutListenTask cid u info tr (Done (Inr r)) \<Rightarrow>
          report_outcome cid l (outbound_outcome_event msg info r) [WoListened (ek_peer l) u info tr r]
            (drop_task k w)
      | InConnectTask cid u tr (Done (Inl p)) \<Rightarrow> Inl p
      | InConnectTask cid u tr (Done (Inr r)) \<Rightarrow>
          report_outcome cid l (inbound_outcome_event msg r) [WoAccepted (ek_peer l) u tr r]
            (drop_task k w)
      | _ \<Rightarrow> Inr (w, []))"

definition endpoint_give_up ::
  "upgr_err \<Rightarrow> nat \<Rightarrow> 'ss endpoint_task \<Rightarrow> 'ss endpoint_link \<Rightarrow> 'ss endpoint_wires \<Rightarrow>
     panic + 'ss endpoint_wires \<times> 'ss wire_output list" where
  "endpoint_give_up err k t l w =
     report_outcome (endpoint_task_link t) l
       (case t of
          OutDialTask cid u info tr r \<Rightarrow> DialUpgradeError info err
        | OutListenTask cid u info tr r \<Rightarrow> DialUpgradeError info err
        | InConnectTask cid u tr r \<Rightarrow> ListenUpgradeError err) [] (drop_task k w)"

text \<open>The upgrade that a handler asked for, started.\<close>

definition outbound_task ::
  "lib \<Rightarrow> connection_id \<Rightarrow> endpoint_outbound_upgrade \<Rightarrow> endpoint_open_info \<Rightarrow> 'ss endpoint_task" where
  "outbound_task L cid u info =
     (case endpoint_upgrade_outbound L u of
        Inl t \<Rightarrow> OutDialTask cid u info [] t
      | Inr t \<Rightarrow> OutListenTask cid u info [] t)"

fun wire_step ::
  "lib \<Rightarrow> 'ss wire_input \<Rightarrow> 'ss endpoint_wires \<Rightarrow> panic + 'ss endpoint_wires \<times> 'ss wire_output list" where
  "wire_step L (WiOpen cid p hi) w =
     (case map_of (ew_links w) cid of
        Some l \<Rightarrow> Inr (w, [])
      | None \<Rightarrow> Inr (w\<lparr>ew_links := (cid, \<lparr>ek_peer = p, ek_handler = endpoint_into_handler hi p\<rparr>)
          # ew_links w\<rparr>, []))"
| "wire_step L (WiClose cid) w =
     (case map_of (ew_links w) cid of
        None \<Rightarrow> Inr (w, [])
      | Some l \<Rightarrow>
          Inr (w\<lparr>ew_links := drop_key cid (ew_links w),
                 ew_tasks := filter (\<lambda>x. endpoint_task_link (snd x) \<noteq> cid) (ew_tasks w)\<rparr>,
               map WoLost (link_infos l @ concat (map (task_infos \<circ> snd)
                 (filter (\<lambda>x. endpoint_task_link (snd x) = cid) (ew_tasks w))))))"
| "wire_step L (WiNotice p e) w = Inr (w\<lparr>ew_notices := ew_notices w @ [(p, e)]\<rparr>, [])"
| "wire_step L (WiNotify cid) w =
     (case (ew_notices w, map_of (ew_links w) cid) of
        ((p, e) # ns, Some l) \<Rightarrow>
          (if ek_peer l = p
           then Inr ((put_handler cid l (fst (endpoint_on_behaviour_event e (ek_handler l))) w)
                  \<lparr>ew_notices := ns\<rparr>, [])
           else Inr (w, []))
      | _ \<Rightarrow> Inr (w, []))"
| "wire_step L WiLoseNotice w =
     (case ew_notices w of
        [] \<Rightarrow> Inr (w, [])
      | (p, e) # ns \<Rightarrow> Inr (w\<lparr>ew_notices := ns\<rparr>, [WoLost (notice_info e)]))"
| "wire_step L (WiInbound cid k) w =
     (case (map_of (ew_links w) cid, map_of (ew_tasks w) k) of
        (Some l, None) \<Rightarrow>
          Inr (put_task k (InConnectTask cid (endpoint_listen_protocol (ek_handler l)) []
            (endpoint_upgrade_inbound L (endpoint_listen_protocol (ek_handler l)))) w, [])
      | _ \<Rightarrow> Inr (w, []))"
| "wire_step L (WiDialAwait k e) w =
     (case map_of (ew_tasks w) k of
        Some (OutDialTask cid u info tr t) \<Rightarrow>
          (case resume t e of
             None \<Rightarrow> Inr (w, [])
           | Some t' \<Rightarrow> Inr (put_task k (OutDialTask cid u info (tr @ [e]) t') w, []))
      | _ \<Rightarrow> Inr (w, []))"
| "wire_step L (WiListenAwait k e) w =
     (case map_of (ew_tasks w) k of
        Some (OutListenTask cid u info tr t) \<Rightarrow>
          (case resume t e of
             None \<Rightarrow> Inr (w, [])
           | Some t' \<Rightarrow> Inr (put_task k (OutListenTask cid u info (tr @ [e]) t') w, []))
      | _ \<Rightarrow> Inr (w, []))"
| "wire_step L (WiConnectAwait k e) w =
     (case map_of (ew_tasks w) k of
        Some (InConnectTask cid u tr t) \<Rightarrow>
          (case resume t e of
             None \<Rightarrow> Inr (w, [])
           | Some t' \<Rightarrow> Inr (put_task k (InConnectTask cid u (tr @ [e]) t') w, []))
      | _ \<Rightarrow> Inr (w, []))"
| "wire_step L (WiFinish k msg) w =
     (case endpoint_task_at k w of
        None \<Rightarrow> Inr (w, []) | Some (t, l) \<Rightarrow> endpoint_finish msg k t l w)"
| "wire_step L (WiGiveUp k err) w =
     (case endpoint_task_at k w of
        None \<Rightarrow> Inr (w, []) | Some (t, l) \<Rightarrow> endpoint_give_up err k t l w)"
| "wire_step L (WiHandlerPoll cid k) w =
     (case (map_of (ew_links w) cid, map_of (ew_tasks w) k) of
        (Some l, None) \<Rightarrow>
          (case endpoint_handler_poll (ek_handler l) of
             (h, es, Pending) \<Rightarrow> Inr (put_handler cid l h w, [])
           | (h, es, Ready (Custom e)) \<Rightarrow>
               Inr ((put_handler cid l h w)\<lparr>ew_events := ew_events w @ [(ek_peer l, cid, e)]\<rparr>, [])
           | (h, es, Ready (OutboundSubstreamRequest u info)) \<Rightarrow>
               Inr (put_task k (outbound_task L cid u info) (put_handler cid l h w), []))
      | _ \<Rightarrow> Inr (w, []))"
| "wire_step L WiTake w =
     (case ew_events w of
        [] \<Rightarrow> Inr (w, [])
      | (p, cid, e) # evs \<Rightarrow> Inr (w\<lparr>ew_events := evs\<rparr>, [WoEvent p cid e]))"

section \<open>The steps, case by case\<close>

lemma endpoint_task_at_Some:
  "endpoint_task_at k w = Some (t, l) \<longleftrightarrow>
     map_of (ew_tasks w) k = Some t \<and> map_of (ew_links w) (endpoint_task_link t) = Some l"
  by (auto simp: endpoint_task_at_def split: option.splits)

text \<open>What a connection event adds to the handler's queue.\<close>

fun outcome_infos :: "'ss endpoint_connection_event \<Rightarrow> endpoint_open_info list" where
  "outcome_infos (FullyNegotiatedOutbound r info) = [info]"
| "outcome_infos (DialUpgradeError info err) = [info]"
| "outcome_infos (FullyNegotiatedInbound out) = []"
| "outcome_infos (AddressChange a) = []"
| "outcome_infos (ListenUpgradeError err) = []"

lemma wire_step_cases [consumes 1, case_names idle opened closed notice notify lose inbound dial_await
    listen_await connect_await dialed listened accepted given_up custom request take]:
  assumes "wire_step L i w = Inr (w', os)"
  obtains
      (idle) "w' = w" "os = []" "\<And>q e. i \<noteq> WiNotice q e"
    | (opened) cid q hi where "map_of (ew_links w) cid = None"
        "w' = w\<lparr>ew_links := (cid, \<lparr>ek_peer = q, ek_handler = endpoint_into_handler hi q\<rparr>) # ew_links w\<rparr>"
        "os = []" "i = WiOpen cid q hi"
    | (closed) cid l where "map_of (ew_links w) cid = Some l"
        "w' = w\<lparr>ew_links := drop_key cid (ew_links w),
           ew_tasks := filter (\<lambda>x. endpoint_task_link (snd x) \<noteq> cid) (ew_tasks w)\<rparr>"
        "os = map WoLost (link_infos l @ concat (map (task_infos \<circ> snd)
           (filter (\<lambda>x. endpoint_task_link (snd x) = cid) (ew_tasks w))))" "i = WiClose cid"
    | (notice) q e where "w' = w\<lparr>ew_notices := ew_notices w @ [(q, e)]\<rparr>" "os = []" "i = WiNotice q e"
    | (notify) cid l e ns where "ew_notices w = (ek_peer l, e) # ns" "map_of (ew_links w) cid = Some l"
        "w' = (put_handler cid l (fst (endpoint_on_behaviour_event e (ek_handler l))) w)\<lparr>ew_notices := ns\<rparr>"
        "os = []" "i = WiNotify cid"
    | (lose) q e ns where "ew_notices w = (q, e) # ns" "w' = w\<lparr>ew_notices := ns\<rparr>"
        "os = [WoLost (notice_info e)]" "i = WiLoseNotice"
    | (inbound) cid k l where "map_of (ew_links w) cid = Some l" "map_of (ew_tasks w) k = None"
        "w' = put_task k (InConnectTask cid (endpoint_listen_protocol (ek_handler l)) []
            (endpoint_upgrade_inbound L (endpoint_listen_protocol (ek_handler l)))) w" "os = []"
        "i = WiInbound cid k"
    | (dial_await) k e cid u info tr t t' where
        "map_of (ew_tasks w) k = Some (OutDialTask cid u info tr t)" "resumes t e t'"
        "w' = put_task k (OutDialTask cid u info (tr @ [e]) t') w" "os = []" "i = WiDialAwait k e"
    | (listen_await) k e cid u info tr t t' where
        "map_of (ew_tasks w) k = Some (OutListenTask cid u info tr t)" "resumes t e t'"
        "w' = put_task k (OutListenTask cid u info (tr @ [e]) t') w" "os = []" "i = WiListenAwait k e"
    | (connect_await) k e cid u tr t t' where
        "map_of (ew_tasks w) k = Some (InConnectTask cid u tr t)" "resumes t e t'"
        "w' = put_task k (InConnectTask cid u (tr @ [e]) t') w" "os = []" "i = WiConnectAwait k e"
    | (dialed) k cid u info tr r l h es msg where
        "map_of (ew_tasks w) k = Some (OutDialTask cid u info tr (Done (Inr r)))"
        "map_of (ew_links w) cid = Some l"
        "endpoint_on_connection_event (outbound_outcome_event msg info r) (ek_handler l) = Inr (h, es)"
        "w' = put_handler cid l h (drop_task k w)" "os = [WoDialed (ek_peer l) u info tr r]"
        "i = WiFinish k msg"
    | (listened) k cid u info tr r l h es msg where
        "map_of (ew_tasks w) k = Some (OutListenTask cid u info tr (Done (Inr r)))"
        "map_of (ew_links w) cid = Some l"
        "endpoint_on_connection_event (outbound_outcome_event msg info r) (ek_handler l) = Inr (h, es)"
        "w' = put_handler cid l h (drop_task k w)" "os = [WoListened (ek_peer l) u info tr r]"
        "i = WiFinish k msg"
    | (accepted) k cid u tr r l h es msg where
        "map_of (ew_tasks w) k = Some (InConnectTask cid u tr (Done (Inr r)))"
        "map_of (ew_links w) cid = Some l"
        "endpoint_on_connection_event (inbound_outcome_event msg r) (ek_handler l) = Inr (h, es)"
        "w' = put_handler cid l h (drop_task k w)" "os = [WoAccepted (ek_peer l) u tr r]"
        "i = WiFinish k msg"
    | (given_up) k t l ce h es err where "map_of (ew_tasks w) k = Some t"
        "map_of (ew_links w) (endpoint_task_link t) = Some l"
        "endpoint_on_connection_event ce (ek_handler l) = Inr (h, es)" "outcome_infos ce = task_infos t"
        "ce = ListenUpgradeError err \<or> (\<exists>info. ce = DialUpgradeError info err)"
        "w' = put_handler (endpoint_task_link t) l h (drop_task k w)" "os = []" "i = WiGiveUp k err"
    | (custom) cid k l e h es where "map_of (ew_links w) cid = Some l"
        "endpoint_handler_poll (ek_handler l) = (h, es, Ready (Custom e))"
        "w' = (put_handler cid l h w)\<lparr>ew_events := ew_events w @ [(ek_peer l, cid, e)]\<rparr>" "os = []"
        "i = WiHandlerPoll cid k"
    | (request) cid k l u info h es where "map_of (ew_links w) cid = Some l" "map_of (ew_tasks w) k = None"
        "endpoint_handler_poll (ek_handler l) = (h, es, Ready (OutboundSubstreamRequest u info))"
        "w' = put_task k (outbound_task L cid u info) (put_handler cid l h w)" "os = []"
        "i = WiHandlerPoll cid k"
    | (take) q cid e evs where "ew_events w = (q, cid, e) # evs" "w' = w\<lparr>ew_events := evs\<rparr>"
        "os = [WoEvent q cid e]" "i = WiTake"
proof (cases i)
  case (WiFinish k msg)
  show ?thesis
  proof (cases "endpoint_task_at k w")
    case (Some x)
    then obtain t l where x: "map_of (ew_tasks w) k = Some t"
        "map_of (ew_links w) (endpoint_task_link t) = Some l"
      and at: "endpoint_task_at k w = Some (t, l)"
      by (cases x) (auto simp: endpoint_task_at_Some)
    from assms WiFinish at have f: "endpoint_finish msg k t l w = Inr (w', os)"
      by simp
    show ?thesis
    proof (cases t)
      case (OutDialTask cid u info tr r)
      with f x WiFinish show ?thesis
        by (cases r) (auto simp: endpoint_finish_def report_outcome_def split: sum.splits
            intro: idle dialed)
    next
      case (OutListenTask cid u info tr r)
      with f x WiFinish show ?thesis
        by (cases r) (auto simp: endpoint_finish_def report_outcome_def split: sum.splits
            intro: idle listened)
    next
      case (InConnectTask cid u tr r)
      with f x WiFinish show ?thesis
        by (cases r) (auto simp: endpoint_finish_def report_outcome_def split: sum.splits
            intro: idle accepted)
    qed
  qed (use assms WiFinish in \<open>auto intro: idle\<close>)
next
  case (WiGiveUp k err)
  show ?thesis
  proof (cases "endpoint_task_at k w")
    case (Some x)
    then obtain t l where x: "map_of (ew_tasks w) k = Some t"
        "map_of (ew_links w) (endpoint_task_link t) = Some l"
      and "endpoint_task_at k w = Some (t, l)"
      by (cases x) (auto simp: endpoint_task_at_Some)
    let ?ce = "(case t of
          OutDialTask cid u info tr r \<Rightarrow> DialUpgradeError info err
        | OutListenTask cid u info tr r \<Rightarrow> DialUpgradeError info err
        | InConnectTask cid u tr r \<Rightarrow> ListenUpgradeError err) :: 'a endpoint_connection_event"
    from \<open>endpoint_task_at k w = Some (t, l)\<close> assms WiGiveUp
    obtain h es where h: "endpoint_on_connection_event ?ce (ek_handler l) = Inr (h, es)"
      and w': "w' = put_handler (endpoint_task_link t) l h (drop_task k w)" "os = []"
      by (simp add: endpoint_give_up_def report_outcome_def split: sum.splits prod.splits)
    have "outcome_infos ?ce = task_infos t" "?ce = ListenUpgradeError err \<or> (\<exists>info. ?ce = DialUpgradeError info err)"
      by (cases t; simp)+
    from given_up [OF x h this w' WiGiveUp] show ?thesis .
  qed (use assms WiGiveUp in \<open>auto intro: idle\<close>)
next
  case (WiHandlerPoll cid k)
  show ?thesis
  proof (cases "map_of (ew_links w) cid")
    case (Some l)
    show ?thesis
    proof (cases "map_of (ew_tasks w) k")
      case None
      obtain h es r where p: "endpoint_handler_poll (ek_handler l) = (h, es, r)"
        by (cases "endpoint_handler_poll (ek_handler l)") auto
      show ?thesis
      proof (cases r)
        case Pending
        with p have "h = ek_handler l"
          by (auto simp: endpoint_handler_poll_def split: list.splits)
        with p Pending assms WiHandlerPoll Some None have "w' = w" "os = []"
          by (auto simp: put_handler_def update_triv)
        with WiHandlerPoll show ?thesis by (auto intro: idle)
      next
        case (Ready ev)
        with p assms WiHandlerPoll Some None show ?thesis
          by (cases ev) (auto intro: custom request)
      qed
    qed (use assms WiHandlerPoll Some in \<open>auto intro: idle\<close>)
  qed (use assms WiHandlerPoll in \<open>auto intro: idle\<close>)
next
  case (WiInbound cid k)
  with assms show ?thesis
    by (auto split: option.splits intro: idle inbound)
next
  case (WiDialAwait k e)
  with assms show ?thesis
    by (auto simp: resume_iff split: option.splits endpoint_task.splits intro: idle dial_await)
next
  case (WiListenAwait k e)
  with assms show ?thesis
    by (auto simp: resume_iff split: option.splits endpoint_task.splits intro: idle listen_await)
next
  case (WiConnectAwait k e)
  with assms show ?thesis
    by (auto simp: resume_iff split: option.splits endpoint_task.splits intro: idle connect_await)
next
  case (WiNotify cid)
  with assms show ?thesis
    by (auto split: option.splits list.splits if_splits intro: idle notify)
next
  case (WiOpen cid q hi)
  with assms show ?thesis
    by (cases "map_of (ew_links w) cid") (auto intro: idle opened)
next
  case (WiClose cid)
  with assms show ?thesis
    by (cases "map_of (ew_links w) cid") (auto intro: idle closed)
next
  case WiLoseNotice
  with assms show ?thesis
    by (auto split: list.splits intro: idle lose)
next
  case WiTake
  with assms show ?thesis
    by (auto split: list.splits intro: idle take)
next
  case (WiNotice q e)
  with assms show ?thesis
    by (auto intro: notice)
qed

section \<open>Nothing that was lent is lost\<close>

definition held_in :: "('v \<Rightarrow> 'x list) \<Rightarrow> ('k \<times> 'v) list \<Rightarrow> 'x multiset" where
  "held_in f xs = mset (concat (map (f \<circ> snd) xs))"

lemma held_in_simps [simp]:
  "held_in f [] = {#}" "held_in f ((k, v) # xs) = mset (f v) + held_in f xs"
  by (simp_all add: held_in_def)

lemma held_in_update:
  "map_of xs k = Some v \<Longrightarrow> held_in f (AList.update k v' xs) + mset (f v) = held_in f xs + mset (f v')"
  by (induction xs) (auto simp: ac_simps split: if_splits)

lemma held_in_update_new:
  "map_of xs k = None \<Longrightarrow> held_in f (AList.update k v xs) = held_in f xs + mset (f v)"
  by (induction xs) (auto simp: ac_simps split: if_splits)

lemma held_in_drop:
  "map_of xs k = Some v \<Longrightarrow> held_in f (drop_key k xs) + mset (f v) = held_in f xs"
  by (induction xs) (auto simp: ac_simps split: if_splits)

lemma held_in_filter:
  "held_in f (filter (\<lambda>x. \<not> P x) xs) + mset (concat (map (f \<circ> snd) (filter P xs))) = held_in f xs"
  by (induction xs) (auto simp: held_in_def ac_simps)

lemma wires_lent_alt:
  "wires_lent w = held_in link_infos (ew_links w) + held_in task_infos (ew_tasks w) +
     mset (map (notice_info \<circ> snd) (ew_notices w)) +
     mset (concat (map (\<lambda>(p, cid, e). returned_infos e) (ew_events w)))"
  by (simp add: wires_lent_def held_in_def)

lemma mset_returned_infos: "mset (returned_infos e) = returned e"
  by (cases e) simp_all

abbreviation queue_infos :: "'ss endpoint_handler \<Rightarrow> endpoint_open_info list" where
  "queue_infos h \<equiv> concat (map event_infos (eh_pending_events h))"

lemma link_infos_handler [simp]: "link_infos (l\<lparr>ek_handler := h\<rparr>) = queue_infos h"
  by (simp add: link_infos_def)

lemma lent_put_handler:
  "map_of (ew_links w) cid = Some l \<Longrightarrow>
     wires_lent (put_handler cid l h w) + mset (queue_infos (ek_handler l)) =
     wires_lent w + mset (queue_infos h)"
  using held_in_update [of "ew_links w" cid l link_infos "l\<lparr>ek_handler := h\<rparr>"]
  by (simp add: wires_lent_alt put_handler_def link_infos_def ac_simps)

lemma lent_put_task_new:
  "map_of (ew_tasks w) k = None \<Longrightarrow> wires_lent (put_task k t w) = wires_lent w + mset (task_infos t)"
  by (simp add: wires_lent_alt put_task_def held_in_update_new ac_simps)

lemma lent_put_task_same:
  "map_of (ew_tasks w) k = Some t \<Longrightarrow> task_infos t' = task_infos t \<Longrightarrow>
     wires_lent (put_task k t' w) = wires_lent w"
  using held_in_update [of "ew_tasks w" k t task_infos t']
  by (simp add: wires_lent_alt put_task_def)

lemma lent_drop_task:
  "map_of (ew_tasks w) k = Some t \<Longrightarrow> wires_lent (drop_task k w) + mset (task_infos t) = wires_lent w"
  using held_in_drop [of "ew_tasks w" k t task_infos]
  by (simp add: wires_lent_alt drop_task_def ac_simps)

text \<open>What the handler's operations do to its queue.\<close>

lemma connection_event_infos:
  "endpoint_on_connection_event ce h = Inr (h', es) \<Longrightarrow> queue_infos h' = queue_infos h @ outcome_infos ce"
  by (cases ce) (auto simp: eh_push_def split: sum.splits endpoint_open_info.splits)

lemma behaviour_event_infos:
  "queue_infos (fst (endpoint_on_behaviour_event e h)) = queue_infos h @ [notice_info e]"
  by (cases e) (simp_all add: eh_push_def)

lemma handler_poll_infos:
  "endpoint_handler_poll h = (h', es, Ready ev) \<Longrightarrow> mset (queue_infos h) = mset (event_infos ev) + mset (queue_infos h')"
  by (auto simp: endpoint_handler_poll_def new_connection_event_def split: list.splits)

lemma outbound_task_infos: "task_infos (outbound_task L cid u info) = [info]"
  by (simp add: outbound_task_def split: sum.splits)

lemma put_handler_tasks [simp]:
  "ew_tasks (put_handler cid l h w) = ew_tasks w" "ew_links (drop_task k w) = ew_links w"
  "ew_links (put_task k t w) = ew_links w"
  by (simp_all add: put_handler_def drop_task_def put_task_def)

fun wire_taken :: "'ss wire_input \<Rightarrow> endpoint_open_info multiset" where
  "wire_taken (WiNotice p e) = {#notice_info e#}"
| "wire_taken i = {#}"

fun wire_given :: "'ss wire_output \<Rightarrow> endpoint_open_info multiset" where
  "wire_given (WoLost info) = {#info#}"
| "wire_given (WoEvent p cid e) = returned e"
| "wire_given ob = {#}"

lemma wire_given_lost: "sum_list (map wire_given (map WoLost infos)) = mset infos"
  by (induction infos) simp_all

text \<open>The outcome of an upgrade carries the information of the upgrade.\<close>

lemma lent_outcome:
  assumes "map_of (ew_tasks w) k = Some t" and "map_of (ew_links w) cid = Some l"
    and "endpoint_on_connection_event ce (ek_handler l) = Inr (h, es)"
    and "outcome_infos ce = task_infos t"
  shows "wires_lent (put_handler cid l h (drop_task k w)) = wires_lent w"
proof -
  have "wires_lent (put_handler cid l h (drop_task k w)) + mset (queue_infos (ek_handler l)) =
      wires_lent (drop_task k w) + mset (queue_infos (ek_handler l)) + mset (task_infos t)"
    using lent_put_handler [of "drop_task k w" cid l h] assms(2,4) connection_event_infos [OF assms(3)]
    by (simp add: ac_simps)
  also have "\<dots> = wires_lent w + mset (queue_infos (ek_handler l))"
    using lent_drop_task [OF assms(1)] by (metis (no_types, lifting) add.assoc add.commute)
  finally show ?thesis by simp
qed

lemma wire_step_balance:
  assumes "wire_step L i w = Inr (w', os)"
  shows "wires_lent w + wire_taken i = wires_lent w' + sum_list (map wire_given os)"
  using assms
proof (cases rule: wire_step_cases)
  case idle
  then have "wire_taken i = {#}"
    by (cases i) auto
  with idle show ?thesis by simp
next
  case (opened cid q hi)
  then show ?thesis
    by (simp add: wires_lent_alt link_infos_def endpoint_into_handler_def)
next
  case (closed cid l)
  let ?tasks = "concat (map (task_infos \<circ> snd)
    (filter (\<lambda>x. endpoint_task_link (snd x) = cid) (ew_tasks w)))"
  have links: "held_in link_infos (ew_links w) =
      held_in link_infos (drop_key cid (ew_links w)) + mset (link_infos l)"
    using held_in_drop [OF closed(1), of link_infos] by simp
  have tasks: "held_in task_infos (ew_tasks w) =
      held_in task_infos (filter (\<lambda>x. endpoint_task_link (snd x) \<noteq> cid) (ew_tasks w)) + mset ?tasks"
    using held_in_filter [of task_infos "\<lambda>x. endpoint_task_link (snd x) = cid" "ew_tasks w"] by simp
  have "sum_list (map wire_given os) = mset (link_infos l) + mset ?tasks"
    unfolding closed(3) wire_given_lost by simp
  then show ?thesis
    by (simp add: wires_lent_alt closed(2,4) links tasks ac_simps)
next
  case (notice q e)
  then show ?thesis
    by (simp add: wires_lent_alt)
next
  case (notify cid l e ns)
  have "wires_lent (put_handler cid l (fst (endpoint_on_behaviour_event e (ek_handler l))) w) =
      wires_lent w + {#notice_info e#}"
    using lent_put_handler [OF notify(2), of "fst (endpoint_on_behaviour_event e (ek_handler l))"]
    by (simp add: behaviour_event_infos ac_simps)
  with notify show ?thesis
    by (simp add: wires_lent_alt put_handler_def)
next
  case (lose q e ns)
  then show ?thesis
    by (simp add: wires_lent_alt)
next
  case (inbound cid k l)
  then show ?thesis
    by (simp add: lent_put_task_new)
next
  case (dial_await k e cid u info tr t t')
  then show ?thesis
    by (simp add: lent_put_task_same)
next
  case (listen_await k e cid u info tr t t')
  then show ?thesis
    by (simp add: lent_put_task_same)
next
  case (connect_await k e cid u tr t t')
  then show ?thesis
    by (simp add: lent_put_task_same)
next
  case (dialed k cid u info tr r l h es msg)
  moreover have "outcome_infos (outbound_outcome_event msg info r) = [info]"
    by (cases r) simp_all
  ultimately show ?thesis
    using lent_outcome [OF dialed(1-3)] by simp
next
  case (listened k cid u info tr r l h es msg)
  moreover have "outcome_infos (outbound_outcome_event msg info r) = [info]"
    by (cases r) simp_all
  ultimately show ?thesis
    using lent_outcome [OF listened(1-3)] by simp
next
  case (accepted k cid u tr r l h es msg)
  moreover have "outcome_infos (inbound_outcome_event msg r) = []"
    by (cases r) simp_all
  ultimately show ?thesis
    using lent_outcome [OF accepted(1-3)] by simp
next
  case (given_up k t l ce h es err)
  then show ?thesis
    using lent_outcome [OF given_up(1-4)] by simp
next
  case (custom cid k l e h es)
  have "wires_lent (put_handler cid l h w) + returned e = wires_lent w"
    using lent_put_handler [OF custom(1), of h] handler_poll_infos [OF custom(2)]
    by (simp add: mset_returned_infos ac_simps)
  with custom show ?thesis
    by (simp add: wires_lent_alt put_handler_def mset_returned_infos ac_simps)
next
  case (request cid k l u info h es)
  have "wires_lent (put_handler cid l h w) + {#info#} = wires_lent w"
    using lent_put_handler [OF request(1), of h] handler_poll_infos [OF request(3)]
    by (simp add: ac_simps)
  with request show ?thesis
    by (simp add: lent_put_task_new outbound_task_infos)
next
  case (take q cid e evs)
  then show ?thesis
    by (simp add: wires_lent_alt mset_returned_infos ac_simps)
qed

section \<open>No panic\<close>

text \<open>
  Every running upgrade is a run of what it was started with; an outbound one has the information of
  its own kind. Every handler knows the peer of its connection.
\<close>

fun endpoint_task_ok :: "lib \<Rightarrow> 'ss endpoint_task \<Rightarrow> bool" where
  "endpoint_task_ok L (OutDialTask cid u info tr t) \<longleftrightarrow>
     (\<exists>p a sender t'. u = OutDial p a \<and> info = InfoDial sender \<and>
        runs (endpoint_dial_upgrade L p a) tr t' \<and>
        t = bind_upg t' (\<lambda>r. Done (map_sum id (map_sum id Inl) r)))"
| "endpoint_task_ok L (OutListenTask cid u info tr t) \<longleftrightarrow>
     (\<exists>p a lid t'. u = OutListen p a \<and> info = InfoListen lid p a \<and>
        runs (endpoint_listen_upgrade L p a) tr t' \<and>
        t = bind_upg t' (\<lambda>r. Done (map_sum id (map_sum id Inr) r)))"
| "endpoint_task_ok L (InConnectTask cid u tr t) \<longleftrightarrow>
     ei_relay_peer_id u \<noteq> None \<and> runs (endpoint_upgrade_inbound L u) tr t"

definition endpoint_link_ok :: "'ss endpoint_link \<Rightarrow> bool" where
  "endpoint_link_ok l \<longleftrightarrow> eh_relay_peer_id (ek_handler l) = ek_peer l \<and>
     list_all paired (eh_pending_events (ek_handler l))"

definition endpoint_wired :: "lib \<Rightarrow> 'ss endpoint_wires \<Rightarrow> bool" where
  "endpoint_wired L w \<longleftrightarrow> list_all (endpoint_link_ok \<circ> snd) (ew_links w) \<and>
     list_all (endpoint_task_ok L \<circ> snd) (ew_tasks w)"

lemma list_all_update:
  "list_all (P \<circ> snd) xs \<Longrightarrow> P v \<Longrightarrow> list_all (P \<circ> snd) (AList.update k v xs)"
  by (induction xs) auto

lemma list_all_drop: "list_all (P \<circ> snd) xs \<Longrightarrow> list_all (P \<circ> snd) (drop_key k xs)"
  by (induction xs) auto

lemma list_all_lookup: "list_all (P \<circ> snd) xs \<Longrightarrow> map_of xs k = Some v \<Longrightarrow> P v"
  by (induction xs) (auto split: if_splits)

lemma wired_put_handler:
  "endpoint_wired L w \<Longrightarrow> endpoint_link_ok (l\<lparr>ek_handler := h\<rparr>) \<Longrightarrow> endpoint_wired L (put_handler cid l h w)"
  by (simp add: endpoint_wired_def put_handler_def list_all_update)

lemma wired_put_task:
  "endpoint_wired L w \<Longrightarrow> endpoint_task_ok L t \<Longrightarrow> endpoint_wired L (put_task k t w)"
  by (simp add: endpoint_wired_def put_task_def list_all_update)

lemma wired_drop_task: "endpoint_wired L w \<Longrightarrow> endpoint_wired L (drop_task k w)"
  by (simp add: endpoint_wired_def drop_task_def list_all_drop)

lemma wired_link: "endpoint_wired L w \<Longrightarrow> map_of (ew_links w) cid = Some l \<Longrightarrow> endpoint_link_ok l"
  unfolding endpoint_wired_def by (elim conjE) (erule list_all_lookup)

lemma wired_task: "endpoint_wired L w \<Longrightarrow> map_of (ew_tasks w) k = Some t \<Longrightarrow> endpoint_task_ok L t"
  unfolding endpoint_wired_def by (elim conjE) (erule list_all_lookup)

lemma connection_event_link:
  "endpoint_on_connection_event ce (ek_handler l) = Inr (h, es) \<Longrightarrow> endpoint_link_ok l \<Longrightarrow>
     endpoint_link_ok (l\<lparr>ek_handler := h\<rparr>)"
  by (cases ce) (auto simp: endpoint_link_ok_def eh_push_def split: sum.splits endpoint_open_info.splits)

lemma behaviour_event_link:
  "endpoint_link_ok l \<Longrightarrow> endpoint_link_ok (l\<lparr>ek_handler := fst (endpoint_on_behaviour_event e (ek_handler l))\<rparr>)"
  by (cases e) (auto simp: endpoint_link_ok_def eh_push_def new_dial_def new_listen_def)

lemma handler_poll_link:
  "endpoint_handler_poll (ek_handler l) = (h, es, r) \<Longrightarrow> endpoint_link_ok l \<Longrightarrow>
     endpoint_link_ok (l\<lparr>ek_handler := h\<rparr>) \<and> (\<forall>ev. r = Ready ev \<longrightarrow> paired ev)"
  by (auto simp: endpoint_handler_poll_def endpoint_link_ok_def new_connection_event_def split: list.splits)

lemma outbound_task_ok: "paired (OutboundSubstreamRequest u info) \<Longrightarrow> endpoint_task_ok L (outbound_task L cid u info)"
  by (cases u; cases info) (auto simp: outbound_task_def)

lemma endpoint_out_dial_step:
  "endpoint_task_ok L (OutDialTask cid u info tr t) \<Longrightarrow> resumes t e t' \<Longrightarrow>
     endpoint_task_ok L (OutDialTask cid u info (tr @ [e]) t')"
  by (auto simp: resumes_bind_Done; blast intro: runs_snoc)

lemma endpoint_out_listen_step:
  "endpoint_task_ok L (OutListenTask cid u info tr t) \<Longrightarrow> resumes t e t' \<Longrightarrow>
     endpoint_task_ok L (OutListenTask cid u info (tr @ [e]) t')"
  by (auto simp: resumes_bind_Done; blast intro: runs_snoc)

lemma endpoint_in_connect_step:
  "endpoint_task_ok L (InConnectTask cid u tr t) \<Longrightarrow> resumes t e t' \<Longrightarrow>
     endpoint_task_ok L (InConnectTask cid u (tr @ [e]) t')"
  by (auto intro: runs_snoc)

lemma list_all_filter: "list_all P xs \<Longrightarrow> list_all P (filter Q xs)"
  by (auto simp: list_all_iff)

text \<open>The two contracts at once: what was lent balances, and the wires stay wired.\<close>

interpretation wires_ledger: ledger "wire_step L" "endpoint_wired L" wire_taken wires_lent wire_given
  for L
proof unfold_locales
  fix w w' :: "'ss endpoint_wires" and i os
  assume inv: "endpoint_wired L w" and st: "wire_step L i w = Inr (w', os)"
  show "wires_lent w + wire_taken i = wires_lent w' + sum_list (map wire_given os)"
    by (rule wire_step_balance [OF st])
  note link = wired_link [OF inv] and task = wired_task [OF inv]
  from st show "endpoint_wired L w'"
  proof (cases rule: wire_step_cases)
    case (opened cid q hi)
    with inv show ?thesis
      by (simp add: endpoint_wired_def endpoint_link_ok_def endpoint_into_handler_def)
  next
    case (closed cid l)
    with inv show ?thesis
      by (simp add: endpoint_wired_def list_all_drop list_all_filter)
  next
    case (notify cid l e ns)
    have "endpoint_wired L (put_handler cid l (fst (endpoint_on_behaviour_event e (ek_handler l))) w)"
      by (rule wired_put_handler [OF inv behaviour_event_link [OF link [OF notify(2)]]])
    with notify show ?thesis
      by (simp add: endpoint_wired_def)
  next
    case (inbound cid k l)
    with inv show ?thesis
      by (simp add: wired_put_task runs_stop endpoint_listen_protocol_def endpoint_inbound_new_def)
  next
    case (dial_await k e cid u info tr t t')
    from endpoint_out_dial_step [OF task [OF dial_await(1)] dial_await(2)] inv dial_await(3) show ?thesis
      by (simp add: wired_put_task del: endpoint_task_ok.simps)
  next
    case (listen_await k e cid u info tr t t')
    from endpoint_out_listen_step [OF task [OF listen_await(1)] listen_await(2)] inv listen_await(3)
    show ?thesis
      by (simp add: wired_put_task del: endpoint_task_ok.simps)
  next
    case (connect_await k e cid u tr t t')
    from endpoint_in_connect_step [OF task [OF connect_await(1)] connect_await(2)] inv connect_await(3)
    show ?thesis
      by (simp add: wired_put_task del: endpoint_task_ok.simps)
  next
    case (dialed k cid u info tr r l h es msg)
    with inv connection_event_link [OF dialed(3) link [OF dialed(2)]] show ?thesis
      by (simp add: wired_put_handler wired_drop_task)
  next
    case (listened k cid u info tr r l h es msg)
    with inv connection_event_link [OF listened(3) link [OF listened(2)]] show ?thesis
      by (simp add: wired_put_handler wired_drop_task)
  next
    case (accepted k cid u tr r l h es msg)
    with inv connection_event_link [OF accepted(3) link [OF accepted(2)]] show ?thesis
      by (simp add: wired_put_handler wired_drop_task)
  next
    case (given_up k t l ce h es err)
    with inv connection_event_link [OF given_up(3) link [OF given_up(2)]] show ?thesis
      by (simp add: wired_put_handler wired_drop_task)
  next
    case (custom cid k l e h es)
    with handler_poll_link [OF custom(2) link [OF custom(1)]]
    have "endpoint_wired L (put_handler cid l h w)"
      by (simp add: wired_put_handler [OF inv])
    with custom show ?thesis
      by (simp add: endpoint_wired_def)
  next
    case (request cid k l u info h es)
    note polled = handler_poll_link [OF request(3) link [OF request(1)]]
    then have "endpoint_wired L (put_handler cid l h w)"
      by (simp add: wired_put_handler [OF inv])
    moreover from polled have "endpoint_task_ok L (outbound_task L cid u info)"
      by (intro outbound_task_ok) blast
    ultimately show ?thesis
      unfolding request(4) by (rule wired_put_task)
  qed (use inv in \<open>auto simp: endpoint_wired_def\<close>)
qed

lemma endpoint_wired_new: "endpoint_wired L endpoint_wires_new"
  by (simp add: endpoint_wired_def endpoint_wires_new_def)

lemma dial_task_done:
  assumes "endpoint_task_ok L (OutDialTask cid u info tr (Done r))"
  obtains p a sender r' where "u = OutDial p a" "info = InfoDial sender"
    "completes (endpoint_dial_upgrade L p a) tr (Inr r')" "r = Inr (map_sum id Inl r')"
proof -
  from assms obtain p a sender r' where u: "u = OutDial p a" "info = InfoDial sender"
    and c: "completes (endpoint_dial_upgrade L p a) tr r'" and r: "r = map_sum id (map_sum id Inl) r'"
    by (auto simp: Done_is_bind_upg)
  from c have "\<exists>x. r' = Inr x"
    by (auto simp: endpoint_dial_upgrade_def completes_simps)
  with u c r that show ?thesis by auto
qed

lemma listen_task_done:
  assumes "endpoint_task_ok L (OutListenTask cid u info tr (Done r))"
  obtains p a lid r' where "u = OutListen p a" "info = InfoListen lid p a"
    "completes (endpoint_listen_upgrade L p a) tr (Inr r')" "r = Inr (map_sum id Inr r')"
proof -
  from assms obtain p a lid r' where u: "u = OutListen p a" "info = InfoListen lid p a"
    and c: "completes (endpoint_listen_upgrade L p a) tr r'" and r: "r = map_sum id (map_sum id Inr) r'"
    by (auto simp: Done_is_bind_upg)
  from c have "\<exists>x. r' = Inr x"
    by (auto simp: endpoint_listen_upgrade_def completes_simps)
  with u c r that show ?thesis by auto
qed

lemma connect_task_done:
  assumes "endpoint_task_ok L (InConnectTask cid u tr (Done r))"
  obtains r' where "r = Inr r'"
proof -
  from assms have c: "completes (endpoint_upgrade_inbound L u) tr r" and "ei_relay_peer_id u \<noteq> None"
    by simp_all
  from this(2) obtain relay where "ei_relay_peer_id u = Some relay"
    by blast
  with c have "\<exists>r'. r = Inr r'"
    by (auto simp: endpoint_inbound_simps)
  with that show ?thesis by blast
qed

text \<open>What the swarm reports about a finished upgrade is always accepted.\<close>

lemma dial_outcome_accepted:
  "\<exists>h' es. endpoint_on_connection_event (outbound_outcome_event msg (InfoDial sender) (map_sum id Inl r)) h
     = Inr (h', es)"
  by (cases r) simp_all

lemma listen_outcome_accepted:
  "\<exists>h' es. endpoint_on_connection_event (outbound_outcome_event msg (InfoListen lid p a) (map_sum id Inr r)) h
     = Inr (h', es)"
  by (cases r) simp_all

lemma inbound_outcome_accepted:
  "\<exists>h' es. endpoint_on_connection_event (inbound_outcome_event msg r) h = Inr (h', es)"
  by (cases r) simp_all

lemma error_outcome_accepted:
  "\<exists>h' es. endpoint_on_connection_event (DialUpgradeError info err) h = Inr (h', es)"
  "\<exists>h' es. endpoint_on_connection_event (ListenUpgradeError err) h = Inr (h', es)"
  by (cases info) simp_all

lemma report_outcome_returns:
  "\<exists>h' es. endpoint_on_connection_event ce (ek_handler l) = Inr (h', es) \<Longrightarrow>
     report_outcome cid l ce os w \<noteq> Inl p"
  by (auto simp: report_outcome_def)

lemma endpoint_finish_returns:
  assumes "endpoint_task_ok L t"
  shows "endpoint_finish msg k t l w \<noteq> Inl p"
proof (cases t)
  case (OutDialTask cid u info tr r)
  show ?thesis
  proof (cases r)
    case (Done x)
    from assms obtain sender r' where "info = InfoDial sender" "x = Inr (map_sum id Inl r')"
      unfolding OutDialTask Done by (rule dial_task_done)
    then show ?thesis
      unfolding OutDialTask Done
      by (simp add: endpoint_finish_def report_outcome_returns [OF dial_outcome_accepted])
  qed (simp_all add: OutDialTask endpoint_finish_def)
next
  case (OutListenTask cid u info tr r)
  show ?thesis
  proof (cases r)
    case (Done x)
    from assms obtain q a lid r' where "info = InfoListen lid q a" "x = Inr (map_sum id Inr r')"
      unfolding OutListenTask Done by (rule listen_task_done)
    then show ?thesis
      unfolding OutListenTask Done
      by (simp add: endpoint_finish_def report_outcome_returns [OF listen_outcome_accepted])
  qed (simp_all add: OutListenTask endpoint_finish_def)
next
  case (InConnectTask cid u tr r)
  show ?thesis
  proof (cases r)
    case (Done x)
    from assms obtain r' where "x = Inr r'"
      unfolding InConnectTask Done by (rule connect_task_done)
    then show ?thesis
      unfolding InConnectTask Done
      by (simp add: endpoint_finish_def report_outcome_returns [OF inbound_outcome_accepted])
  qed (simp_all add: InConnectTask endpoint_finish_def)
qed

lemma endpoint_give_up_returns: "endpoint_give_up err k t l w \<noteq> Inl p"
  unfolding endpoint_give_up_def
  by (rule report_outcome_returns) (cases t; simp add: error_outcome_accepted del: endpoint_on_connection_event.simps)

lemma wire_step_total:
  assumes "endpoint_wired L w"
  shows "\<exists>w' os. wire_step L i w = Inr (w', os) \<and> endpoint_wired L w'"
proof -
  have "wire_step L i w \<noteq> Inl p" for p
  proof (cases i)
    case (WiFinish k msg)
    then show ?thesis
      using endpoint_finish_returns [OF wired_task [OF assms]]
      by (auto simp: endpoint_task_at_Some split: option.splits)
  next
    case (WiGiveUp k err)
    then show ?thesis
      by (auto simp: endpoint_give_up_returns split: option.splits)
  next
    case (WiHandlerPoll cid k)
    then show ?thesis
      by (auto split: option.splits prod.splits poll.splits handler_event.splits)
  qed (auto split: option.splits list.splits endpoint_task.splits)
  then obtain w' os where "wire_step L i w = Inr (w', os)"
    by (metis old.sum.exhaust surj_pair)
  with wires_ledger.inv_step [OF assms] show ?thesis by blast
qed

text \<open>
  C12: No sequence of steps of the endpoint's handlers and upgrades panics, whatever the relay, the
  swarm, the runtime and the behaviour do: an upgrade's outcome is always one that the handler
  expects for the information it kept with it, so its \<open>unreachable!\<close> is never reached, and an
  inbound upgrade always knows the peer of its connection.
\<close>

theorem endpoint_wires_never_panic:
  "\<exists>w os. run (wire_step L) is endpoint_wires_new = Inr (w, os)"
  using run_no_panic [of "is" "endpoint_wired L" "wire_step L"] wire_step_total endpoint_wired_new
  by blast

end
