(* ===== verification/Endpoint_Bounds.thy ===== *)
theory Endpoint_Bounds
  imports Endpoint_System
begin

text \<open>
  The two channels of the composed endpoint hold at most their capacity, and what the polls of the
  two components take from them and put into them.
\<close>

section \<open>The channels keep to their capacity\<close>

lemma send_pending_bounded:
  "endpoint_send_pending (bounded_ops cap) q evs = Inr (q', evs') \<Longrightarrow> length q \<le> cap \<Longrightarrow>
     length q' \<le> cap"
  by (induction evs arbitrary: q) (auto simp: bounded_ops_def split: if_splits)

lemma flush_queue_bounded:
  "flush_queue (bounded_ops cap) q evs = FlushGoOn q' evs' \<Longrightarrow> length q \<le> cap \<Longrightarrow> length q' \<le> cap"
  by (induction "bounded_ops cap :: (behaviour_to_transport_event list, behaviour_to_transport_event) sender_ops"
        q evs rule: flush_queue.induct)
     (auto simp: bounded_ops_def split: if_splits)

definition reports_bounded ::
  "nat \<Rightarrow> ('ss, 'ls, behaviour_to_transport_event list) endpoint_behaviour \<Rightarrow> bool" where
  "reports_bounded cap b \<longleftrightarrow> (\<forall>p q. map_of (eb_to_transports b) p = Some q \<longrightarrow> length q \<le> cap)"

lemma reports_bounded_frame:
  "eb_to_transports b' = eb_to_transports b \<Longrightarrow> reports_bounded cap b' = reports_bounded cap b"
  by (simp add: reports_bounded_def)

lemma flush_transports_bounded:
  "flush_transports L (bounded_ops cap) entries b = Inr (b', act) \<Longrightarrow> reports_bounded cap b \<Longrightarrow>
     reports_bounded cap b'"
proof (induction entries arbitrary: b)
  case Nil
  then show ?case by simp
next
  case (Cons entry entries)
  obtain relay queue where entry: "entry = (relay, queue)"
    by fastforce
  from Cons.prems entry obtain tx where tx: "map_of (eb_to_transports b) relay = Some tx"
    by (auto split: option.splits)
  from live_flush_queue [OF bounded_ops_live] obtain tx' q' where
    q: "flush_queue (bounded_ops cap) tx queue = FlushGoOn tx' q'"
    by blast
  let ?b = "b\<lparr>eb_to_transports := AList.update relay tx' (eb_to_transports b),
    eb_pending_to_transport := AList.update relay q' (eb_pending_to_transport b)\<rparr>"
  from flush_queue_bounded [OF q] Cons.prems(2) tx have "reports_bounded cap ?b"
    by (simp add: reports_bounded_def AList.update_conv')
  with Cons.IH [of ?b] Cons.prems(1) entry tx q show ?case by simp
qed

lemma endpoint_step_bounded:
  assumes "endpoint_step L lops (bounded_ops cap) i b = Inr (b', os)" and "reports_bounded cap b"
  shows "reports_bounded cap b'"
proof (cases i)
  case (EbPoll recv)
  with assms(1) obtain es r where "endpoint_poll L lops (bounded_ops cap) recv b = Inr (b', es, r)"
    by (auto split: sum.splits prod.splits)
  then show ?thesis
  proof (cases rule: endpoint_poll_cases)
    case (dial a)
    with endpoint_next_event_frame [OF dial(1)] assms(2) reports_bounded_frame [of b' b]
    show ?thesis by simp
  next
    case (dispatch event s1 a)
    with endpoint_next_event_frame [OF dispatch(1)] endpoint_dispatch_frame [OF dispatch(2)]
      assms(2) reports_bounded_frame [of b' b]
    show ?thesis by simp
  next
    case (offer s1 a)
    with endpoint_next_event_frame [OF offer(1)] endpoint_new_connections_frame [OF offer(2)]
      assms(2) reports_bounded_frame [of b' b]
    show ?thesis by simp
  next
    case (flush s1 s2 a)
    with endpoint_next_event_frame [OF flush(1)] endpoint_new_connections_frame [OF flush(2)]
      assms(2) reports_bounded_frame [of s2 b] flush_transports_bounded [OF flush(3)]
    show ?thesis by simp
  next
    case (actions s1 s2 s3)
    then have "eb_to_transports b' = eb_to_transports s3"
      by (auto simp: endpoint_poll_actions_def split: list.splits)
    with endpoint_next_event_frame [OF actions(1)] endpoint_new_connections_frame [OF actions(2)]
      assms(2) reports_bounded_frame [of s2 b] reports_bounded_frame [of b' s3]
      flush_transports_bounded [OF actions(3)]
    show ?thesis by simp
  qed
next
  case (EbHandler p c e)
  with assms obtain es where "endpoint_on_handler_event e b = (b', es)"
    by (auto split: prod.splits)
  from endpoint_on_handler_event_frame [OF this] assms(2) reports_bounded_frame [of b' b]
  show ?thesis by simp
next
  case (EbSwarm e)
  with assms obtain es where "endpoint_on_swarm_event L e b = (b', es)"
    by (auto split: prod.splits)
  from endpoint_on_swarm_event_keys [OF this] assms(2) reports_bounded_frame [of b' b]
  show ?thesis by simp
qed

text \<open>A poll of the transport takes reports off the front of the channel.\<close>

lemma transport_poll_drops:
  fixes t :: "('ls, 'lr, 'ts, behaviour_to_transport_event list) endpoint_transport"
    and lrops :: "('lr, io_error + 'ss connection) receiver_ops"
  assumes "endpoint_transport_poll list_receiver tops lrops t = Some (Inr (t', ev))"
  shows "\<exists>n. et_from_behaviour t' = drop n (et_from_behaviour t)"
proof -
  have spec: "drains_to (\<lambda>q. q) t (endpoint_drain list_receiver t :: ('ls, 'lr, _, _, 'ss) drained)"
    by (rule endpoint_drain_spec [OF list_receiver_fifo list_receiver_live])
  then obtain t1 dr where
    d: "endpoint_drain list_receiver t = (Some (Inr (t1, dr)) :: ('ls, 'lr, _, _, 'ss) drained)"
    by (auto simp: drains_to_def split: list.splits)
  have "suffix (et_from_behaviour t1) (et_from_behaviour t)"
  proof (cases "dropWhile ignored_report (et_from_behaviour t)")
    case Nil
    with spec d show ?thesis
      by (auto simp: drains_to_def)
  next
    case (Cons e es)
    then have "suffix es (et_from_behaviour t)"
      by (metis suffix_ConsD suffix_dropWhile)
    with Cons spec d show ?thesis
      by (auto simp: drains_to_def split: behaviour_to_transport_event.splits)
  qed
  moreover have "et_from_behaviour t' = et_from_behaviour t1"
    using assms d
    by (cases dr)
       (auto simp: endpoint_transport_poll_def split: sum.splits prod.splits poll.splits
         dest!: endpoint_poll_listener_fields)
  ultimately show ?thesis
    by (metis append_eq_conv_conj suffix_def)
qed

lemma transport_poll_bounded:
  fixes t :: "('ls, 'lr, 'ls transport_to_behaviour_event list, behaviour_to_transport_event list)
      endpoint_transport" and lrops :: "('lr, io_error + 'ss connection) receiver_ops"
  assumes "endpoint_transport_poll list_receiver (bounded_ops cap) lrops t = Some (Inr (t', ev))"
    and "length (et_to_behaviour t) \<le> cap"
  shows "length (et_to_behaviour t') \<le> cap"
proof -
  from endpoint_drain_frame [OF list_receiver_fifo list_receiver_live] obtain t1 dr where
    d: "endpoint_drain list_receiver t =
      (Some (Inr (t1, dr)) :: ('ls, 'lr, _, _, 'ss) drained)"
    and t1: "et_to_behaviour t1 = et_to_behaviour t"
    by blast
  show ?thesis
  proof (cases dr)
    case (Some e)
    with assms d t1 show ?thesis
      by (auto simp: endpoint_transport_poll_def)
  next
    case None
    with assms(1) d obtain tx evs x tx' where
      s: "endpoint_send_pending (bounded_ops cap) (et_to_behaviour t1) (et_pending_to_behaviour t1) = Inr (tx, evs)"
      and f: "tx_poll_flush (bounded_ops cap) tx = (x, tx')"
      and l: "endpoint_poll_listener lrops
        (t1\<lparr>et_to_behaviour := tx', et_pending_to_behaviour := evs\<rparr>) = (t', ev)"
      by (auto simp: endpoint_transport_poll_def split: sum.splits prod.splits poll.splits)
    have "tx' = tx"
      using f by (simp add: bounded_ops_def)
    with send_pending_bounded [OF s] endpoint_poll_listener_fields [OF l] assms(2) t1
    show ?thesis by auto
  qed
qed

definition system_bounded :: "nat \<Rightarrow> ('ss, 'ls, 'lr) endpoint_system \<Rightarrow> bool" where
  "system_bounded cap s \<longleftrightarrow> length (et_to_behaviour (es_transport s)) \<le> cap \<and>
     reports_bounded cap (es_behaviour s)"

lemma set_reports_bounded:
  "reports_bounded cap b \<Longrightarrow> length q \<le> cap \<Longrightarrow> reports_bounded cap (set_reports relay q b)"
  by (simp add: reports_bounded_def set_reports_def AList.update_conv')

lemma transport_call_channel:
  assumes "transport_step L list_receiver (bounded_ops cap) lrops t i t'" and "i \<noteq> TiPoll"
  shows "et_to_behaviour t' = et_to_behaviour t"
  using assms(1)
proof (cases rule: transport_step.cases)
  case (listen_on conn_sender conn_receiver lid a es r)
  then show ?thesis
    by (auto simp: endpoint_listen_on_def split: option.splits)
next
  case (remove_listener lid b)
  then show ?thesis
    by (auto simp: endpoint_remove_listener_def split: if_splits)
next
  case (dial conn a es r)
  then show ?thesis
    by (auto simp: endpoint_dial_def split: option.splits)
next
  case (dial_as_listener a r)
  then show ?thesis
    by (auto simp: endpoint_dial_as_listener_def)
next
  case (poll ev)
  with assms(2) show ?thesis by simp
qed

lemma system_step_bounded:
  assumes "system_step L cap lops lrops s i s' os" and bounded: "system_bounded cap s"
  shows "system_bounded cap s'"
  using assms(1)
proof (cases rule: system_step.cases)
  case (call i' t')
  with transport_call_channel [OF call(5,4)] bounded show ?thesis
    by (simp add: system_bounded_def)
next
  case (transport_poll relay q t' ev)
  from bounded transport_poll(5) have "length q \<le> cap"
    by (simp add: system_bounded_def reports_bounded_def)
  moreover have "length (et_to_behaviour ((es_transport s)\<lparr>et_from_behaviour := q\<rparr>)) \<le> cap"
    using bounded by (simp add: system_bounded_def)
  from transport_poll_bounded [OF transport_poll(6) this] transport_poll_drops [OF transport_poll(6)]
  obtain n where "length (et_to_behaviour t') \<le> cap" and "et_from_behaviour t' = drop n q"
    by auto
  ultimately show ?thesis
    using transport_poll bounded
    by (simp add: system_bounded_def set_reports_bounded le_diff_conv trans_le_add1)
next
  case (poll recv q b' os')
  have "length q \<le> length (et_to_behaviour (es_transport s))"
    using poll(4) by (auto simp: list_receiver_def split: list.splits)
  with poll endpoint_step_bounded [OF poll(5)] bounded show ?thesis
    by (simp add: system_bounded_def)
next
  case (handler e p c b' os')
  with endpoint_step_bounded [OF handler(5)] bounded show ?thesis
    by (simp add: system_bounded_def)
next
  case (swarm e b' os')
  with endpoint_step_bounded [OF swarm(4)] bounded show ?thesis
    by (simp add: system_bounded_def)
next
  case (lose info)
  with bounded show ?thesis
    by (simp add: system_bounded_def)
qed

lemma system_run_bounded:
  "system_run L cap lops lrops s is s' os \<Longrightarrow> system_bounded cap s \<Longrightarrow> system_bounded cap s'"
  by (induction rule: system_run.induct) (auto dest: system_step_bounded)

lemma system_bounded_new: "system_bounded cap (endpoint_system_new me relay_addr relay)"
  by (simp add: system_bounded_def reports_bounded_def) (simp add: endpoint_behaviour_new_def)

section \<open>The bound is the senders' doing\<close>

text \<open>
  A channel that tells when there is room, but takes whatever is sent: over it nothing but the
  sender's own question before each send keeps the messages to \<open>cap\<close>. The two senders ask, so to
  them it is the same as \<open>bounded_ops cap\<close>.
\<close>

definition eager_ops :: "nat \<Rightarrow> ('m list, 'm) sender_ops" where
  "eager_ops cap = \<lparr>
     tx_poll_ready = (\<lambda>q. (if length q < cap then Ready (Inr ()) else Pending, q)),
     tx_start_send = (\<lambda>q m. (Inr (), q @ [m])),
     tx_poll_flush = (\<lambda>q. (if length q < cap then Ready (Inr ()) else Pending, q))\<rparr>"

lemma eager_flush: "tx_poll_flush (eager_ops cap) = tx_poll_flush (bounded_ops cap)"
  by (simp add: eager_ops_def bounded_ops_def)

lemma eager_send_pending:
  "endpoint_send_pending (eager_ops cap) q evs = endpoint_send_pending (bounded_ops cap) q evs"
  by (induction evs arbitrary: q) (simp_all add: eager_ops_def bounded_ops_def)

lemma eager_flush_queue: "flush_queue (eager_ops cap) q evs = flush_queue (bounded_ops cap) q evs"
  by (induction evs arbitrary: q) (simp_all add: eager_ops_def bounded_ops_def)

lemma eager_flush_transports:
  "flush_transports L (eager_ops cap) entries b = flush_transports L (bounded_ops cap) entries b"
proof (induction entries arbitrary: b)
  case (Cons entry entries)
  then show ?case
    by (cases entry) (simp add: eager_flush_queue split: option.split flushed.split)
qed simp

lemma eager_transport_poll:
  "endpoint_transport_poll rops (eager_ops cap) lrops t = endpoint_transport_poll rops (bounded_ops cap) lrops t"
  unfolding endpoint_transport_poll_def eager_send_pending eager_flush ..

lemma eager_endpoint_poll:
  "endpoint_poll L lops (eager_ops cap) recv b = endpoint_poll L lops (bounded_ops cap) recv b"
  unfolding endpoint_poll_def eager_flush_transports ..

lemma endpoint_poll_bounded:
  assumes "endpoint_poll L lops (bounded_ops cap) recv b = Inr (b', es, r)" and "reports_bounded cap b"
  shows "reports_bounded cap b'"
  using endpoint_step_bounded [of L lops cap "EbPoll recv" b b'] assms by simp

text \<open>
  C31: Neither channel ever holds more than its capacity, in any interleaving, and that is because
  both sides ask for room before they send, and keep what does not fit in their own queue: whatever
  state has been reached, a poll of the transport and a poll of the behaviour keep to the capacity
  even over channels that never refuse a message (\<open>eager_ops\<close>).
\<close>

theorem system_channels_bounded:
  assumes "system_run L cap lops lrops (endpoint_system_new me relay_addr relay) is s os"
    and "map_of (eb_to_transports (es_behaviour s)) relay = Some q"
  shows "length (et_to_behaviour (es_transport s)) \<le> cap \<and> length q \<le> cap \<and>
     (\<forall>t' ev. endpoint_transport_poll list_receiver (eager_ops cap) lrops
          ((es_transport s)\<lparr>et_from_behaviour := q\<rparr>) = Some (Inr (t', ev)) \<longrightarrow>
        length (et_to_behaviour t') \<le> cap) \<and>
     (\<forall>recv b' es r q'. endpoint_poll L lops (eager_ops cap) recv (es_behaviour s) = Inr (b', es, r) \<and>
        map_of (eb_to_transports b') relay = Some q' \<longrightarrow> length q' \<le> cap)"
proof -
  have "system_bounded cap s"
    by (rule system_run_bounded [OF assms(1) system_bounded_new])
  then have chan: "length (et_to_behaviour (es_transport s)) \<le> cap" and b: "reports_bounded cap (es_behaviour s)"
    by (simp_all add: system_bounded_def)
  have "length q \<le> cap"
    using b assms(2) by (simp add: reports_bounded_def)
  moreover have "length q' \<le> cap"
    if "endpoint_poll L lops (bounded_ops cap) recv (es_behaviour s) = Inr (b', es, r)"
      "map_of (eb_to_transports b') relay = Some q'" for recv b' es r q'
    using endpoint_poll_bounded [OF that(1) b] that(2) by (simp add: reports_bounded_def)
  moreover have "length (et_to_behaviour t') \<le> cap"
    if "endpoint_transport_poll list_receiver (bounded_ops cap) lrops
      ((es_transport s)\<lparr>et_from_behaviour := q\<rparr>) = Some (Inr (t', ev))" for t' ev
    using transport_poll_bounded [OF that] chan by simp
  ultimately show ?thesis
    using chan unfolding eager_transport_poll eager_endpoint_poll by blast
qed

theorem system_channels_bounded_witness:
  "\<exists>s os. system_run raw_lib 1 open_ops list_receiver
      (endpoint_system_new (PeerId [1]) (Multiaddr [9]) (PeerId [9]))
      [SyCall (TiListenOn [] [] (ListenerId 1) (Multiaddr [1])), SyCall TiPoll]
      (s :: (bytes, example_channel, example_channel) endpoint_system) os \<and>
     et_to_behaviour (es_transport s) = [example_listen] \<and>
     length (et_to_behaviour (es_transport s)) \<le> 1"
proof -
  let ?s = "example_system [] [example_listen] example_behaviour {#}"
  have r: "system_run raw_lib 1 open_ops list_receiver
      (endpoint_system_new (PeerId [1]) (Multiaddr [9]) (PeerId [9]))
      [SyCall (TiListenOn [] [] (ListenerId 1) (Multiaddr [1])), SyCall TiPoll] ?s ([] @ [] @ [])"
    by (rule system_more [OF example_step1 system_more [OF example_step2 system_stop]])
  have "map_of (eb_to_transports (es_behaviour ?s)) (PeerId [9]) = Some []"
    by (simp add: example_system_def endpoint_behaviour_new_def)
  from system_channels_bounded [OF r this] have "length (et_to_behaviour (es_transport ?s)) \<le> 1"
    by blast
  moreover have "et_to_behaviour (es_transport ?s) = [example_listen]"
    by (simp add: example_system_def)
  ultimately show ?thesis
    using r by blast
qed

end
