(* ===== verification/Endpoint_Node.thy ===== *)
theory Endpoint_Node
  imports Endpoint_Wires Endpoint_Bounds
begin

text \<open>
  The whole endpoint: the transport and the behaviour of \<open>Endpoint_System\<close> with the handlers and
  upgrades of \<open>Endpoint_Wires\<close>. What was the environment of the first two is now code: the
  handlers get the events that the behaviour emits, and the behaviour gets the events that the
  handlers report. What is left outside are the application, the swarm and the remote peers.

  \<open>node_system\<close> forgets the handlers but for what is lent to them; every run of the endpoint is a run
  of \<open>Endpoint_System\<close> through it, so what holds there holds here.
\<close>

section \<open>State and steps\<close>

record ('ss, 'ls, 'lr) endpoint_node =
  en_transport :: "('ls, 'lr, 'ls transport_to_behaviour_event list,
    behaviour_to_transport_event list) endpoint_transport"
  en_behaviour :: "('ss, 'ls, behaviour_to_transport_event list) endpoint_behaviour"
  en_wires :: "'ss endpoint_wires"

definition endpoint_node_new ::
  "peer_id \<Rightarrow> multiaddr \<Rightarrow> peer_id \<Rightarrow> ('ss, 'ls, 'lr) endpoint_node" where
  "endpoint_node_new local_peer_id relay_addr relay_peer_id =
     (case endpoint_transport_new local_peer_id relay_addr relay_peer_id [] [] [] of
        (t, b) \<Rightarrow> \<lparr>en_transport = t, en_behaviour = b, en_wires = endpoint_wires_new\<rparr>)"

definition node_system :: "('ss, 'ls, 'lr) endpoint_node \<Rightarrow> ('ss, 'ls, 'lr) endpoint_system" where
  "node_system n = \<lparr>es_transport = en_transport n, es_behaviour = en_behaviour n,
     es_lent = wires_lent (en_wires n)\<rparr>"

text \<open>What the application and the swarm do to the transport and the behaviour; a connection that the
  swarm opens, with the handler the behaviour makes for it; a handler's event that the behaviour
  takes; and what happens among handlers and upgrades.\<close>

datatype ('ss, 'ls, 'lr) node_input =
    NiSystem "('ss, 'ls, 'lr) system_input"
  | NiOpen connection_id peer_id
  | NiDeliver
  | NiWire "'ss wire_input"

datatype 'ss node_output =
    NoSystem "'ss system_output"
  | NoDelivered peer_id connection_id "'ss endpoint_out_event"
  | NoWire "'ss wire_output"

fun from_outside :: "('ss, 'ls, 'lr) system_input \<Rightarrow> bool" where
  "from_outside (SyCall i) \<longleftrightarrow> True"
| "from_outside SyPoll \<longleftrightarrow> True"
| "from_outside (SySwarm e) \<longleftrightarrow> True"
| "from_outside (SyHandler p c e) \<longleftrightarrow> False"
| "from_outside (SyLose info) \<longleftrightarrow> False"

fun among_wires :: "'ss wire_input \<Rightarrow> bool" where
  "among_wires (WiOpen cid p hi) \<longleftrightarrow> False"
| "among_wires (WiNotice p e) \<longleftrightarrow> False"
| "among_wires WiTake \<longleftrightarrow> False"
| "among_wires i \<longleftrightarrow> True"

fun notice_of :: "'ss system_output \<Rightarrow> (peer_id \<times> endpoint_in_event) list" where
  "notice_of (OutBehaviour (Emit (NotifyHandler p e))) = [(p, e)]"
| "notice_of ob = []"

definition add_notices :: "'ss system_output list \<Rightarrow> 'ss endpoint_wires \<Rightarrow> 'ss endpoint_wires" where
  "add_notices os w = w\<lparr>ew_notices := ew_notices w @ concat (map notice_of os)\<rparr>"

inductive node_step ::
  "lib \<Rightarrow> nat \<Rightarrow> ('ls, io_error + 'ss connection) sender_ops \<Rightarrow>
     ('lr, io_error + 'ss connection) receiver_ops \<Rightarrow> ('ss, 'ls, 'lr) endpoint_node \<Rightarrow>
     ('ss, 'ls, 'lr) node_input \<Rightarrow> ('ss, 'ls, 'lr) endpoint_node \<Rightarrow> 'ss node_output list \<Rightarrow> bool"
  for L cap lops lrops where
  outside: "from_outside i \<Longrightarrow> system_step L cap lops lrops (node_system n) i s os \<Longrightarrow>
     node_step L cap lops lrops n (NiSystem i)
       \<lparr>en_transport = es_transport s, en_behaviour = es_behaviour s,
        en_wires = add_notices os (en_wires n)\<rparr> (map NoSystem os)"
| opens: "wire_step L (WiOpen cid p (endpoint_new_handler (en_behaviour n))) (en_wires n) = Inr (w, os) \<Longrightarrow>
     node_step L cap lops lrops n (NiOpen cid p) (n\<lparr>en_wires := w\<rparr>) (map NoWire os)"
| deliver: "wire_step L WiTake (en_wires n) = Inr (w, [WoEvent p cid e]) \<Longrightarrow>
     endpoint_step L lops (bounded_ops cap) (EbHandler p cid e) (en_behaviour n) = Inr (b, os) \<Longrightarrow>
     node_step L cap lops lrops n NiDeliver (n\<lparr>en_behaviour := b, en_wires := w\<rparr>)
       (NoDelivered p cid e # map (NoSystem \<circ> OutBehaviour) os)"
| wires: "among_wires i \<Longrightarrow> wire_step L i (en_wires n) = Inr (w, os) \<Longrightarrow>
     node_step L cap lops lrops n (NiWire i) (n\<lparr>en_wires := w\<rparr>) (map NoWire os)"

inductive node_run ::
  "lib \<Rightarrow> nat \<Rightarrow> ('ls, io_error + 'ss connection) sender_ops \<Rightarrow>
     ('lr, io_error + 'ss connection) receiver_ops \<Rightarrow> ('ss, 'ls, 'lr) endpoint_node \<Rightarrow>
     ('ss, 'ls, 'lr) node_input list \<Rightarrow> ('ss, 'ls, 'lr) endpoint_node \<Rightarrow> 'ss node_output list \<Rightarrow> bool"
  for L cap lops lrops where
  node_stop: "node_run L cap lops lrops n [] n []"
| node_more: "node_run L cap lops lrops n is n1 os1 \<Longrightarrow> node_step L cap lops lrops n1 i n2 os2 \<Longrightarrow>
     node_run L cap lops lrops n (is @ [i]) n2 (os1 @ os2)"

lemma endpoint_node_new_simps [simp]:
  "node_system (endpoint_node_new me relay_addr relay) = endpoint_system_new me relay_addr relay"
  "en_wires (endpoint_node_new me relay_addr relay) = endpoint_wires_new"
  "eb_peer_id (en_behaviour (endpoint_node_new me relay_addr relay)) = me"
  by (simp_all add: endpoint_node_new_def node_system_def endpoint_system_new_def endpoint_transport_new_def
      wires_lent_def endpoint_wires_new_def endpoint_behaviour_new_def)

section \<open>Every run is a run of the transport and the behaviour\<close>

text \<open>What a step looks like without the handlers.\<close>

fun system_view :: "'ss node_output \<Rightarrow> 'ss system_output list" where
  "system_view (NoSystem ob) = [ob]"
| "system_view (NoDelivered p cid e) = []"
| "system_view (NoWire (WoLost info)) = map (OutBehaviour \<circ> Effect) (lose info)"
| "system_view (NoWire ob) = []"

fun outside_view :: "('ss, 'ls, 'lr) node_input \<Rightarrow> ('ss, 'ls, 'lr) system_input list" where
  "outside_view (NiSystem i) = [i]"
| "outside_view i = []"

text \<open>Losing what was lent, one after the other.\<close>

lemma system_loses:
  "mset infos \<subseteq># es_lent s \<Longrightarrow>
     system_run L cap lops lrops s (map SyLose infos) (s\<lparr>es_lent := es_lent s - mset infos\<rparr>)
       (concat (map (map (OutBehaviour \<circ> Effect) \<circ> lose) infos))"
proof (induction infos arbitrary: s)
  case Nil
  then show ?case by (simp add: system_stop)
next
  case (Cons info infos)
  from Cons.prems have "info \<in># es_lent s" and rest: "mset infos \<subseteq># es_lent s - {#info#}"
    by (simp_all add: insert_subset_eq_iff)
  from system_more [OF system_step.lose [OF this(1)] Cons.IH] rest show ?case
    by (simp add: comp_def)
qed

lemma notice_lent:
  "image_mset (notice_info \<circ> snd) (mset (concat (map notice_of (map OutBehaviour os)))) =
     sum_list (map lent_by os)"
proof (induction os)
  case (Cons ob os)
  then show ?case by (cases ob rule: lent_by.cases) simp_all
qed simp

lemma add_notices_lent:
  "wires_lent (add_notices os w) = wires_lent w + mset (map (notice_info \<circ> snd) (concat (map notice_of os)))"
  by (simp add: add_notices_def wires_lent_alt)

lemma transport_no_notice:
  "concat (map notice_of (case ev of Pending \<Rightarrow> [] | Ready e \<Rightarrow> [OutTransport e])) = []"
  by (cases ev) simp_all

lemma swarm_no_notice:
  assumes "endpoint_step L lops tops (EbSwarm e) b = Inr (b', os)"
  shows "concat (map notice_of (map OutBehaviour os)) = []"
  using assms by (auto split: prod.splits)

lemma outside_lent:
  assumes "system_step L cap lops lrops (node_system n) i s os" and "from_outside i"
  shows "es_lent s = wires_lent (add_notices os (en_wires n))"
  using assms(1)
proof (cases rule: system_step.cases)
  case (transport_poll relay q t' ev)
  then show ?thesis
    by (simp add: add_notices_lent transport_no_notice node_system_def del: map_concat)
next
  case (poll recv q b' os')
  then show ?thesis
    by (simp add: add_notices_lent notice_lent node_system_def del: map_map)
next
  case (swarm e b' os')
  then show ?thesis
    unfolding swarm(3) add_notices_lent swarm_no_notice [OF swarm(4)] by (simp add: node_system_def)
qed (use assms(2) in \<open>simp_all add: node_system_def add_notices_def\<close>)

lemma deliver_balance:
  assumes "wire_step L WiTake w = Inr (w', [WoEvent p cid e])"
  shows "wires_lent w = wires_lent w' + returned e"
  using wire_step_balance [OF assms] by simp

text \<open>Among the handlers nothing is shown but what is lost with a connection or a notice.\<close>

lemma wire_losses:
  assumes "wire_step L i w = Inr (w', os)" and "\<not> (\<exists>p e. i = WiNotice p e)" and "i \<noteq> WiTake"
  obtains infos where "wires_lent w = wires_lent w' + mset infos"
    "concat (map system_view (map NoWire os)) =
       concat (map (map (OutBehaviour \<circ> Effect) \<circ> lose) infos)"
proof -
  have taken: "wire_taken i = {#}"
    using assms(2,3) by (cases i) auto
  have view: "concat (map system_view (map NoWire (map WoLost infos))) =
      concat (map (map (OutBehaviour \<circ> Effect) \<circ> lose) infos)" for infos
    by (simp add: comp_def)
  from assms(1) have "(\<exists>infos. os = map WoLost infos) \<or>
      sum_list (map wire_given os) = {#} \<and> concat (map system_view (map NoWire os)) = []"
  proof (cases rule: wire_step_cases)
    case (closed cid l)
    then show ?thesis by blast
  next
    case (lose q e ns)
    then have "os = map WoLost [notice_info e]"
      by simp
    then show ?thesis by blast
  qed (use assms(2,3) in simp_all)
  then have "\<exists>infos. sum_list (map wire_given os) = mset infos \<and>
      concat (map system_view (map NoWire os)) =
        concat (map (map (OutBehaviour \<circ> Effect) \<circ> lose) infos)"
    using wire_given_lost view by (metis concat.simps(1) list.simps(8) mset.simps(1))
  with wire_step_balance [OF assms(1)] taken that show ?thesis
    by auto
qed

text \<open>One step, seen without the handlers.\<close>

lemma node_step_system:
  assumes "node_step L cap lops lrops n i n' os"
  shows "\<exists>js. system_run L cap lops lrops (node_system n) js (node_system n') (concat (map system_view os)) \<and>
     filter from_outside js = outside_view i \<and>
     (\<forall>p cid e. SyHandler p cid e \<in> set js \<longrightarrow> NoDelivered p cid e \<in> set os)"
  using assms
proof (cases rule: node_step.cases)
  case (outside i' s os')
  let ?n = "\<lparr>en_transport = es_transport s, en_behaviour = es_behaviour s,
    en_wires = add_notices os' (en_wires n)\<rparr>"
  have "node_system ?n = s"
    using outside_lent [OF outside(5,4)] by (simp add: node_system_def)
  moreover have "concat (map system_view (map NoSystem os')) = os'"
    by (simp add: comp_def)
  ultimately show ?thesis
    using system_more [OF outside(5) system_stop] outside
    by (intro exI [of _ "[i']"]) auto
next
  case (opens cid p w os')
  from opens(4) show ?thesis
  proof (cases rule: wire_step_cases)
    case idle
    with opens show ?thesis
      by (intro exI [of _ "[]"]) (simp add: system_stop)
  next
    case (opened cid' q hi)
    with opens wire_step_balance [OF opens(4)] show ?thesis
      by (intro exI [of _ "[]"]) (simp add: system_stop node_system_def)
  qed simp_all
next
  case (deliver w p cid e b os')
  note balance = deliver_balance [OF deliver(4)]
  from deliver(5) have "endpoint_step L lops (bounded_ops cap) (EbHandler p cid e)
      (es_behaviour (node_system n)) = Inr (b, os')"
    by (simp add: node_system_def)
  from system_step.handler [OF _ this, of lrops] balance
  have "system_step L cap lops lrops (node_system n) (SyHandler p cid e)
      (node_system n') (map OutBehaviour os')"
    by (simp add: node_system_def deliver(2))
  from system_more [OF this system_stop] deliver show ?thesis
    by (intro exI [of _ "[SyHandler p cid e]"]) (auto simp: comp_def)
next
  case (wires i' w os')
  obtain infos where infos: "wires_lent (en_wires n) = wires_lent w + mset infos"
    and view: "concat (map system_view (map NoWire os')) =
       concat (map (map (OutBehaviour \<circ> Effect) \<circ> lose) infos)"
    by (rule wire_losses [OF wires(5)]) (use wires(4) in auto)
  have "system_run L cap lops lrops (node_system n) (map SyLose infos) (node_system n')
      (concat (map (map (OutBehaviour \<circ> Effect) \<circ> lose) infos))"
    using system_loses [of infos "node_system n"] infos wires(2) by (simp add: node_system_def)
  with view wires(1,3) show ?thesis
    by (intro exI [of _ "map SyLose infos"]) (auto simp: filter_empty_conv)
qed

lemma node_run_system:
  assumes "node_run L cap lops lrops n is n' os"
  shows "\<exists>js. system_run L cap lops lrops (node_system n) js (node_system n') (concat (map system_view os)) \<and>
     filter from_outside js = concat (map outside_view is) \<and>
     (\<forall>p cid e. SyHandler p cid e \<in> set js \<longrightarrow> NoDelivered p cid e \<in> set os)"
  using assms
proof (induction rule: node_run.induct)
  case (node_stop n)
  show ?case
    by (intro exI [of _ "[]"]) (simp add: system_stop)
next
  case (node_more n "is" n1 os1 i n2 os2)
  from node_more.IH obtain js where
    js: "system_run L cap lops lrops (node_system n) js (node_system n1) (concat (map system_view os1))"
      "filter from_outside js = concat (map outside_view is)"
      "\<forall>p cid e. SyHandler p cid e \<in> set js \<longrightarrow> NoDelivered p cid e \<in> set os1"
    by blast
  from node_step_system [OF node_more.hyps(2)] obtain ks where
    ks: "system_run L cap lops lrops (node_system n1) ks (node_system n2) (concat (map system_view os2))"
      "filter from_outside ks = outside_view i"
      "\<forall>p cid e. SyHandler p cid e \<in> set ks \<longrightarrow> NoDelivered p cid e \<in> set os2"
    by blast
  from system_run_trans [OF js(1) ks(1)] js(2,3) ks(2,3) show ?case
    by (intro exI [of _ "js @ ks"]) auto
qed

text \<open>
  C8: The handlers and upgrades of the endpoint refine the environment that \<open>Endpoint_System\<close> gives
  the transport and the behaviour: every run of the whole endpoint, seen without them, is a run of
  the two with the same calls, polls and swarm events and the same outputs, in which what is lent is
  what the handlers hold, and only events that a handler reported are handler events.
\<close>

theorem node_refines_system:
  assumes "node_run L cap lops lrops (endpoint_node_new me relay_addr relay) is n os"
  shows "\<exists>js. system_run L cap lops lrops (endpoint_system_new me relay_addr relay) js (node_system n)
       (concat (map system_view os)) \<and>
     filter from_outside js = concat (map outside_view is) \<and>
     (\<forall>p cid e. SyHandler p cid e \<in> set js \<longrightarrow> NoDelivered p cid e \<in> set os)"
  using node_run_system [OF assms] by simp

text \<open>What the application dialed, from the calls of a run.\<close>

lemma dialed_outside: "sum_list (map (dialed L) js) = sum_list (map (dialed L) (filter from_outside js))"
proof (induction js)
  case (Cons j js)
  then show ?case by (cases j) simp_all
qed simp

text \<open>
  C18: In every run of the whole endpoint no dial is lost and none is settled twice: the senders of
  the dials that the application made are exactly those queued in the transport, in the channel,
  waiting for the relay or queued in the behaviour, those held by a handler, by a running upgrade or
  by an event on its way to or from a handler, and those answered or dropped.
\<close>

theorem node_dials_conserved:
  assumes "node_run L cap lops lrops (endpoint_node_new me relay_addr relay) is n os"
  shows "sum_list (map (dialed L) (concat (map outside_view is))) =
     dial_senders (et_pending_to_behaviour (en_transport n)) + dial_senders (et_to_behaviour (en_transport n)) +
     waiting_senders (eb_wait (en_behaviour n)) + dial_senders (eb_pending_t2b (en_behaviour n)) +
     lent_senders (wires_lent (en_wires n)) +
     sum_list (map settles (concat (map system_view os)))"
proof -
  from node_run_system [OF assms] obtain js where
    r: "system_run L cap lops lrops (endpoint_system_new me relay_addr relay) js (node_system n)
      (concat (map system_view os))"
    and js: "filter from_outside js = concat (map outside_view is)"
    by auto
  from system_run_conserves [OF r] dialed_outside [of L js] show ?thesis
    unfolding js by (simp add: system_senders_def endpoint_held_def node_system_def ac_simps)
qed

end
