(* ===== verification/Endpoint_Provenance.thy ===== *)
theory Endpoint_Provenance
  imports Endpoint_Node
begin

text \<open>
  Where what the endpoint shows comes from: an answer to a dial from an upgrade that ran for this
  dial, and the dial from a call of the application; a connection for a listener from an inbound
  upgrade that accepted it. \<open>N\<close> are the events that the behaviour has emitted for handlers, with the
  peer each is for, and \<open>log\<close> the upgrades that have finished.
\<close>

section \<open>Handlers and upgrades\<close>

type_synonym notices = "(peer_id \<times> endpoint_in_event) set"

fun requested :: "notices \<Rightarrow> peer_id \<Rightarrow> endpoint_outbound_upgrade \<Rightarrow> endpoint_open_info \<Rightarrow> bool" where
  "requested N p (OutDial dst a) (InfoDial sender) \<longleftrightarrow> (p, EiDial dst a sender) \<in> N"
| "requested N p (OutListen q a) (InfoListen lid q' a') \<longleftrightarrow> (p, EiListen lid q a) \<in> N \<and> q' = q \<and> a' = a"
| "requested N p u info \<longleftrightarrow> False"

text \<open>What a finished upgrade says of its run.\<close>

fun wire_log_ok :: "lib \<Rightarrow> peer_id \<Rightarrow> notices \<Rightarrow> 'ss wire_output \<Rightarrow> bool" where
  "wire_log_ok L me N (WoDialed p u info tr r) \<longleftrightarrow> requested N p u info \<and>
     (\<exists>dst a r'. u = OutDial dst a \<and> completes (endpoint_dial_upgrade L dst a) tr (Inr r') \<and>
        r = map_sum id Inl r')"
| "wire_log_ok L me N (WoListened p u info tr r) \<longleftrightarrow> requested N p u info \<and>
     (\<exists>q a r'. u = OutListen q a \<and> completes (endpoint_listen_upgrade L q a) tr (Inr r') \<and>
        r = map_sum id Inr r')"
| "wire_log_ok L me N (WoAccepted p u tr r) \<longleftrightarrow>
     u = endpoint_inbound_new me (Some p) \<and> completes (endpoint_upgrade_inbound L u) tr (Inr r)"
| "wire_log_ok L me N ob \<longleftrightarrow> True"

text \<open>What stands behind an event that a handler of a connection to \<open>p\<close> reports.\<close>

fun backed :: "peer_id \<Rightarrow> notices \<Rightarrow> 'ss wire_output set \<Rightarrow> peer_id \<Rightarrow> 'ss endpoint_out_event \<Rightarrow> bool" where
  "backed me N log p (EoDialSuccess relay connection sender) \<longleftrightarrow> relay = p \<and>
     (\<exists>dst a tr. WoDialed p (OutDial dst a) (InfoDial sender) tr (Inr (Inl connection)) \<in> log)"
| "backed me N log p (EoDialFailed err relay sender) \<longleftrightarrow> relay = p \<and> (\<exists>dst a. (p, EiDial dst a sender) \<in> N)"
| "backed me N log p (EoListenSuccess relay lid q a) \<longleftrightarrow> relay = p \<and>
     (\<exists>tr. WoListened p (OutListen q a) (InfoListen lid q a) tr (Inr (Inr ())) \<in> log)"
| "backed me N log p (EoListenFailed err relay lid q a) \<longleftrightarrow> relay = p \<and> (p, EiListen lid q a) \<in> N"
| "backed me N log p (EoNewConnection relay a connection) \<longleftrightarrow> relay = p \<and>
     (\<exists>tr out. WoAccepted p (endpoint_inbound_new me (Some p)) tr (Inr out) \<in> log \<and>
        io_listen_addr out = a \<and> io_connection out = connection)"
| "backed me N log p (EoError err) \<longleftrightarrow> True"

fun event_backed ::
  "peer_id \<Rightarrow> notices \<Rightarrow> 'ss wire_output set \<Rightarrow> peer_id \<Rightarrow> 'ss endpoint_handler_event \<Rightarrow> bool" where
  "event_backed me N log p (OutboundSubstreamRequest u info) \<longleftrightarrow> requested N p u info"
| "event_backed me N log p (Custom e) \<longleftrightarrow> backed me N log p e"

definition output_backed ::
  "peer_id \<Rightarrow> 'ss wire_output set \<Rightarrow> peer_id \<Rightarrow> 'ss inbound_upgrade_output \<Rightarrow> bool" where
  "output_backed me log p out \<longleftrightarrow> io_relay_peer_id out = p \<and>
     (\<exists>tr. WoAccepted p (endpoint_inbound_new me (Some p)) tr (Inr out) \<in> log)"

definition link_backed ::
  "peer_id \<Rightarrow> notices \<Rightarrow> 'ss wire_output set \<Rightarrow> 'ss endpoint_link \<Rightarrow> bool" where
  "link_backed me N log l \<longleftrightarrow> eh_local_peer_id (ek_handler l) = me \<and>
     eh_relay_peer_id (ek_handler l) = ek_peer l \<and>
     list_all (event_backed me N log (ek_peer l)) (eh_pending_events (ek_handler l)) \<and>
     list_all (output_backed me log (ek_peer l)) (eh_pending_inbound_upgrade_output (ek_handler l))"

fun task_backed :: "peer_id \<Rightarrow> notices \<Rightarrow> peer_id \<Rightarrow> 'ss endpoint_task \<Rightarrow> bool" where
  "task_backed me N p (OutDialTask cid u info tr t) \<longleftrightarrow> requested N p u info"
| "task_backed me N p (OutListenTask cid u info tr t) \<longleftrightarrow> requested N p u info"
| "task_backed me N p (InConnectTask cid u tr t) \<longleftrightarrow> u = endpoint_inbound_new me (Some p)"

definition tasks_backed ::
  "peer_id \<Rightarrow> notices \<Rightarrow> (connection_id \<rightharpoonup> peer_id) \<Rightarrow> (nat \<times> 'ss endpoint_task) list \<Rightarrow> bool" where
  "tasks_backed me N peers ts \<longleftrightarrow>
     list_all (\<lambda>t. \<exists>p. peers (endpoint_task_link (snd t)) = Some p \<and> task_backed me N p (snd t)) ts"

definition link_peers :: "'ss endpoint_wires \<Rightarrow> connection_id \<rightharpoonup> peer_id" where
  "link_peers w = map_option ek_peer \<circ> map_of (ew_links w)"

definition wires_backed ::
  "peer_id \<Rightarrow> notices \<Rightarrow> 'ss wire_output set \<Rightarrow> 'ss endpoint_wires \<Rightarrow> bool" where
  "wires_backed me N log w \<longleftrightarrow> list_all (link_backed me N log \<circ> snd) (ew_links w) \<and>
     tasks_backed me N (link_peers w) (ew_tasks w) \<and>
     set (ew_notices w) \<subseteq> N \<and>
     list_all (\<lambda>(p, cid, e). backed me N log p e) (ew_events w)"

definition wires_told ::
  "lib \<Rightarrow> peer_id \<Rightarrow> notices \<Rightarrow> 'ss wire_output set \<Rightarrow> 'ss endpoint_wires \<Rightarrow> bool" where
  "wires_told L me N log w \<longleftrightarrow> endpoint_wired L w \<and> wires_backed me N log w \<and>
     (\<forall>ob\<in>log. wire_log_ok L me N ob)"

text \<open>More notices and more finished upgrades spoil nothing.\<close>

lemma requested_mono: "requested N p u info \<Longrightarrow> N \<subseteq> N' \<Longrightarrow> requested N' p u info"
  by (induction N p u info rule: requested.induct) auto

lemma wire_log_ok_mono: "wire_log_ok L me N ob \<Longrightarrow> N \<subseteq> N' \<Longrightarrow> wire_log_ok L me N' ob"
  by (cases ob) (auto dest: requested_mono)

lemma backed_mono:
  "backed me N log p e \<Longrightarrow> N \<subseteq> N' \<Longrightarrow> log \<subseteq> log' \<Longrightarrow> backed me N' log' p e"
  by (cases e) (simp_all, blast+)

lemma event_backed_mono:
  "event_backed me N log p e \<Longrightarrow> N \<subseteq> N' \<Longrightarrow> log \<subseteq> log' \<Longrightarrow> event_backed me N' log' p e"
  by (cases e) (simp_all add: requested_mono backed_mono)

lemma output_backed_mono: "output_backed me log p out \<Longrightarrow> log \<subseteq> log' \<Longrightarrow> output_backed me log' p out"
  by (auto simp: output_backed_def)

lemma link_backed_mono:
  "link_backed me N log l \<Longrightarrow> N \<subseteq> N' \<Longrightarrow> log \<subseteq> log' \<Longrightarrow> link_backed me N' log' l"
  by (auto simp: link_backed_def list_all_iff event_backed_mono output_backed_mono)

lemma task_backed_mono: "task_backed me N p t \<Longrightarrow> N \<subseteq> N' \<Longrightarrow> task_backed me N' p t"
  by (cases t) (auto simp: requested_mono)

lemma tasks_backed_mono: "tasks_backed me N peers ts \<Longrightarrow> N \<subseteq> N' \<Longrightarrow> tasks_backed me N' peers ts"
  by (fastforce simp: tasks_backed_def list_all_iff task_backed_mono)

lemma wires_backed_mono:
  assumes "wires_backed me N log w" and "N \<subseteq> N'" and "log \<subseteq> log'"
  shows "wires_backed me N' log' w"
  using assms link_backed_mono [OF _ assms(2,3)] backed_mono [OF _ assms(2,3)] tasks_backed_mono [OF _ assms(2)]
  unfolding wires_backed_def list_all_iff by fastforce

text \<open>What the handler's operations do to its queues.\<close>

lemma behaviour_event_backed:
  "link_backed me N log l \<Longrightarrow> (ek_peer l, e) \<in> N \<Longrightarrow>
     link_backed me N log (l\<lparr>ek_handler := fst (endpoint_on_behaviour_event e (ek_handler l))\<rparr>)"
  by (cases e) (simp_all add: link_backed_def eh_push_def new_dial_def new_listen_def)

lemma new_connection_backed:
  "output_backed me log p out \<Longrightarrow> event_backed me N log p (new_connection_event out)"
  by (auto simp: output_backed_def new_connection_event_def; blast)

lemma handler_poll_backed:
  "endpoint_handler_poll (ek_handler l) = (h, es, Ready ev) \<Longrightarrow> link_backed me N log l \<Longrightarrow>
     link_backed me N log (l\<lparr>ek_handler := h\<rparr>) \<and> event_backed me N log (ek_peer l) ev"
  by (auto simp: endpoint_handler_poll_def link_backed_def new_connection_backed split: list.splits)

lemma dialed_backed:
  assumes "endpoint_on_connection_event (outbound_outcome_event msg info r) (ek_handler l) = Inr (h, es)"
    and "link_backed me N log l" and "WoDialed (ek_peer l) u info tr r \<in> log"
    and "wire_log_ok L me N (WoDialed (ek_peer l) u info tr r)"
  shows "link_backed me N log (l\<lparr>ek_handler := h\<rparr>)"
proof -
  from assms(4) obtain dst a sender r' where "u = OutDial dst a" "info = InfoDial sender"
    "(ek_peer l, EiDial dst a sender) \<in> N" "r = map_sum id Inl r'"
    by (cases info) auto
  with assms(1-3) show ?thesis
    by (cases r') (auto simp: link_backed_def eh_push_def; blast)+
qed

lemma listened_backed:
  assumes "endpoint_on_connection_event (outbound_outcome_event msg info r) (ek_handler l) = Inr (h, es)"
    and "link_backed me N log l" and "WoListened (ek_peer l) u info tr r \<in> log"
    and "wire_log_ok L me N (WoListened (ek_peer l) u info tr r)"
  shows "link_backed me N log (l\<lparr>ek_handler := h\<rparr>)"
proof -
  from assms(4) obtain q a lid r' where "u = OutListen q a" "info = InfoListen lid q a"
    "(ek_peer l, EiListen lid q a) \<in> N" "r = map_sum id Inr r'"
    by (cases info) auto
  with assms(1-3) show ?thesis
    by (cases r') (auto simp: link_backed_def eh_push_def; blast)+
qed

lemma inbound_relay_peer:
  "completes (endpoint_upgrade_inbound L u) tr (Inr (Inr out)) \<Longrightarrow> ei_relay_peer_id u = Some (io_relay_peer_id out)"
  by (auto simp: endpoint_inbound_simps)

lemma accepted_backed:
  assumes "endpoint_on_connection_event (inbound_outcome_event msg r) (ek_handler l) = Inr (h, es)"
    and "link_backed me N log l" and "WoAccepted (ek_peer l) u tr r \<in> log"
    and "wire_log_ok L me N (WoAccepted (ek_peer l) u tr r)"
  shows "link_backed me N log (l\<lparr>ek_handler := h\<rparr>)"
proof (cases r)
  case (Inr out)
  with assms(4) have "output_backed me log (ek_peer l) out"
    using assms(3) inbound_relay_peer [of L u tr out]
    by (auto simp: output_backed_def endpoint_inbound_new_def)
  with assms(1,2) Inr show ?thesis
    by (auto simp: link_backed_def)
qed (use assms(1,2) in \<open>auto simp: link_backed_def\<close>)

lemma given_up_backed:
  assumes "endpoint_on_connection_event (DialUpgradeError info err) (ek_handler l) = Inr (h, es)"
    and "link_backed me N log l" and "requested N (ek_peer l) u info"
  shows "link_backed me N log (l\<lparr>ek_handler := h\<rparr>)"
  using assms by (cases u; cases info) (auto simp: link_backed_def eh_push_def; blast)+

text \<open>How the state changes.\<close>

lemma link_peers_simps [simp]:
  "map_of (ew_links w) cid = Some l \<Longrightarrow> link_peers (put_handler cid l h w) = link_peers w"
  "link_peers (put_task k t w) = link_peers w" "link_peers (drop_task k w) = link_peers w"
  by (auto simp: link_peers_def put_handler_def put_task_def drop_task_def update_conv')

lemma backed_put_handler:
  "wires_backed me N log w \<Longrightarrow> map_of (ew_links w) cid = Some l \<Longrightarrow>
     link_backed me N log (l\<lparr>ek_handler := h\<rparr>) \<Longrightarrow> wires_backed me N log (put_handler cid l h w)"
  by (simp add: wires_backed_def) (simp add: put_handler_def list_all_update)

lemma tasks_backed_update:
  "tasks_backed me N peers ts \<Longrightarrow> peers (endpoint_task_link t) = Some p \<Longrightarrow> task_backed me N p t \<Longrightarrow>
     tasks_backed me N peers (AList.update k t ts)"
  unfolding tasks_backed_def by (induction ts) auto

lemma tasks_backed_drop: "tasks_backed me N peers ts \<Longrightarrow> tasks_backed me N peers (drop_key k ts)"
  unfolding tasks_backed_def by (induction ts) auto

lemma backed_put_task:
  "wires_backed me N log w \<Longrightarrow> link_peers w (endpoint_task_link t) = Some p \<Longrightarrow> task_backed me N p t \<Longrightarrow>
     wires_backed me N log (put_task k t w)"
  by (simp add: wires_backed_def) (simp add: put_task_def tasks_backed_update)

lemma backed_drop_task: "wires_backed me N log w \<Longrightarrow> wires_backed me N log (drop_task k w)"
  by (simp add: wires_backed_def) (simp add: drop_task_def tasks_backed_drop)

lemma backed_link: "wires_backed me N log w \<Longrightarrow> map_of (ew_links w) cid = Some l \<Longrightarrow> link_backed me N log l"
  unfolding wires_backed_def by (elim conjE) (erule list_all_lookup)

lemma backed_task:
  assumes "wires_backed me N log w" and "map_of (ew_tasks w) k = Some t"
  obtains p where "link_peers w (endpoint_task_link t) = Some p" "task_backed me N p t"
proof -
  from assms(2) have "(k, t) \<in> set (ew_tasks w)"
    by (rule map_of_SomeD)
  with assms(1) that show ?thesis
    by (auto simp: wires_backed_def tasks_backed_def list_all_iff)
qed

lemma outbound_task_link [simp]: "endpoint_task_link (outbound_task L cid u info) = cid"
  by (simp add: outbound_task_def split: sum.splits)

lemma outbound_task_backed: "task_backed me N p (outbound_task L cid u info) = requested N p u info"
  by (simp add: outbound_task_def split: sum.splits)

lemma map_of_drop_other: "k \<noteq> cid \<Longrightarrow> map_of (drop_key cid xs) k = map_of xs k"
  by (induction xs) auto

lemma backed_put_same:
  assumes "wires_backed me N log w" and "map_of (ew_tasks w) k = Some t"
    and "endpoint_task_link t' = endpoint_task_link t"
    and "\<And>p. task_backed me N p t' = task_backed me N p t"
  shows "wires_backed me N log (put_task k t' w)"
  by (rule backed_task [OF assms(1,2)]) (simp add: backed_put_task [OF assms(1)] assms(3,4))

lemma backed_task_link:
  assumes "wires_backed me N log w" and "map_of (ew_tasks w) k = Some t"
    and "map_of (ew_links w) (endpoint_task_link t) = Some l"
  shows "task_backed me N (ek_peer l) t"
  using backed_task [OF assms(1,2)] assms(3) by (auto simp: link_peers_def)

text \<open>A step of the handlers and upgrades; what it shows joins the log.\<close>

lemma wire_log_new:
  assumes "wire_step L i w = Inr (w', os)" and "wires_told L me N log w" and "ob \<in> set os"
  shows "wire_log_ok L me N ob"
  using assms(1)
proof (cases rule: wire_step_cases)
  have wired: "endpoint_wired L w" and backed: "wires_backed me N log w"
    using assms(2) by (simp_all add: wires_told_def)
  {
    case (dialed k cid u info tr r l h es msg)
    obtain p a r' where
      "u = OutDial p a" "completes (endpoint_dial_upgrade L p a) tr (Inr r')" "r = map_sum id Inl r'"
      by (rule dial_task_done [OF wired_task [OF wired dialed(1)]]) simp
    moreover have "requested N (ek_peer l) u info"
      using backed_task_link [OF backed dialed(1)] dialed(2) by simp
    ultimately show ?thesis
      using dialed(5) assms(3) by auto
  next
    case (listened k cid u info tr r l h es msg)
    obtain p a r' where
      "u = OutListen p a" "completes (endpoint_listen_upgrade L p a) tr (Inr r')" "r = map_sum id Inr r'"
      by (rule listen_task_done [OF wired_task [OF wired listened(1)]]) simp
    moreover have "requested N (ek_peer l) u info"
      using backed_task_link [OF backed listened(1)] listened(2) by simp
    ultimately show ?thesis
      using listened(5) assms(3) by auto
  next
    case (accepted k cid u tr r l h es msg)
    from wired_task [OF wired accepted(1)] have "completes (endpoint_upgrade_inbound L u) tr (Inr r)"
      by simp
    moreover have "u = endpoint_inbound_new me (Some (ek_peer l))"
      using backed_task_link [OF backed accepted(1)] accepted(2) by simp
    ultimately show ?thesis
      using accepted(5) assms(3) by simp
  }
qed (use assms(3) in auto)

lemma wire_step_told:
  assumes "wire_step L i w = Inr (w', os)" and told: "wires_told L me N log w"
    and "\<And>p e. i = WiNotice p e \<Longrightarrow> (p, e) \<in> N"
    and "\<And>cid p hi. i = WiOpen cid p hi \<Longrightarrow> eih_local_peer_id hi = me"
  shows "wires_told L me N (log \<union> set os) w'"
proof -
  let ?log = "log \<union> set os"
  have wired: "endpoint_wired L w"
    using told by (simp add: wires_told_def)
  have old: "wires_backed me N ?log w"
    using told wires_backed_mono [of me N log w N ?log] by (simp add: wires_told_def)
  have new: "\<forall>ob\<in>?log. wire_log_ok L me N ob"
    using told wire_log_new [OF assms(1) told] by (auto simp: wires_told_def)
  note link = backed_link [OF old]
  from assms(1) have "wires_backed me N ?log w'"
  proof (cases rule: wire_step_cases)
    case idle
    with old show ?thesis by simp
  next
    case (opened cid q hi)
    have "tasks_backed me N (link_peers w') (ew_tasks w)"
      using old opened(1,2) unfolding wires_backed_def tasks_backed_def list_all_iff
      by (force simp: link_peers_def)
    with old opened assms(4) show ?thesis
      by (simp add: wires_backed_def link_backed_def endpoint_into_handler_def)
  next
    case (notice q e)
    with old assms(3) show ?thesis
      by (simp add: wires_backed_def link_peers_def)
  next
    case (lose q e ns)
    with old show ?thesis
      by (simp add: wires_backed_def link_peers_def)
  next
    case (take q cid e evs)
    with old show ?thesis
      by (simp add: wires_backed_def link_peers_def)
  next
    case (inbound cid k l)
    have "link_peers w cid = Some (ek_peer l)"
      using inbound(1) by (simp add: link_peers_def)
    with link [OF inbound(1)] show ?thesis
      unfolding inbound(3)
      by (intro backed_put_task [OF old]) (simp_all add: endpoint_listen_protocol_def link_backed_def)
  next
    case (dial_await k e cid u info tr t t')
    then show ?thesis
      using backed_put_same [OF old dial_await(1)] by simp
  next
    case (listen_await k e cid u info tr t t')
    then show ?thesis
      using backed_put_same [OF old listen_await(1)] by simp
  next
    case (connect_await k e cid u tr t t')
    then show ?thesis
      using backed_put_same [OF old connect_await(1)] by simp
  next
    case (dialed k cid u info tr r l h es msg)
    then have logged: "WoDialed (ek_peer l) u info tr r \<in> ?log"
      by simp
    from dialed_backed [OF dialed(3) link [OF dialed(2)] logged bspec [OF new logged]] dialed(2,4)
    show ?thesis
      by (simp add: backed_put_handler [OF backed_drop_task [OF old]])
  next
    case (listened k cid u info tr r l h es msg)
    then have logged: "WoListened (ek_peer l) u info tr r \<in> ?log"
      by simp
    from listened_backed [OF listened(3) link [OF listened(2)] logged bspec [OF new logged]] listened(2,4)
    show ?thesis
      by (simp add: backed_put_handler [OF backed_drop_task [OF old]])
  next
    case (accepted k cid u tr r l h es msg)
    then have logged: "WoAccepted (ek_peer l) u tr r \<in> ?log"
      by simp
    from accepted_backed [OF accepted(3) link [OF accepted(2)] logged bspec [OF new logged]] accepted(2,4)
    show ?thesis
      by (simp add: backed_put_handler [OF backed_drop_task [OF old]])
  next
    case (notify cid l e ns)
    have "(ek_peer l, e) \<in> N"
      using old notify(1) by (simp add: wires_backed_def)
    from backed_put_handler [OF old notify(2) behaviour_event_backed [OF link [OF notify(2)] this]]
    show ?thesis
      using notify(1,2) unfolding notify(3)
      by (simp add: wires_backed_def link_peers_def) (simp add: put_handler_def)
  next
    case (custom cid k l e h es)
    note polled = handler_poll_backed [OF custom(2) link [OF custom(1)]]
    then have "wires_backed me N ?log (put_handler cid l h w)"
      using backed_put_handler [OF old custom(1)] by blast
    with polled show ?thesis
      unfolding custom(3) by (simp add: wires_backed_def link_peers_def) (simp add: put_handler_def)
  next
    case (request cid k l u info h es)
    note polled = handler_poll_backed [OF request(3) link [OF request(1)]]
    then have "wires_backed me N ?log (put_handler cid l h w)"
      using backed_put_handler [OF old request(1)] by blast
    moreover have "link_peers (put_handler cid l h w) cid = Some (ek_peer l)"
      using request(1) by simp (simp add: link_peers_def)
    moreover have "requested N (ek_peer l) u info"
      using polled by simp
    ultimately show ?thesis
      unfolding request(4) by (intro backed_put_task) (simp_all add: outbound_task_backed)
  next
    case (given_up k t l ce h es err)
    have "task_backed me N (ek_peer l) t"
      by (rule backed_task_link [OF old given_up(1,2)])
    with given_up(3-5) link [OF given_up(2)] have "link_backed me N ?log (l\<lparr>ek_handler := h\<rparr>)"
      by (cases t) (auto simp: link_backed_def dest: given_up_backed)
    with given_up(2,6) show ?thesis
      by (simp add: backed_put_handler [OF backed_drop_task [OF old]])
  next
    case (closed cid l)
    have "tasks_backed me N (link_peers w') (ew_tasks w')"
      using old unfolding closed(2) wires_backed_def tasks_backed_def list_all_iff
      by (fastforce simp: link_peers_def map_of_drop_other)
    with old closed(2) show ?thesis
      by (simp add: wires_backed_def list_all_drop)
  qed
  with new wires_ledger.inv_step [OF wired assms(1)] show ?thesis
    by (simp add: wires_told_def)
qed

end
