(* ===== verification/Endpoint_Outcomes.thy ===== *)
theory Endpoint_Outcomes
  imports Endpoint_Provenance
begin

text \<open>
  The whole endpoint, end to end: what the application asked the transport for, through the
  behaviour, the handlers and their upgrades, and back to the answer. \<open>A\<close> are the events that the
  application's calls ask for.
\<close>

section \<open>What the behaviour passes on\<close>

definition behaviour_asks ::
  "'ls transport_to_behaviour_event set \<Rightarrow> ('ss, 'ls, 'ts) endpoint_behaviour \<Rightarrow> bool" where
  "behaviour_asks A b \<longleftrightarrow> list_all (\<lambda>e. e \<in> A) (eb_pending_t2b b) \<and>
     (\<forall>p evs. eb_wait b p = Some evs \<longrightarrow> list_all (\<lambda>e. e \<in> A) evs)"

fun notice_from :: "'ls transport_to_behaviour_event \<Rightarrow> peer_id \<times> endpoint_in_event" where
  "notice_from (TDial dst_peer_id dst_addr relay_addr relay_peer_id sender) =
     (relay_peer_id, EiDial dst_peer_id dst_addr sender)"
| "notice_from (TListen lid local_peer_id local_addr relay_peer_id relay_addr sender) =
     (relay_peer_id, EiListen lid local_peer_id local_addr)"

lemma behaviour_asks_frame:
  "eb_wait b' = eb_wait b \<Longrightarrow> eb_pending_t2b b' = eb_pending_t2b b \<Longrightarrow> behaviour_asks A b' = behaviour_asks A b"
  by (simp add: behaviour_asks_def)

lemma next_event_asks:
  assumes "endpoint_next_event recv b = (b', r)" and "behaviour_asks A b"
    and "\<And>e. recv = Ready (Some e) \<Longrightarrow> e \<in> A"
  shows "behaviour_asks A b' \<and> (\<forall>e. r = Inr (Some e) \<longrightarrow> e \<in> A) \<and> eb_peer_id b' = eb_peer_id b \<and>
     (\<forall>a. r = Inl a \<longrightarrow> (\<exists>p addrs h. a = DialPeer p addrs h))"
proof (cases "\<exists>e. recv = Ready (Some e)")
  case True
  then obtain e where "recv = Ready (Some e)" and "e \<in> A"
    using assms(3) by blast
  with assms(1,2) show ?thesis
    by (auto simp: endpoint_next_event_def Let_def behaviour_asks_def split: if_splits option.splits)
next
  case False
  with assms(1,2) show ?thesis
    by (auto simp: endpoint_next_event_def behaviour_asks_def
        split: poll.splits option.splits list.splits)
qed

lemma dispatch_notice:
  "endpoint_dispatch e b = (b', a) \<Longrightarrow> notice_from e = (p, x) \<Longrightarrow> a = NotifyHandler p x \<and> eb_peer_id b' = eb_peer_id b"
  by (cases e) auto

lemma new_connections_peer_id:
  "endpoint_new_connections L lops ncs b = Inr (b', act) \<Longrightarrow> eb_peer_id b' = eb_peer_id b"
proof (induction ncs arbitrary: b)
  case (Cons nc ncs)
  then show ?case
    by (fastforce split: option.splits offer.splits if_splits)
qed auto

lemma flush_transports_peer_id:
  "flush_transports L tops entries b = Inr (b', act) \<Longrightarrow> eb_peer_id b' = eb_peer_id b"
  by (induction L tops entries b rule: flush_transports.induct)
     (auto split: option.splits flushed.splits)

lemma endpoint_poll_asks:
  assumes "endpoint_poll L lops tops recv b = Inr (b', es, r)" and "behaviour_asks A b" and "endpoint_quiet b"
    and "\<And>e. recv = Ready (Some e) \<Longrightarrow> e \<in> A"
  shows "behaviour_asks A b' \<and> eb_peer_id b' = eb_peer_id b \<and> set es \<subseteq> {Register} \<and>
     (\<forall>p x. r = Ready (NotifyHandler p x) \<longrightarrow> (p, x) \<in> notice_from ` A)"
proof -
  note first = next_event_asks [OF _ assms(2,4)]
  from assms(1) show ?thesis
  proof (cases rule: endpoint_poll_cases)
    case (dial a)
    with first [OF dial(1)] show ?thesis by auto
  next
    case (dispatch event b1 a)
    obtain p x where n: "notice_from event = (p, x)"
      by fastforce
    have "event \<in> A"
      using first [OF dispatch(1)] by simp
    then have "(p, x) \<in> notice_from ` A"
      using n by (metis imageI)
    with first [OF dispatch(1)] dispatch_notice [OF dispatch(2) n] endpoint_dispatch_frame [OF dispatch(2)]
      behaviour_asks_frame [of b' b1 A] dispatch
    show ?thesis by auto
  next
    case (offer b1 a)
    with first [OF offer(1)] new_connections_peer_id [OF offer(2)] endpoint_new_connections_frame [OF offer(2)]
      behaviour_asks_frame [of b' b1 A] endpoint_new_connections_action [OF offer(2)]
    show ?thesis by auto
  next
    case (flush b1 b2 a)
    have "behaviour_asks A b'" "eb_peer_id b' = eb_peer_id b"
      using first [OF flush(1)] new_connections_peer_id [OF flush(2)] flush_transports_peer_id [OF flush(3)]
        endpoint_new_connections_frame [OF flush(2)] flush_transports_frame [OF flush(3)]
        behaviour_asks_frame [of b' b1 A] by simp_all
    with flush_transports_action [OF flush(3)] flush(4,5) show ?thesis by auto
  next
    case (actions b1 b2 b3)
    have "behaviour_asks A b3" "eb_peer_id b3 = eb_peer_id b" "endpoint_quiet b3"
      using first [OF actions(1)] new_connections_peer_id [OF actions(2)] flush_transports_peer_id [OF actions(3)]
        endpoint_new_connections_frame [OF actions(2)] flush_transports_frame [OF actions(3)]
        endpoint_next_event_frame [OF actions(1)]
        behaviour_asks_frame [of b3 b1 A] endpoint_quiet_frame [of b3 b] assms(3) by simp_all
    moreover from actions(4) have "eb_wait b' = eb_wait b3" "eb_pending_t2b b' = eb_pending_t2b b3"
      "eb_peer_id b' = eb_peer_id b3" "set es \<subseteq> {Register}"
      "\<forall>a. r = Ready a \<longrightarrow> a \<in> set (eb_pending_actions b3)"
      by (auto simp: endpoint_poll_actions_def split: list.splits)
    ultimately show ?thesis
      using behaviour_asks_frame [of b' b3 A] by (fastforce simp: endpoint_quiet_def)
  qed
qed

lemma on_swarm_event_asks:
  "endpoint_on_swarm_event L e b = (b', es) \<Longrightarrow> behaviour_asks A b \<Longrightarrow>
     behaviour_asks A b' \<and> eb_peer_id b' = eb_peer_id b"
proof (induction L e b rule: endpoint_on_swarm_event.induct)
  case (1 L peer_id connection_id addr s)
  then show ?case
    by (auto simp: Let_def behaviour_asks_def split: if_splits option.splits)
next
  case (2 L peer_id connection_id addr s)
  then show ?case
    by (auto simp: Let_def behaviour_asks_def split: option.splits)
next
  case (3 L peer_id error s)
  then show ?case
    by (auto simp: Let_def behaviour_asks_def split: option.splits if_splits)
qed simp_all

text \<open>A dial is answered with a connection only for a handler's success.\<close>

lemma fail_waiting_answers: "Answer sender (Inr c) \<notin> set (snd (fail_waiting L error e))"
  by (cases e) simp_all

lemma drop_waiting_answers: "Answer sender (Inr c) \<notin> set (drop_waiting e)"
  by (cases e) simp_all

lemma on_swarm_event_answers:
  "endpoint_on_swarm_event L e b = (b', es) \<Longrightarrow> Answer sender (Inr c) \<notin> set es"
proof (induction L e b rule: endpoint_on_swarm_event.induct)
  case (3 L peer_id error s)
  then show ?case
    by (auto simp: Let_def fail_waiting_answers drop_waiting_answers split: option.splits if_splits)
qed (auto simp: Let_def split: option.splits if_splits)

lemma endpoint_step_asks:
  assumes "endpoint_step L lops tops i b = Inr (b', os)" and "behaviour_asks A b" and "endpoint_quiet b"
    and "\<And>e. i = EbPoll (Ready (Some e)) \<Longrightarrow> e \<in> A"
  shows "behaviour_asks A b'" and "eb_peer_id b' = eb_peer_id b"
    and "Emit (NotifyHandler p x) \<in> set os \<Longrightarrow> (p, x) \<in> notice_from ` A"
    and "Effect (Answer sender (Inr c)) \<in> set os \<Longrightarrow>
      \<exists>q cid relay. i = EbHandler q cid (EoDialSuccess relay c sender)"
proof -
  have "behaviour_asks A b' \<and> eb_peer_id b' = eb_peer_id b \<and>
      (Emit (NotifyHandler p x) \<in> set os \<longrightarrow> (p, x) \<in> notice_from ` A) \<and>
      (Effect (Answer sender (Inr c)) \<in> set os \<longrightarrow>
        (\<exists>q cid relay. i = EbHandler q cid (EoDialSuccess relay c sender)))"
  proof (cases i)
    case (EbPoll recv)
    with assms(1) obtain es r where poll: "endpoint_poll L lops tops recv b = Inr (b', es, r)"
      and os: "os = map Effect es @ (case r of Pending \<Rightarrow> [] | Ready a \<Rightarrow> [Emit a])"
      by (auto split: sum.splits prod.splits)
    from endpoint_poll_asks [OF poll assms(2,3)] assms(4) EbPoll os show ?thesis
      by (cases r) auto
  next
    case (EbHandler q cid e)
    with assms(1) obtain es where h: "endpoint_on_handler_event e b = (b', es)" and os: "os = map Effect es"
      by (auto split: prod.splits)
    from endpoint_on_handler_event_frame [OF h] have "behaviour_asks A b'"
      using assms(2) behaviour_asks_frame [of b' b A] by simp
    with EbHandler h os show ?thesis
      by (cases e) auto
  next
    case (EbSwarm e)
    with assms(1) obtain es where h: "endpoint_on_swarm_event L e b = (b', es)" and os: "os = map Effect es"
      by (auto split: prod.splits)
    from on_swarm_event_asks [OF h assms(2)] on_swarm_event_answers [OF h] os show ?thesis
      by auto
  qed
  then show "behaviour_asks A b'" and "eb_peer_id b' = eb_peer_id b"
    and "Emit (NotifyHandler p x) \<in> set os \<Longrightarrow> (p, x) \<in> notice_from ` A"
    and "Effect (Answer sender (Inr c)) \<in> set os \<Longrightarrow>
      \<exists>q cid relay. i = EbHandler q cid (EoDialSuccess relay c sender)"
    by blast+
qed

section \<open>What the transport is asked for\<close>

fun call_events ::
  "lib \<Rightarrow> peer_id \<Rightarrow> multiaddr \<Rightarrow> peer_id \<Rightarrow> ('ls, 'lr) transport_input \<Rightarrow>
     'ls transport_to_behaviour_event set" where
  "call_events L me relay_addr relay (TiDial conn a) =
     (case peer_of_addr L a of None \<Rightarrow> {} | Some dst \<Rightarrow> {TDial dst a relay_addr relay conn})"
| "call_events L me relay_addr relay (TiListenOn conn_sender conn_receiver lid a) =
     {TListen lid me a relay relay_addr conn_sender}"
| "call_events L me relay_addr relay i = {}"

fun asked_events ::
  "lib \<Rightarrow> peer_id \<Rightarrow> multiaddr \<Rightarrow> peer_id \<Rightarrow> ('ss, 'ls, 'lr) node_input \<Rightarrow>
     'ls transport_to_behaviour_event set" where
  "asked_events L me relay_addr relay (NiSystem (SyCall i)) = call_events L me relay_addr relay i"
| "asked_events L me relay_addr relay i = {}"

definition transport_asks ::
  "peer_id \<Rightarrow> multiaddr \<Rightarrow> peer_id \<Rightarrow> 'ls transport_to_behaviour_event set \<Rightarrow>
     ('ls, 'lr, 'ls transport_to_behaviour_event list, 'tr) endpoint_transport \<Rightarrow> bool" where
  "transport_asks me relay_addr relay A t \<longleftrightarrow> et_local_peer_id t = me \<and> et_relay_addr t = relay_addr \<and>
     et_relay_peer_id t = relay \<and> set (asked (\<lambda>q. q) t) \<subseteq> A"

lemma transport_call_asks:
  assumes "transport_step L list_receiver (bounded_ops cap) lrops t i t'" and "i \<noteq> TiPoll"
    and "transport_asks me relay_addr relay A t" and "call_events L me relay_addr relay i \<subseteq> A"
  shows "transport_asks me relay_addr relay A t'"
  using assms(1)
proof (cases rule: transport_step.cases)
  case (listen_on conn_sender conn_receiver lid a es r)
  with assms(3,4) show ?thesis
    by (auto simp: endpoint_listen_on_def transport_asks_def asked_def split: option.splits)
next
  case (remove_listener lid b)
  with assms(3) show ?thesis
    by (auto simp: endpoint_remove_listener_def transport_asks_def asked_def split: if_splits)
next
  case (dial conn a es r)
  with assms(3,4) show ?thesis
    by (auto simp: endpoint_dial_def transport_asks_def asked_def split: option.splits)
next
  case (dial_as_listener a r)
  with assms(3) show ?thesis
    by (auto simp: endpoint_dial_as_listener_def)
next
  case (poll ev)
  with assms(2) show ?thesis by simp
qed

lemma drain_local_peer:
  assumes "drains_to queued t (Some (Inr (t1, dr)))"
  shows "et_local_peer_id t1 = et_local_peer_id t"
proof (cases "dropWhile ignored_report (queued (et_from_behaviour t))")
  case Nil
  with assms show ?thesis
    by (auto simp: drains_to_def)
next
  case (Cons e es)
  with assms show ?thesis
    by (cases e) (auto simp: drains_to_def endpoint_remove_listener_def)
qed

lemma poll_listener_local_peer:
  "endpoint_poll_listener lrops t = (t', ev) \<Longrightarrow> et_local_peer_id t' = et_local_peer_id t"
  by (auto simp: endpoint_poll_listener_def split: option.splits prod.splits poll.splits)

lemma transport_poll_local_peer:
  fixes lrops :: "('lr, io_error + 'ss connection) receiver_ops"
    and t :: "('ls, 'lr, 'ls transport_to_behaviour_event list, behaviour_to_transport_event list) endpoint_transport"
  assumes "endpoint_transport_poll list_receiver (bounded_ops cap) lrops t = Some (Inr (t', ev))"
  shows "et_local_peer_id t' = et_local_peer_id t"
proof -
  have spec: "drains_to (\<lambda>q. q) t (endpoint_drain list_receiver t :: ('ls, 'lr, _, _, 'ss) drained)"
    by (rule endpoint_drain_spec [OF list_receiver_fifo list_receiver_live])
  from assms obtain t1 dr where
    d: "endpoint_drain list_receiver t = (Some (Inr (t1, dr)) :: ('ls, 'lr, _, _, 'ss) drained)"
    by (auto simp: endpoint_transport_poll_def split: option.splits sum.splits)
  with spec drain_local_peer have "et_local_peer_id t1 = et_local_peer_id t"
    by metis
  with assms d show ?thesis
    by (cases dr) (auto simp: endpoint_transport_poll_def dest!: poll_listener_local_peer
        split: sum.splits prod.splits poll.splits)
qed

lemma transport_poll_asks:
  assumes "endpoint_transport_poll list_receiver (bounded_ops cap) lrops t = Some (Inr (t', ev))"
    and "transport_asks me relay_addr relay A t"
  shows "transport_asks me relay_addr relay A t'"
  using endpoint_transport_poll_asked [OF assms(1) bounded_ops_fifo list_receiver_fifo list_receiver_live]
    transport_poll_local_peer [OF assms(1)] assms(2)
  by (simp add: transport_asks_def)

section \<open>The whole endpoint\<close>

definition notices_in :: "'ss node_output list \<Rightarrow> notices" where
  "notices_in os = {(p, x). NoSystem (OutBehaviour (Emit (NotifyHandler p x))) \<in> set os}"

definition wire_log :: "'ss node_output list \<Rightarrow> 'ss wire_output set" where
  "wire_log os = {ob. NoWire ob \<in> set os}"

definition node_told ::
  "lib \<Rightarrow> peer_id \<Rightarrow> multiaddr \<Rightarrow> peer_id \<Rightarrow> 'ls transport_to_behaviour_event set \<Rightarrow>
     'ss node_output list \<Rightarrow> ('ss, 'ls, 'lr) endpoint_node \<Rightarrow> bool" where
  "node_told L me relay_addr relay A os n \<longleftrightarrow>
     wires_told L me (notices_in os) (wire_log os) (en_wires n) \<and>
     transport_asks me relay_addr relay A (en_transport n) \<and> behaviour_asks A (en_behaviour n) \<and>
     eb_peer_id (en_behaviour n) = me \<and> endpoint_ledger_inv (en_behaviour n) \<and>
     notices_in os \<subseteq> notice_from ` A \<and>
     (\<forall>p cid e. NoDelivered p cid e \<in> set os \<longrightarrow> backed me (notices_in os) (wire_log os) p e) \<and>
     (\<forall>sender c. NoSystem (OutBehaviour (Effect (Answer sender (Inr c)))) \<in> set os \<longrightarrow>
        (\<exists>p cid q. NoDelivered p cid (EoDialSuccess q c sender) \<in> set os))"

lemma notices_in_simps [simp]:
  "notices_in [] = {}" "notices_in (os @ os') = notices_in os \<union> notices_in os'"
  "notices_in (map NoWire ws) = {}" "notices_in (NoDelivered p cid e # os) = notices_in os"
  by (auto simp: notices_in_def)

lemma wire_log_simps [simp]:
  "wire_log [] = {}" "wire_log (os @ os') = wire_log os \<union> wire_log os'"
  "wire_log (map NoWire ws) = set ws" "wire_log (map NoSystem sos) = {}"
  "wire_log (NoDelivered p cid e # os) = wire_log os" "wire_log (map (NoSystem \<circ> OutBehaviour) bos) = {}"
  by (auto simp: wire_log_def)

lemma node_told_new:
  "node_told L me relay_addr relay A [] (endpoint_node_new me relay_addr relay)"
proof -
  have "endpoint_ledger_inv (endpoint_behaviour_new me [(relay, [])])"
    by (simp add: endpoint_ledger_inv_new)
  then show ?thesis
    using endpoint_wired_new [of L]
    by (simp add: node_told_def endpoint_node_new_def endpoint_transport_new_def wires_told_def
        wires_backed_def endpoint_wires_new_def tasks_backed_def transport_asks_def asked_def)
       (simp add: behaviour_asks_def endpoint_behaviour_new_def)
qed

lemma notices_behaviour:
  "(p, x) \<in> notices_in (map (NoSystem \<circ> OutBehaviour) os) \<longleftrightarrow> Emit (NotifyHandler p x) \<in> set os"
  by (auto simp: notices_in_def)

lemma set_notices: "set (concat (map notice_of os)) = notices_in (map NoSystem os)"
proof -
  have "(p, x) \<in> set (notice_of ob) \<longleftrightarrow> ob = OutBehaviour (Emit (NotifyHandler p x))" for p x and ob :: "'a system_output"
    by (cases ob rule: notice_of.cases) auto
  then show ?thesis
    by (auto simp: notices_in_def)
qed

text \<open>New notices join those on their way.\<close>

lemma add_notices_told:
  assumes "wires_told L me N log w"
  shows "wires_told L me (N \<union> notices_in (map NoSystem os)) log (add_notices os w)"
proof -
  let ?N = "N \<union> notices_in (map NoSystem os)"
  have "wires_backed me ?N log w" "\<forall>ob\<in>log. wire_log_ok L me ?N ob"
    using assms wires_backed_mono [of me N log w ?N log] wire_log_ok_mono [of L me N _ ?N]
    by (auto simp: wires_told_def)
  with assms show ?thesis
    by (auto simp: wires_told_def wires_backed_def add_notices_def endpoint_wired_def link_peers_def
        simp flip: set_notices)
qed

text \<open>What a step of the transport or the behaviour asks, notifies and answers.\<close>

lemma outside_told:
  assumes "system_step L cap lops lrops s i s' os" and "from_outside i"
    and tr: "transport_asks me relay_addr relay A (es_transport s)" and be: "behaviour_asks A (es_behaviour s)"
    and led: "endpoint_ledger_inv (es_behaviour s)"
    and "asked_events L me relay_addr relay (NiSystem i :: ('ss, 'ls, 'lr) node_input) \<subseteq> A"
  shows "transport_asks me relay_addr relay A (es_transport s') \<and> behaviour_asks A (es_behaviour s') \<and>
     eb_peer_id (es_behaviour s') = eb_peer_id (es_behaviour s) \<and>
     endpoint_ledger_inv (es_behaviour s') \<and>
     notices_in (map NoSystem os) \<subseteq> notice_from ` A \<and>
     (\<forall>sender c. OutBehaviour (Effect (Answer sender (Inr c))) \<notin> set os)"
proof -
  have ledger: "endpoint_ledger_inv (es_behaviour s')"
    using system_step_balance [OF assms(1) led] by simp
  have quiet: "endpoint_quiet (es_behaviour s)"
    using led by (simp add: endpoint_ledger_inv_def)
  from assms(1) show ?thesis
  proof (cases rule: system_step.cases)
    case (call i' t')
    with transport_call_asks [OF call(5,4) tr] assms(6) be ledger show ?thesis
      by simp
  next
    case (transport_poll q es t' ev)
    from tr have "transport_asks me relay_addr relay A ((es_transport s)\<lparr>et_from_behaviour := es\<rparr>)"
      by (simp add: transport_asks_def asked_def)
    from transport_poll_asks [OF transport_poll(6) this] transport_poll be ledger show ?thesis
      by (cases ev) (auto simp: notices_in_def behaviour_asks_def set_reports_def)
  next
    case (poll recv q b' os')
    have "e \<in> A" if "EbPoll recv = EbPoll (Ready (Some e))" for e
      using that poll(4) tr by (auto simp: transport_asks_def asked_def list_receiver_def split: list.splits)
    note step = endpoint_step_asks [OF poll(5) be quiet this]
    have "transport_asks me relay_addr relay A (es_transport s')"
      using tr poll by (auto simp: transport_asks_def asked_def list_receiver_def split: list.splits)
    with step poll ledger show ?thesis
      by (auto simp: notices_behaviour)
  next
    case (swarm e b' os')
    note step = endpoint_step_asks [OF swarm(4) be quiet]
    from step swarm ledger tr show ?thesis
      by (auto simp: notices_behaviour)
  qed (use assms(2) in simp_all)
qed

text \<open>What a step adds to the log, and what stays.\<close>

lemma node_told_extend:
  assumes told: "node_told L me relay_addr relay A os n"
    and "wires_told L me (notices_in (os @ os')) (wire_log (os @ os')) (en_wires n')"
    and "transport_asks me relay_addr relay A (en_transport n')"
    and "behaviour_asks A (en_behaviour n')" and "eb_peer_id (en_behaviour n') = me"
    and "endpoint_ledger_inv (en_behaviour n')" and "notices_in os' \<subseteq> notice_from ` A"
    and new: "\<And>p cid e. NoDelivered p cid e \<in> set os' \<Longrightarrow> backed me (notices_in os) (wire_log os) p e"
    and answers: "\<And>sender c. NoSystem (OutBehaviour (Effect (Answer sender (Inr c)))) \<in> set os' \<Longrightarrow>
      \<exists>p cid q. NoDelivered p cid (EoDialSuccess q c sender) \<in> set os'"
  shows "node_told L me relay_addr relay A (os @ os') n'"
proof -
  have "backed me (notices_in (os @ os')) (wire_log (os @ os')) p e"
    if "NoDelivered p cid e \<in> set (os @ os')" for p cid e
  proof (rule backed_mono)
    show "backed me (notices_in os) (wire_log os) p e"
      using that new told by (auto simp: node_told_def)
  qed simp_all
  moreover have "\<exists>p cid q. NoDelivered p cid (EoDialSuccess q c sender) \<in> set (os @ os')"
    if "NoSystem (OutBehaviour (Effect (Answer sender (Inr c)))) \<in> set (os @ os')" for sender c
  proof (cases "NoSystem (OutBehaviour (Effect (Answer sender (Inr c)))) \<in> set os'")
    case True
    from answers [OF this] show ?thesis by auto
  next
    case False
    with that have "NoSystem (OutBehaviour (Effect (Answer sender (Inr c)))) \<in> set os"
      by simp
    then have "\<exists>p cid q. NoDelivered p cid (EoDialSuccess q c sender) \<in> set os"
      using told unfolding node_told_def by blast
    then show ?thesis by auto
  qed
  moreover have "notices_in (os @ os') \<subseteq> notice_from ` A"
    using told assms(7) by (simp add: node_told_def)
  ultimately show ?thesis
    using assms(2-6) unfolding node_told_def by blast
qed

lemma node_step_told:
  assumes "node_step L cap lops lrops n i n' os'" and told: "node_told L me relay_addr relay A os n"
    and "asked_events L me relay_addr relay i \<subseteq> A"
  shows "node_told L me relay_addr relay A (os @ os') n'"
proof -
  let ?N = "notices_in os" and ?log = "wire_log os"
  have wired: "wires_told L me ?N ?log (en_wires n)"
    and sys: "transport_asks me relay_addr relay A (es_transport (node_system n))"
      "behaviour_asks A (es_behaviour (node_system n))" "endpoint_ledger_inv (es_behaviour (node_system n))"
    and nid: "eb_peer_id (en_behaviour n) = me"
    using told by (simp_all add: node_told_def node_system_def)
  from assms(1) show ?thesis
  proof (cases rule: node_step.cases)
    case (outside i' s sos)
    note step = outside_told [OF outside(5,4) sys assms(3) [unfolded outside(1)]]
    have "wires_told L me (?N \<union> notices_in (map NoSystem sos)) ?log (en_wires n')"
      using add_notices_told [OF wired] outside(2) by simp
    then show ?thesis
      by (intro node_told_extend [OF told])
         (use step outside(2,3) nid in \<open>auto simp: node_system_def\<close>)
  next
    case (opens cid p w wos)
    have "eih_local_peer_id (endpoint_new_handler (en_behaviour n)) = me"
      using nid by (simp add: endpoint_new_handler_def endpoint_into_handler_new_def)
    then have "wires_told L me ?N (?log \<union> set wos) w"
      by (intro wire_step_told [OF opens(4) wired]) auto
    then show ?thesis
      by (intro node_told_extend [OF told])
         (use sys nid opens(2,3) in \<open>auto simp: node_system_def\<close>)
  next
    case (wires i' w wos)
    have "wires_told L me ?N (?log \<union> set wos) w"
      by (rule wire_step_told [OF wires(5) wired]) (use wires(4) in auto)
    then show ?thesis
      by (intro node_told_extend [OF told])
         (use sys nid wires(2,3) in \<open>auto simp: node_system_def\<close>)
  next
    case (deliver w p cid e b bos)
    from wired deliver(4) have took: "wires_told L me ?N ?log w" "backed me ?N ?log p e"
      by (auto simp: wires_told_def wires_backed_def endpoint_wired_def link_peers_def split: list.splits)
    have quiet: "endpoint_quiet (en_behaviour n)"
      using sys by (simp add: node_system_def endpoint_ledger_inv_def)
    note step = endpoint_step_asks [OF deliver(5) sys(2) [unfolded node_system_def, simplified] quiet]
    have behaviour: "behaviour_asks A b" "eb_peer_id b = me" "endpoint_ledger_inv b"
      using step(1,2) endpoint_step_balance [OF _ deliver(5)] sys nid by (simp_all add: node_system_def)
    have "Emit (NotifyHandler q x) \<notin> set bos" for q x
      using deliver(5) by (auto split: prod.splits)
    then have silent: "notices_in (map (NoSystem \<circ> OutBehaviour) bos) = {}"
      by (auto simp only: notices_behaviour)
    have answers: "\<exists>p cid q. NoDelivered p cid (EoDialSuccess q c sender) \<in> set os'"
      if "NoSystem (OutBehaviour (Effect (Answer sender (Inr c)))) \<in> set os'" for sender c
    proof -
      from that have "Effect (Answer sender (Inr c)) \<in> set bos"
        unfolding deliver(3) by auto
      from step(4) [OF _ this] obtain q where "e = EoDialSuccess q c sender"
        by auto
      then show ?thesis
        unfolding deliver(3) by auto
    qed
    show ?thesis
      by (rule node_told_extend [OF told _ _ _ _ _ _ _ answers])
         (use took behaviour silent sys deliver(2,3) in \<open>auto simp: node_system_def\<close>)
  qed
qed

lemma node_run_told:
  assumes "node_run L cap lops lrops n is n' os" and "node_told L me relay_addr relay A [] n"
    and "\<Union> (asked_events L me relay_addr relay ` set is) \<subseteq> A"
  shows "node_told L me relay_addr relay A os n'"
  using assms
proof (induction rule: node_run.induct)
  case (node_more n "is" n1 os1 i n2 os2)
  with node_step_told [OF node_more.hyps(2), of me relay_addr relay A os1] show ?case
    by simp
qed

text \<open>A result and its tag.\<close>

lemma tagged_left: "Inr (Inl c) = map_sum id Inl r \<longleftrightarrow> r = Inr c"
  by (cases r) auto

lemma tagged_right: "Inr (Inr u) = map_sum id Inr r \<longleftrightarrow> r = Inr u"
  by (cases r) auto

text \<open>What the calls of a run ask for.\<close>

lemma asked_event_call:
  assumes "ev \<in> \<Union> (asked_events L me relay_addr relay ` set is)"
  obtains call where "NiSystem (SyCall call) \<in> set is" "ev \<in> call_events L me relay_addr relay call"
proof -
  from assms obtain i where "i \<in> set is" "ev \<in> asked_events L me relay_addr relay i"
    by auto
  then obtain call where "i = NiSystem (SyCall call)" "ev \<in> call_events L me relay_addr relay call"
    by (cases "(L, me, relay_addr, relay, i)" rule: asked_events.cases) auto
  with \<open>i \<in> set is\<close> that show ?thesis by blast
qed

lemma asked_dial:
  assumes "(p, EiDial dst a sender) \<in> notice_from ` \<Union> (asked_events L me relay_addr relay ` set is)"
  shows "p = relay \<and> NiSystem (SyCall (TiDial sender a)) \<in> set is \<and> peer_of_addr L a = Some dst"
proof -
  from assms obtain ev where ev: "ev \<in> \<Union> (asked_events L me relay_addr relay ` set is)"
    and n: "notice_from ev = (p, EiDial dst a sender)"
    by (metis imageE)
  from ev obtain call where "NiSystem (SyCall call) \<in> set is" "ev \<in> call_events L me relay_addr relay call"
    by (rule asked_event_call)
  with n show ?thesis
    by (cases call) (auto split: option.splits)
qed

lemma asked_listen:
  assumes "(p, EiListen lid q a) \<in> notice_from ` \<Union> (asked_events L me relay_addr relay ` set is)"
  shows "p = relay \<and> q = me \<and>
     (\<exists>conn_sender conn_receiver. NiSystem (SyCall (TiListenOn conn_sender conn_receiver lid a)) \<in> set is)"
proof -
  from assms obtain ev where ev: "ev \<in> \<Union> (asked_events L me relay_addr relay ` set is)"
    and n: "notice_from ev = (p, EiListen lid q a)"
    by (metis imageE)
  from ev obtain call where "NiSystem (SyCall call) \<in> set is" "ev \<in> call_events L me relay_addr relay call"
    by (rule asked_event_call)
  with n show ?thesis
    by (cases call) (auto split: option.splits)
qed

lemma node_run_new_told:
  "node_run L cap lops lrops (endpoint_node_new me relay_addr relay) is n os \<Longrightarrow>
     node_told L me relay_addr relay (\<Union> (asked_events L me relay_addr relay ` set is)) os n"
  by (erule node_run_told [OF _ node_told_new]) simp

text \<open>
  C4: An endpoint answers a dial with a connection only after the handshake for this very dial:
  when the application's dial gets a connection, the application has dialed an address that names a
  peer, and a dial upgrade for this peer and address, kept with the sender of this dial, has
  completed over a connection to the configured relay with exactly the connection that is handed out.
\<close>

theorem node_dial_answered:
  assumes "node_run L cap lops lrops (endpoint_node_new me relay_addr relay) is n os"
    and "NoSystem (OutBehaviour (Effect (Answer sender (Inr c)))) \<in> set os"
  shows "\<exists>dst a tr. NiSystem (SyCall (TiDial sender a)) \<in> set is \<and> peer_of_addr L a = Some dst \<and>
     NoWire (WoDialed relay (OutDial dst a) (InfoDial sender) tr (Inr (Inl c))) \<in> set os \<and>
     completes (endpoint_dial_upgrade L dst a) tr (Inr (Inr c))"
proof -
  note told = node_run_new_told [OF assms(1)]
  from told assms(2) obtain p cid q where "NoDelivered p cid (EoDialSuccess q c sender) \<in> set os"
    unfolding node_told_def by blast
  with told have "backed me (notices_in os) (wire_log os) p (EoDialSuccess q c sender)"
    unfolding node_told_def by blast
  then obtain dst a tr where
    log: "WoDialed p (OutDial dst a) (InfoDial sender) tr (Inr (Inl c)) \<in> wire_log os"
    by auto
  with told have ok: "wire_log_ok L me (notices_in os)
      (WoDialed p (OutDial dst a) (InfoDial sender) tr (Inr (Inl c)))"
    unfolding node_told_def wires_told_def by blast
  then have "(p, EiDial dst a sender) \<in> notices_in os"
    by simp
  with told have "(p, EiDial dst a sender) \<in> notice_from ` \<Union> (asked_events L me relay_addr relay ` set is)"
    unfolding node_told_def by blast
  from asked_dial [OF this] have "p = relay" "NiSystem (SyCall (TiDial sender a)) \<in> set is"
    "peer_of_addr L a = Some dst"
    by simp_all
  moreover have "completes (endpoint_dial_upgrade L dst a) tr (Inr (Inr c))"
    using ok by (auto simp: tagged_left)
  ultimately show ?thesis
    using log by (auto simp: wire_log_def)
qed

text \<open>
  C9: Every connection that a handler reports for a listener comes from an upgrade that ran: in this
  run an inbound upgrade on a substream of the handler's connection has finished, in which the peer
  sent a connect request that parses and names this endpoint and the address that the connection is
  for, the success response was sent and flushed without an error, and then the substream was taken
  over. The connection carries the dialer's address from the request and the bytes read past it.
\<close>

theorem node_connections_accepted:
  assumes "node_run L cap lops lrops (endpoint_node_new me relay_addr relay) is n os"
    and "NoDelivered p cid (EoNewConnection q a c) \<in> set os"
  shows "q = p \<and> (\<exists>req d buf ss.
     NoWire (WoAccepted p (endpoint_inbound_new me (Some p))
       [EvNext (Inr (Some req)), EvSend (Some PbConnectSuccess) (Inr ()), EvFlush (Inr ()), EvParts (buf, ss)]
       (Inr \<lparr>io_listen_peer_id = me, io_listen_addr = a, io_relay_peer_id = p, io_connection = c\<rparr>)) \<in> set os \<and>
     parse_peer L (con_dst_peer_id req) = Inr me \<and> parse_multiaddr L (con_dst_addr req) = Inr a \<and>
     parse_multiaddr L (con_dialer_addr req) = Inr d \<and> c = new_connection d buf ss)"
proof -
  note told = node_run_new_told [OF assms(1)]
  with assms(2) have "backed me (notices_in os) (wire_log os) p (EoNewConnection q a c)"
    unfolding node_told_def by blast
  then obtain tr out where q: "q = p" and out: "io_listen_addr out = a" "io_connection out = c"
    and log: "WoAccepted p (endpoint_inbound_new me (Some p)) tr (Inr out) \<in> wire_log os"
    by auto
  with told have "wire_log_ok L me (notices_in os) (WoAccepted p (endpoint_inbound_new me (Some p)) tr (Inr out))"
    unfolding node_told_def wires_told_def by blast
  then obtain req d buf ss where
    tr: "tr = [EvNext (Inr (Some req)), EvSend (Some PbConnectSuccess) (Inr ()), EvFlush (Inr ()), EvParts (buf, ss)]"
    and p: "parse_peer L (con_dst_peer_id req) = Inr me" "parse_multiaddr L (con_dst_addr req) = Inr a"
      "parse_multiaddr L (con_dialer_addr req) = Inr d"
    and o: "out = \<lparr>io_listen_peer_id = me, io_listen_addr = a, io_relay_peer_id = p, io_connection = c\<rparr>"
    and c: "c = new_connection d buf ss"
    using out unfolding endpoint_inbound_new_def
    by (simp add: endpoint_inbound_simps) (elim exE disjE conjE; fastforce)
  from log p c q show ?thesis
    unfolding tr o wire_log_def by blast
qed

text \<open>
  C17: A listen is reported as granted only when it was: the application has called \<open>listen_on\<close> with
  this id and address, and a listen upgrade that announced this endpoint, and no other peer, at this
  address has completed over a connection to the configured relay.
\<close>

theorem node_listens_granted:
  assumes "node_run L cap lops lrops (endpoint_node_new me relay_addr relay) is n os"
    and "NoDelivered p cid (EoListenSuccess q lid r a) \<in> set os"
  shows "q = relay \<and> r = me \<and>
     (\<exists>conn_sender conn_receiver. NiSystem (SyCall (TiListenOn conn_sender conn_receiver lid a)) \<in> set is) \<and>
     (\<exists>tr. NoWire (WoListened relay (OutListen me a) (InfoListen lid me a) tr (Inr (Inr ()))) \<in> set os \<and>
        completes (endpoint_listen_upgrade L me a) tr (Inr (Inr ())))"
proof -
  note told = node_run_new_told [OF assms(1)]
  with assms(2) have "backed me (notices_in os) (wire_log os) p (EoListenSuccess q lid r a)"
    unfolding node_told_def by blast
  then obtain tr where q: "q = p"
    and log: "WoListened p (OutListen r a) (InfoListen lid r a) tr (Inr (Inr ())) \<in> wire_log os"
    by auto
  with told have ok: "wire_log_ok L me (notices_in os)
      (WoListened p (OutListen r a) (InfoListen lid r a) tr (Inr (Inr ())))"
    unfolding node_told_def wires_told_def by blast
  then have "(p, EiListen lid r a) \<in> notices_in os"
    by simp
  with told have "(p, EiListen lid r a) \<in> notice_from ` \<Union> (asked_events L me relay_addr relay ` set is)"
    unfolding node_told_def by blast
  from asked_listen [OF this] have "p = relay" "r = me"
    "\<exists>conn_sender conn_receiver. NiSystem (SyCall (TiListenOn conn_sender conn_receiver lid a)) \<in> set is"
    by simp_all
  moreover have "completes (endpoint_listen_upgrade L r a) tr (Inr (Inr ()))"
    using ok by (auto simp: tagged_right)
  ultimately show ?thesis
    using log q by (auto simp: wire_log_def)
qed

end
