(* ===== verification/Endpoint_Runs.thy ===== *)
theory Endpoint_Runs
  imports Endpoint_Outcomes Handshake
begin

text \<open>
  A run of the whole endpoint, for evaluation, and that it never gets stuck. The run takes the listen
  and the dial of \<open>Endpoint_System\<close> through the handlers: the listen is announced and granted, the
  dial is made and answered with a connection, and a connection from the relay is accepted.
\<close>

section \<open>Putting runs together\<close>

definition node_of :: "('ss, 'ls, 'lr) endpoint_system \<Rightarrow> 'ss endpoint_wires \<Rightarrow> ('ss, 'ls, 'lr) endpoint_node" where
  "node_of s w = \<lparr>en_transport = es_transport s, en_behaviour = es_behaviour s, en_wires = w\<rparr>"

lemma node_of_simps [simp]:
  "en_transport (node_of s w) = es_transport s" "en_behaviour (node_of s w) = es_behaviour s"
  "en_wires (node_of s w) = w" "(node_of s w)\<lparr>en_wires := w'\<rparr> = node_of s w'"
  by (simp_all add: node_of_def)

lemma node_system_of: "es_lent s = wires_lent w \<Longrightarrow> node_system (node_of s w) = s"
  by (simp add: node_system_def)

lemma node_run_trans:
  assumes "node_run L cap lops lrops n is n1 os1" and "node_run L cap lops lrops n1 js n2 os2"
  shows "node_run L cap lops lrops n (is @ js) n2 (os1 @ os2)"
  using assms(2,1)
proof (induction rule: node_run.induct)
  case (node_more m js m1 os2 j m2 os3)
  from node_run.node_more [OF node_more.IH [OF node_more.prems] node_more.hyps(2)] show ?case
    by simp
qed simp

lemma node_run_step: "node_step L cap lops lrops n i n' os \<Longrightarrow> node_run L cap lops lrops n [i] n' os"
  using node_more [OF node_stop] by fastforce

lemma node_run_outside:
  assumes "system_step L cap lops lrops s i s' os" and "from_outside i" and "es_lent s = wires_lent w"
  shows "node_run L cap lops lrops (node_of s w) [NiSystem i] (node_of s' (add_notices os w)) (map NoSystem os)"
proof -
  have "system_step L cap lops lrops (node_system (node_of s w)) i s' os"
    using assms(1) by (simp only: node_system_of [OF assms(3)])
  from node_step.outside [OF assms(2) this] show ?thesis
    by (intro node_run_step) (simp add: node_of_def)
qed

lemma node_run_wires:
  "run (wire_step L) ws w = Inr (w', os) \<Longrightarrow> list_all among_wires ws \<Longrightarrow>
     node_run L cap lops lrops (node_of s w) (map NiWire ws) (node_of s w') (map NoWire os)"
proof (induction ws arbitrary: w os)
  case Nil
  then show ?case by (simp add: node_stop)
next
  case (Cons i ws)
  from run_Cons_Inr [OF Cons.prems(1)] obtain w1 os1 os2 where
    st: "wire_step L i w = Inr (w1, os1)" and r: "run (wire_step L) ws w1 = Inr (w', os2)" and os: "os = os1 @ os2"
    by blast
  have "node_step L cap lops lrops (node_of s w) (NiWire i) (node_of s w1) (map NoWire os1)"
    using node_step.wires [of i L "node_of s w" w1 os1] st Cons.prems(2) by simp
  from node_run_trans [OF node_run_step [OF this] Cons.IH [OF r]] Cons.prems(2) os show ?case
    by simp
qed

lemma node_run_deliver:
  assumes "ew_events w = (p, cid, e) # evs"
    and "endpoint_step L lops (bounded_ops cap) (EbHandler p cid e) (es_behaviour s) = Inr (b, os)"
  shows "node_run L cap lops lrops (node_of s w) [NiDeliver]
     (node_of (s\<lparr>es_behaviour := b\<rparr>) (w\<lparr>ew_events := evs\<rparr>)) (NoDelivered p cid e # map (NoSystem \<circ> OutBehaviour) os)"
proof -
  have "wire_step L WiTake w = Inr (w\<lparr>ew_events := evs\<rparr>, [WoEvent p cid e])"
    using assms(1) by simp
  with node_step.deliver [of L "node_of s w" _ p cid e lops cap b os lrops] assms(2) show ?thesis
    by (intro node_run_step) (simp add: node_of_def)
qed

section \<open>The example\<close>

definition example_wires ::
  "(peer_id \<times> endpoint_in_event) list \<Rightarrow> (peer_id \<times> connection_id \<times> bytes endpoint_out_event) list \<Rightarrow>
     bytes endpoint_wires" where
  "example_wires notices evs =
     \<lparr>ew_links = [(ConnectionId 4, \<lparr>ek_peer = PeerId [9],
        ek_handler = endpoint_into_handler (endpoint_into_handler_new (PeerId [1])) (PeerId [9])\<rparr>)],
      ew_tasks = [], ew_notices = notices, ew_events = evs\<rparr>"

definition example_wires_listen :: "bytes wire_input list" where
  "example_wires_listen =
     [WiNotify (ConnectionId 4), WiHandlerPoll (ConnectionId 4) 0,
      WiListenAwait 0 (EvSend \<lparr>req_listen_peer_id = show_peer raw_lib (PeerId [1]),
        req_listen_addr = show_addr raw_lib (Multiaddr [1])\<rparr> (Inr ())),
      WiListenAwait 0 (EvNext (Inr (Some (Some PbListenSuccess)))),
      WiFinish 0 [], WiHandlerPoll (ConnectionId 4) 0]"

definition example_wires_dial :: "bytes wire_input list" where
  "example_wires_dial =
     [WiNotify (ConnectionId 4), WiHandlerPoll (ConnectionId 4) 1] @
     map (WiDialAwait 1) dial_trace1 @
     [WiFinish 1 [], WiHandlerPoll (ConnectionId 4) 1]"

definition example_accept_trace :: "(pb_connect_request, pb_connect_response, bytes) ev list" where
  "example_accept_trace = [EvNext (Inr (Some \<lparr>con_dst_addr = show_addr raw_lib (Multiaddr [1]),
     con_dst_peer_id = show_peer raw_lib (PeerId [1]),
     con_dialer_addr = show_addr raw_lib (Multiaddr [3])\<rparr>)),
     EvSend (Some PbConnectSuccess) (Inr ()), EvFlush (Inr ()), EvParts ([], [43])]"

definition example_wires_accept :: "bytes wire_input list" where
  "example_wires_accept =
     WiInbound (ConnectionId 4) 2 # map (WiConnectAwait 2) example_accept_trace @
     [WiFinish 2 [], WiHandlerPoll (ConnectionId 4) 2]"

abbreviation example_notice_listen :: "peer_id \<times> endpoint_in_event" where
  "example_notice_listen \<equiv> (PeerId [9], EiListen (ListenerId 1) (PeerId [1]) (Multiaddr [1]))"

abbreviation example_notice_dial :: "peer_id \<times> endpoint_in_event" where
  "example_notice_dial \<equiv> (PeerId [9], EiDial (PeerId [7]) (Multiaddr [7, 1]) (Oneshot 1))"

abbreviation example_connection :: "bytes connection" where
  "example_connection \<equiv> new_connection (Multiaddr [7, 1]) [] []"

abbreviation example_accepted :: "bytes connection" where
  "example_accepted \<equiv> new_connection (Multiaddr [3]) [] [43]"

abbreviation example_granted :: "bytes endpoint_out_event" where
  "example_granted \<equiv> EoListenSuccess (PeerId [9]) (ListenerId 1) (PeerId [1]) (Multiaddr [1])"

abbreviation example_dialed :: "bytes endpoint_out_event" where
  "example_dialed \<equiv> EoDialSuccess (PeerId [9]) example_connection (Oneshot 1)"

abbreviation example_arrived :: "bytes endpoint_out_event" where
  "example_arrived \<equiv> EoNewConnection (PeerId [9]) (Multiaddr [1]) example_accepted"

abbreviation example_dial_log :: "bytes wire_output" where
  "example_dial_log \<equiv> WoDialed (PeerId [9]) (OutDial (PeerId [7]) (Multiaddr [7, 1])) (InfoDial (Oneshot 1))
     dial_trace1 (Inr (Inl example_connection))"

text \<open>The result of a run in which no upgrade is left, so that it can be evaluated.\<close>

definition wires_end ::
  "panic + 'ss endpoint_wires \<times> 'ss wire_output list \<Rightarrow> 'ss endpoint_wires \<Rightarrow> 'ss wire_output list \<Rightarrow> bool" where
  "wires_end r w os =
     (case r of
        Inl p \<Rightarrow> False
      | Inr (w', os') \<Rightarrow> ew_links w' = ew_links w \<and> ew_notices w' = ew_notices w \<and> ew_events w' = ew_events w \<and>
          (case ew_tasks w' of [] \<Rightarrow> True | t # ts \<Rightarrow> False) \<and> os' = os)"

lemma wires_end: "wires_end r (example_wires notices evs) os \<Longrightarrow> r = Inr (example_wires notices evs, os)"
  by (auto simp: wires_end_def example_wires_def split: sum.splits prod.splits list.splits)

abbreviation example_listen_log :: "bytes wire_output" where
  "example_listen_log \<equiv> WoListened (PeerId [9]) (OutListen (PeerId [1]) (Multiaddr [1]))
     (InfoListen (ListenerId 1) (PeerId [1]) (Multiaddr [1]))
     [EvSend \<lparr>req_listen_peer_id = show_peer raw_lib (PeerId [1]),
       req_listen_addr = show_addr raw_lib (Multiaddr [1])\<rparr> (Inr ()), EvNext (Inr (Some (Some PbListenSuccess)))]
     (Inr (Inr ()))"

abbreviation example_accept_log :: "bytes wire_output" where
  "example_accept_log \<equiv> WoAccepted (PeerId [9]) (endpoint_inbound_new (PeerId [1]) (Some (PeerId [9])))
     example_accept_trace (Inr \<lparr>io_listen_peer_id = PeerId [1], io_listen_addr = Multiaddr [1],
       io_relay_peer_id = PeerId [9], io_connection = example_accepted\<rparr>)"

lemma example_wires_listens:
  "run (wire_step raw_lib) example_wires_listen (example_wires [example_notice_listen] []) =
     Inr (example_wires [] [(PeerId [9], ConnectionId 4, example_granted)], [example_listen_log])"
  by (rule wires_end) code_simp

lemma example_wires_dials:
  "run (wire_step raw_lib) example_wires_dial (example_wires [example_notice_dial] []) =
     Inr (example_wires [] [(PeerId [9], ConnectionId 4, example_dialed)], [example_dial_log])"
  by (rule wires_end) code_simp

lemma example_wires_accepts:
  "run (wire_step raw_lib) example_wires_accept (example_wires [] []) =
     Inr (example_wires [] [(PeerId [9], ConnectionId 4, example_arrived)], [example_accept_log])"
  by (rule wires_end) code_simp

abbreviation example_node ::
  "(bytes, example_channel, example_channel) endpoint_system \<Rightarrow> bytes endpoint_wires \<Rightarrow>
     (bytes, example_channel, example_channel) endpoint_node" where
  "example_node \<equiv> node_of"

abbreviation example_run ::
  "(bytes, example_channel, example_channel) endpoint_node \<Rightarrow>
     (bytes, example_channel, example_channel) node_input list \<Rightarrow>
     (bytes, example_channel, example_channel) endpoint_node \<Rightarrow> bytes node_output list \<Rightarrow> bool" where
  "example_run \<equiv> node_run raw_lib 1 open_ops list_receiver"

lemma example_system_lent [simp]: "es_lent (example_system pending channel b lent) = lent"
  by (simp add: example_system_def)

lemma example_wires_lent [simp]:
  "wires_lent (example_wires notices []) = mset (map (notice_info \<circ> snd) notices)"
  by (simp add: wires_lent_def example_wires_def link_infos_def endpoint_into_handler_def)

lemma example_wires_new_lent [simp]: "wires_lent endpoint_wires_new = {#}"
  by (simp add: wires_lent_def endpoint_wires_new_def)

lemma example_add_notices:
  "add_notices [] w = w" "add_notices [OutBehaviour (Effect e)] w = w" "add_notices [OutTransport ev] w = w"
  "add_notices [OutBehaviour (Emit (DialPeer p addrs h))] w = w"
  "add_notices [OutBehaviour (Emit (NotifyHandler p x))] (example_wires notices evs) =
     example_wires (notices @ [(p, x)]) evs"
  by (simp_all add: add_notices_def example_wires_def)

lemma example_deliver:
  assumes "endpoint_step raw_lib open_ops (bounded_ops 1) (EbHandler p cid e) b = Inr (b', os)"
  shows "example_run (example_node (example_system pending channel b lent) (example_wires [] [(p, cid, e)]))
     [NiDeliver] (example_node (example_system pending channel b' lent') (example_wires [] []))
     (NoDelivered p cid e # map (NoSystem \<circ> OutBehaviour) os)"
  using node_run_deliver [of "example_wires [] [(p, cid, e)]" p cid e "[]" raw_lib open_ops 1
      "example_system pending channel b lent" b' os list_receiver] assms
  by (simp add: example_wires_def example_system_def node_of_def)

lemma example_opens:
  "example_run (example_node (example_system [] [] (example_connected\<lparr>eb_pending_t2b := evs\<rparr>) {#}) endpoint_wires_new)
     [NiOpen (ConnectionId 4) (PeerId [9])]
     (example_node (example_system [] [] (example_connected\<lparr>eb_pending_t2b := evs\<rparr>) {#}) (example_wires [] [])) []"
proof -
  let ?n = "example_node (example_system [] [] (example_connected\<lparr>eb_pending_t2b := evs\<rparr>) {#}) endpoint_wires_new"
  have "wire_step raw_lib (WiOpen (ConnectionId 4) (PeerId [9]) (endpoint_new_handler (en_behaviour ?n))) (en_wires ?n) =
      Inr (example_wires [] [], [])"
    by (simp add: example_wires_def endpoint_wires_new_def example_system_def endpoint_new_handler_def
        endpoint_behaviour_new_def)
  from node_run_step [OF node_step.opens [OF this]] show ?thesis
    by simp
qed

lemma example_outside:
  assumes "system_step raw_lib 1 open_ops list_receiver s i s' os" and "from_outside i" and "es_lent s = wires_lent w"
    and "add_notices os w = w'"
  shows "example_run (example_node s w) [NiSystem i] (example_node s' w') (map NoSystem os)"
  using node_run_outside [OF assms(1-3)] assms(4) by simp

text \<open>The listen, up to the report to the application.\<close>

definition example_node_listen :: "(bytes, example_channel, example_channel) node_input list" where
  "example_node_listen =
     [NiSystem (SyCall (TiListenOn [] [] (ListenerId 1) (Multiaddr [1])))] @ [NiSystem (SyCall TiPoll)] @
     [NiSystem SyPoll] @
     [NiSystem (SySwarm (ConnectionEstablished (PeerId [9]) (ConnectionId 4) (Multiaddr [9])))] @
     [NiOpen (ConnectionId 4) (PeerId [9])] @ [NiSystem SyPoll] @ map NiWire example_wires_listen @
     [NiDeliver] @ [NiSystem SyPoll] @ [NiSystem (SyCall TiPoll)]"

lemma example_node_listens:
  "\<exists>os. example_run (endpoint_node_new (PeerId [1]) (Multiaddr [9]) (PeerId [9])) example_node_listen
     (example_node (example_system [] [] example_listening {#}) (example_wires [] [])) os \<and>
   NoDelivered (PeerId [9]) (ConnectionId 4) example_granted \<in> set os"
proof -
  have new: "endpoint_node_new (PeerId [1]) (Multiaddr [9]) (PeerId [9]) =
      example_node (endpoint_system_new (PeerId [1]) (Multiaddr [9]) (PeerId [9])) endpoint_wires_new"
    by (simp add: node_of_def endpoint_node_new_def endpoint_system_new_def endpoint_transport_new_def)
  have listen: "example_run (example_node (example_system [] [] example_listening {#example_info#})
        (example_wires [example_notice_listen] [])) (map NiWire example_wires_listen)
      (example_node (example_system [] [] example_listening {#example_info#})
        (example_wires [] [(PeerId [9], ConnectionId 4, example_granted)])) (map NoWire [example_listen_log])"
    by (rule node_run_wires [OF example_wires_listens]) (simp add: example_wires_listen_def)
  have "endpoint_step raw_lib open_ops (bounded_ops 1) (EbHandler (PeerId [9]) (ConnectionId 4) example_granted)
      example_listening = Inr (example_listening\<lparr>eb_pending_to_transport := [(PeerId [9], [example_success])]\<rparr>, [Effect Wake])"
    by (simp add: example_simps)
  note granted = example_deliver [OF this, of "[]" "[]" "{#example_info#}" "{#}"]
  let ?new = "endpoint_wires_new :: bytes endpoint_wires" and ?quiet = "example_wires [] []"
  note runs = node_run_trans [OF example_outside [OF example_step1, where w = ?new and w' = ?new]
      node_run_trans [OF example_outside [OF example_step2, where w = ?new and w' = ?new]
      node_run_trans [OF example_outside [OF example_step3, where w = ?new and w' = ?new]
      node_run_trans [OF example_outside [OF example_step4, where w = ?new and w' = ?new]
      node_run_trans [OF example_opens
      node_run_trans [OF example_outside [OF example_step5, where w = ?quiet and w' = "example_wires [example_notice_listen] []"]
      node_run_trans [OF listen node_run_trans [OF granted
      node_run_trans [OF example_outside [OF example_step7, where w = ?quiet and w' = ?quiet]
      example_outside [OF example_step8, where w = ?quiet and w' = ?quiet]]]]]]]]]]
  show ?thesis
    unfolding new example_node_listen_def
    by (rule exI, rule conjI, rule runs) (simp_all add: example_add_notices)
qed

text \<open>The dial, up to its answer.\<close>

definition example_node_dial :: "(bytes, example_channel, example_channel) node_input list" where
  "example_node_dial =
     [NiSystem (SyCall (TiDial (Oneshot 1) (Multiaddr [7, 1])))] @ [NiSystem (SyCall TiPoll)] @
     [NiSystem SyPoll] @ map NiWire example_wires_dial @ [NiDeliver]"

lemma example_node_dials:
  "\<exists>os. example_run (example_node (example_system [] [] example_listening {#}) (example_wires [] []))
     example_node_dial
     (example_node (example_system [] [] example_listening {#}) (example_wires [] [])) os \<and>
   NoWire example_dial_log \<in> set os \<and>
   NoSystem (OutBehaviour (Effect (Answer (Oneshot 1) (Inr example_connection)))) \<in> set os"
proof -
  let ?lent = "{#InfoDial (Oneshot 1)#}"
  have dial: "example_run (example_node (example_system [] [] example_listening ?lent)
        (example_wires [example_notice_dial] [])) (map NiWire example_wires_dial)
      (example_node (example_system [] [] example_listening ?lent)
        (example_wires [] [(PeerId [9], ConnectionId 4, example_dialed)])) (map NoWire [example_dial_log])"
    by (rule node_run_wires [OF example_wires_dials]) (simp add: example_wires_dial_def dial_trace1_def)
  have "endpoint_step raw_lib open_ops (bounded_ops 1) (EbHandler (PeerId [9]) (ConnectionId 4) example_dialed)
      example_listening = Inr (example_listening, [Effect (Answer (Oneshot 1) (Inr example_connection))])"
    by (simp add: example_simps)
  note answered = example_deliver [OF this, of "[]" "[]" ?lent "{#}"]
  let ?quiet = "example_wires [] []"
  note runs = node_run_trans [OF example_outside [OF example_step9, where w = ?quiet and w' = ?quiet]
      node_run_trans [OF example_outside [OF example_step10, where w = ?quiet and w' = ?quiet]
      node_run_trans [OF example_outside [OF example_step11, where w = ?quiet and w' = "example_wires [example_notice_dial] []"]
      node_run_trans [OF dial answered]]]]
  show ?thesis
    unfolding example_node_dial_def
    by (rule exI, rule conjI, rule runs) (simp_all add: example_add_notices)
qed

definition example_node_dialed :: "(bytes, example_channel, example_channel) node_input list" where
  "example_node_dialed = example_node_listen @ example_node_dial"

text \<open>A connection that the relay asks for, up to the behaviour's queue.\<close>

definition example_node_accept :: "(bytes, example_channel, example_channel) node_input list" where
  "example_node_accept = map NiWire example_wires_accept @ [NiDeliver]"

abbreviation example_queued ::
  "(bytes, example_channel, behaviour_to_transport_event list) endpoint_behaviour" where
  "example_queued \<equiv> example_listening\<lparr>eb_pending_new_connections := [\<lparr>nc_listen_addr = Multiaddr [1],
     nc_relay_peer_id = PeerId [9], nc_connection = example_accepted\<rparr>]\<rparr>"

lemma example_node_accepts:
  "\<exists>os. example_run (example_node (example_system [] [] example_listening {#}) (example_wires [] []))
     example_node_accept
     (example_node (example_system [] [] example_queued {#}) (example_wires [] [])) os \<and>
   NoDelivered (PeerId [9]) (ConnectionId 4) example_arrived \<in> set os"
proof -
  have accept: "example_run (example_node (example_system [] [] example_listening {#}) (example_wires [] []))
      (map NiWire example_wires_accept)
      (example_node (example_system [] [] example_listening {#})
        (example_wires [] [(PeerId [9], ConnectionId 4, example_arrived)])) (map NoWire [example_accept_log])"
    by (rule node_run_wires [OF example_wires_accepts]) (simp add: example_wires_accept_def example_accept_trace_def)
  have "endpoint_step raw_lib open_ops (bounded_ops 1) (EbHandler (PeerId [9]) (ConnectionId 4) example_arrived)
      example_listening = Inr (example_queued, [Effect Wake])"
    by (simp add: example_simps)
  from node_run_trans [OF accept example_deliver [OF this]] show ?thesis
    unfolding example_node_accept_def by (intro exI conjI) (assumption, simp)
qed

definition example_node_inputs :: "(bytes, example_channel, example_channel) node_input list" where
  "example_node_inputs = example_node_listen @ example_node_dial @ example_node_accept"

lemma example_node_run:
  obtains os where
    "example_run (endpoint_node_new (PeerId [1]) (Multiaddr [9]) (PeerId [9])) example_node_inputs
       (example_node (example_system [] [] example_queued {#}) (example_wires [] [])) os"
    "NoDelivered (PeerId [9]) (ConnectionId 4) example_granted \<in> set os"
    "NoWire example_dial_log \<in> set os"
    "NoSystem (OutBehaviour (Effect (Answer (Oneshot 1) (Inr example_connection)))) \<in> set os"
    "NoDelivered (PeerId [9]) (ConnectionId 4) example_arrived \<in> set os"
proof -
  from example_node_listens example_node_dials example_node_accepts obtain os1 os2 os3 where
    r: "example_run (endpoint_node_new (PeerId [1]) (Multiaddr [9]) (PeerId [9])) example_node_listen
       (example_node (example_system [] [] example_listening {#}) (example_wires [] [])) os1"
      "example_run (example_node (example_system [] [] example_listening {#}) (example_wires [] []))
       example_node_dial
       (example_node (example_system [] [] example_listening {#}) (example_wires [] [])) os2"
      "example_run (example_node (example_system [] [] example_listening {#}) (example_wires [] []))
       example_node_accept
       (example_node (example_system [] [] example_queued {#}) (example_wires [] [])) os3"
    and os: "NoDelivered (PeerId [9]) (ConnectionId 4) example_granted \<in> set os1"
      "NoWire example_dial_log \<in> set os2"
      "NoSystem (OutBehaviour (Effect (Answer (Oneshot 1) (Inr example_connection)))) \<in> set os2"
      "NoDelivered (PeerId [9]) (ConnectionId 4) example_arrived \<in> set os3"
    by blast
  show ?thesis
    by (rule that [OF node_run_trans [OF r(1) node_run_trans [OF r(2,3)], folded example_node_inputs_def]])
       (use os in simp_all)
qed

section \<open>The example, through the theorems\<close>

theorem node_dial_answered_witness:
  "\<exists>dst a tr. NiSystem (SyCall (TiDial (Oneshot 1) a)) \<in> set example_node_inputs \<and>
     peer_of_addr raw_lib a = Some dst \<and>
     completes (endpoint_dial_upgrade raw_lib dst a) tr (Inr (Inr example_connection))"
proof -
  obtain os where
    r: "example_run (endpoint_node_new (PeerId [1]) (Multiaddr [9]) (PeerId [9])) example_node_inputs
       (example_node (example_system [] [] example_queued {#}) (example_wires [] [])) os"
    and a: "NoSystem (OutBehaviour (Effect (Answer (Oneshot 1) (Inr example_connection)))) \<in> set os"
    by (rule example_node_run)
  from node_dial_answered [OF r a] show ?thesis by blast
qed

theorem node_connections_accepted_witness:
  "\<exists>(req :: pb_connect_request) d buf ss. parse_peer raw_lib (con_dst_peer_id req) = Inr (PeerId [1]) \<and>
     parse_multiaddr raw_lib (con_dst_addr req) = Inr (Multiaddr [1]) \<and>
     parse_multiaddr raw_lib (con_dialer_addr req) = Inr d \<and> example_accepted = new_connection d buf ss"
proof -
  obtain os where
    r: "example_run (endpoint_node_new (PeerId [1]) (Multiaddr [9]) (PeerId [9])) example_node_inputs
       (example_node (example_system [] [] example_queued {#}) (example_wires [] [])) os"
    and a: "NoDelivered (PeerId [9]) (ConnectionId 4) example_arrived \<in> set os"
    by (rule example_node_run)
  from node_connections_accepted [OF r a] show ?thesis by blast
qed

theorem node_listens_granted_witness:
  "\<exists>conn_sender conn_receiver tr.
     NiSystem (SyCall (TiListenOn conn_sender conn_receiver (ListenerId 1) (Multiaddr [1]))) \<in> set example_node_inputs \<and>
     completes (endpoint_listen_upgrade raw_lib (PeerId [1]) (Multiaddr [1])) (tr :: (_, _, bytes) ev list) (Inr (Inr ()))"
proof -
  obtain os where
    r: "example_run (endpoint_node_new (PeerId [1]) (Multiaddr [9]) (PeerId [9])) example_node_inputs
       (example_node (example_system [] [] example_queued {#}) (example_wires [] [])) os"
    and a: "NoDelivered (PeerId [9]) (ConnectionId 4) example_granted \<in> set os"
    by (rule example_node_run)
  from node_listens_granted [OF r a] show ?thesis by blast
qed

theorem node_refines_system_witness:
  "\<exists>js s os. system_run raw_lib 1 open_ops list_receiver
       (endpoint_system_new (PeerId [1]) (Multiaddr [9]) (PeerId [9])) js s os \<and>
     filter from_outside js = concat (map outside_view example_node_inputs)"
proof -
  obtain os where
    r: "example_run (endpoint_node_new (PeerId [1]) (Multiaddr [9]) (PeerId [9])) example_node_inputs
       (example_node (example_system [] [] example_queued {#}) (example_wires [] [])) os"
    by (rule example_node_run)
  from node_refines_system [OF r] show ?thesis by blast
qed

theorem node_dials_conserved_witness:
  "\<exists>os. example_run (endpoint_node_new (PeerId [1]) (Multiaddr [9]) (PeerId [9])) example_node_dialed
       (example_node (example_system [] [] example_listening {#}) (example_wires [] [])) os \<and>
     sum_list (map settles (concat (map system_view os))) = {#Oneshot 1#}"
proof -
  from example_node_listens example_node_dials obtain os1 os2 where
    "example_run (endpoint_node_new (PeerId [1]) (Multiaddr [9]) (PeerId [9])) example_node_listen
       (example_node (example_system [] [] example_listening {#}) (example_wires [] [])) os1"
    "example_run (example_node (example_system [] [] example_listening {#}) (example_wires [] []))
       example_node_dial
       (example_node (example_system [] [] example_listening {#}) (example_wires [] [])) os2"
    by blast
  from node_run_trans [OF this, folded example_node_dialed_def]
  have r: "example_run (endpoint_node_new (PeerId [1]) (Multiaddr [9]) (PeerId [9])) example_node_dialed
      (example_node (example_system [] [] example_listening {#}) (example_wires [] [])) (os1 @ os2)" .
  have "sum_list (map (dialed raw_lib) (concat (map outside_view example_node_dialed))) = {#Oneshot 1#}"
    by code_simp
  with node_dials_conserved [OF r] have "sum_list (map settles (concat (map system_view (os1 @ os2)))) = {#Oneshot 1#}"
    by (simp add: example_system_def endpoint_behaviour_new_def)
  with r show ?thesis by blast
qed

section \<open>The whole endpoint never gets stuck\<close>

text \<open>Connections are opened to the relay only: then every handler, and every event, is the relay's.\<close>

fun opens_to :: "peer_id \<Rightarrow> ('ss, 'ls, 'lr) node_input \<Rightarrow> bool" where
  "opens_to relay (NiOpen cid p) \<longleftrightarrow> p = relay"
| "opens_to relay i \<longleftrightarrow> True"

definition links_to :: "peer_id \<Rightarrow> 'ss endpoint_wires \<Rightarrow> bool" where
  "links_to relay w \<longleftrightarrow> list_all ((\<lambda>l. ek_peer l = relay) \<circ> snd) (ew_links w) \<and>
     list_all (\<lambda>(p, cid, e). p = relay) (ew_events w)"

lemma links_to_fields [simp]:
  "links_to relay (w\<lparr>ew_tasks := ts\<rparr>) = links_to relay w" "links_to relay (w\<lparr>ew_notices := ns\<rparr>) = links_to relay w"
  "links_to relay (put_task k t w) = links_to relay w" "links_to relay (drop_task k w) = links_to relay w"
  by (simp_all add: links_to_def put_task_def drop_task_def)

lemma links_to_link: "links_to relay w \<Longrightarrow> map_of (ew_links w) cid = Some l \<Longrightarrow> ek_peer l = relay"
  unfolding links_to_def by (elim conjE) (erule list_all_lookup)

lemma links_to_put_handler:
  assumes "links_to relay w" and "map_of (ew_links w) cid = Some l"
  shows "links_to relay (put_handler cid l h w)"
  using assms links_to_link [OF assms] by (simp add: links_to_def put_handler_def list_all_update)

lemma wire_step_links:
  assumes "wire_step L i w = Inr (w', os)" and "links_to relay w"
    and "\<And>cid p hi. i = WiOpen cid p hi \<Longrightarrow> p = relay"
  shows "links_to relay w'"
  using assms(1)
proof (cases rule: wire_step_cases)
  case (opened cid q hi)
  with assms(2,3) show ?thesis by (simp add: links_to_def)
next
  case (closed cid l)
  with assms(2) show ?thesis by (simp add: links_to_def list_all_drop)
next
  case (custom cid k l e h es)
  have "links_to relay (put_handler cid l h w)"
    by (rule links_to_put_handler [OF assms(2) custom(1)])
  moreover have "ew_events (put_handler cid l h w) = ew_events w"
    by (simp add: put_handler_def)
  ultimately show ?thesis
    using links_to_link [OF assms(2) custom(1)] unfolding custom(3) by (simp add: links_to_def)
next
  case (take q cid e evs)
  with assms(2) show ?thesis by (simp add: links_to_def)
qed (use assms(2) in \<open>simp_all add: links_to_put_handler\<close>)

text \<open>What can happen next: anything outside, anything among the handlers, and an event if there is one.\<close>

fun node_enabled :: "('ss, 'ls, 'lr) endpoint_node \<Rightarrow> ('ss, 'ls, 'lr) node_input \<Rightarrow> bool" where
  "node_enabled n (NiSystem i) \<longleftrightarrow> from_outside i"
| "node_enabled n (NiOpen cid p) \<longleftrightarrow> True"
| "node_enabled n NiDeliver \<longleftrightarrow> ew_events (en_wires n) \<noteq> []"
| "node_enabled n (NiWire i) \<longleftrightarrow> among_wires i"

definition node_safe :: "peer_id \<Rightarrow> ('ss, 'ls, 'lr) endpoint_node \<Rightarrow> bool" where
  "node_safe relay n \<longleftrightarrow> system_safe relay (node_system n) \<and> links_to relay (en_wires n)"

lemma node_wires_safe: "node_safe relay n \<Longrightarrow> links_to relay w \<Longrightarrow> node_safe relay (n\<lparr>en_wires := w\<rparr>)"
  by (simp add: node_safe_def node_system_def system_safe_def)

lemma delivered_from_relay:
  assumes "links_to relay w" and "wires_backed me N log w" and "ew_events w = (p, cid, e) # evs"
  shows "endpoint_input_relays (EbHandler p cid e :: ('ss, 'ls) endpoint_input) \<subseteq> {relay}"
proof -
  have "p = relay" "backed me N log p e"
    using assms by (simp_all add: links_to_def wires_backed_def)
  then show ?thesis
    by (cases e) simp_all
qed

lemma node_step_safe:
  fixes n :: "('ss, 'ls, 'lr) endpoint_node"
  assumes "node_step L cap lops lrops n i n' os" and safe: "node_safe relay n" and "opens_to relay i"
    and backed: "wires_backed me N log (en_wires n)"
  shows "node_safe relay n'"
  using assms(1)
proof (cases rule: node_step.cases)
  case (outside i' s sos)
  have "from_relay relay i'"
    using outside(4) by (cases i') simp_all
  from system_step_safe [OF outside(5) _ this] safe outside(2) show ?thesis
    by (simp add: node_safe_def node_system_def system_safe_def add_notices_def)
next
  case (opens cid p w wos)
  have "links_to relay w"
    by (rule wire_step_links [OF opens(4)]) (use safe assms(3) opens(1) in \<open>auto simp: node_safe_def\<close>)
  with node_wires_safe [OF safe] opens(2) show ?thesis by simp
next
  case (wires i' w wos)
  have "links_to relay w"
    by (rule wire_step_links [OF wires(5)]) (use safe wires(4) in \<open>auto simp: node_safe_def\<close>)
  with node_wires_safe [OF safe] wires(2) show ?thesis by simp
next
  case (deliver w p cid e b bos)
  obtain evs where evs: "ew_events (en_wires n) = (p, cid, e) # evs" and w: "w = (en_wires n)\<lparr>ew_events := evs\<rparr>"
    using deliver(4) by (auto split: list.splits)
  have links: "links_to relay (en_wires n)"
    using safe by (simp add: node_safe_def)
  from endpoint_step_keeps_safe [OF deliver(5) _ delivered_from_relay [OF links backed evs]] safe
  have "endpoint_safe {relay} b"
    by (simp add: node_safe_def node_system_def system_safe_def)
  moreover have "links_to relay w"
    using links evs w by (simp add: links_to_def)
  ultimately show ?thesis
    using safe deliver(2) by (simp add: node_safe_def node_system_def system_safe_def)
qed

lemma node_run_safe:
  fixes n :: "('ss, 'ls, 'lr) endpoint_node"
  assumes "node_run L cap lops lrops n is n' os" and "node_safe relay n" and "list_all (opens_to relay) is"
    and "node_told L me ra relay A [] n" and "\<Union> (asked_events L me ra relay ` set is) \<subseteq> A"
  shows "node_safe relay n' \<and> node_told L me ra relay A os n'"
  using assms
proof (induction rule: node_run.induct)
  case (node_more n "is" n1 os1 i n2 os2)
  then have safe: "node_safe relay n1" and told: "node_told L me ra relay A os1 n1"
    by simp_all
  then have "wires_backed me (notices_in os1) (wire_log os1) (en_wires n1)"
    by (simp add: node_told_def wires_told_def)
  with node_step_safe [OF node_more.hyps(2) safe] node_step_told [OF node_more.hyps(2) told] node_more.prems
  show ?case by simp
qed simp

lemma node_safe_new: "node_safe relay (endpoint_node_new me relay_addr relay)"
  using system_safe_new [of relay me relay_addr]
  by (simp add: node_safe_def links_to_def) (simp add: endpoint_wires_new_def)

text \<open>
  C7: The whole endpoint never panics and never hangs while its connections are to the relay: after
  any interleaving of the application, the swarm, the handlers and their upgrades, whatever the
  relay does on the wire, every operation that can come next returns.
\<close>

theorem node_never_stuck:
  fixes n :: "('ss, 'ls, 'lr) endpoint_node"
  assumes "node_run L cap lops lrops (endpoint_node_new me relay_addr relay) is n os"
    and "list_all (opens_to relay) is" and "node_enabled n i"
  shows "\<exists>n' os'. node_step L cap lops lrops n i n' os'"
proof -
  from node_run_safe [OF assms(1) node_safe_new assms(2) node_told_new subset_refl]
  have safe: "node_safe relay n" and
    told: "node_told L me relay_addr relay (\<Union> (asked_events L me relay_addr relay ` set is)) os n"
    by simp_all
  from told have wired: "endpoint_wired L (en_wires n)"
    and backed: "wires_backed me (notices_in os) (wire_log os) (en_wires n)"
    by (simp_all add: node_told_def wires_told_def)
  note wire = wire_step_total [OF wired]
  show ?thesis
  proof (cases i)
    case (NiSystem j)
    with assms(3) have "from_outside j" "from_relay relay j" "was_lent (node_system n) j"
      by (cases j; simp)+
    with system_step_returns [of relay "node_system n" j L cap lops lrops] safe NiSystem show ?thesis
      by (metis node_safe_def node_step.outside)
  next
    case (NiOpen cid p)
    with wire [of "WiOpen cid p (endpoint_new_handler (en_behaviour n))"] show ?thesis
      by (metis node_step.opens)
  next
    case (NiWire j)
    with wire [of j] assms(3) show ?thesis
      by (metis node_enabled.simps(4) node_step.wires)
  next
    case NiDeliver
    with assms(3) obtain p cid e evs where evs: "ew_events (en_wires n) = (p, cid, e) # evs"
      by (cases "ew_events (en_wires n)") auto
    then have t: "wire_step L WiTake (en_wires n) = Inr ((en_wires n)\<lparr>ew_events := evs\<rparr>, [WoEvent p cid e])"
      by simp
    have links: "links_to relay (en_wires n)" and "endpoint_safe {relay} (en_behaviour n)"
      using safe by (simp_all add: node_safe_def node_system_def system_safe_def)
    from endpoint_step_safe [OF bounded_ops_live this(2) delivered_from_relay [OF links backed evs]]
    obtain b bos where "endpoint_step L lops (bounded_ops cap) (EbHandler p cid e) (en_behaviour n) = Inr (b, bos)"
      by blast
    from node_step.deliver [OF t this] NiDeliver show ?thesis by blast
  qed
qed

theorem node_never_stuck_witness:
  "\<exists>n os n' os'. example_run (endpoint_node_new (PeerId [1]) (Multiaddr [9]) (PeerId [9])) example_node_inputs n os \<and>
     node_step raw_lib 1 open_ops list_receiver n (NiSystem SyPoll) n' os'"
proof -
  obtain os where
    r: "example_run (endpoint_node_new (PeerId [1]) (Multiaddr [9]) (PeerId [9])) example_node_inputs
       (example_node (example_system [] [] example_queued {#}) (example_wires [] [])) os"
    by (rule example_node_run)
  have "list_all (opens_to (PeerId [9])) example_node_inputs"
    by (auto simp: example_node_inputs_def example_node_listen_def example_node_dial_def
        example_node_accept_def list_all_iff)
  from node_never_stuck [OF r this, of "NiSystem SyPoll"] r show ?thesis by auto
qed

end
