(* ===== verification/Network.thy ===== *)
theory Network
  imports Relay_Joining Endpoint_Runs
begin

text \<open>
  An endpoint that dials, the relay, and the endpoint that is dialed, each as a whole: the substreams
  between them deliver messages in order (\<open>delivers\<close>), and nothing else is assumed of the network.
\<close>

text \<open>What an endpoint's log says of the upgrades in it.\<close>

lemma node_log_dialed:
  assumes "node_run L cap lops lrops (endpoint_node_new me relay_addr relay) is n os"
    and "NoWire (WoDialed q u (InfoDial sender) tr (Inr (Inl c))) \<in> set os"
  obtains dst a where "q = relay" "u = OutDial dst a" "NiSystem (SyCall (TiDial sender a)) \<in> set is"
    "peer_of_addr L a = Some dst" "completes (endpoint_dial_upgrade L dst a) tr (Inr (Inr c))"
proof -
  note told = node_run_new_told [OF assms(1)]
  have ok: "wire_log_ok L me (notices_in os) (WoDialed q u (InfoDial sender) tr (Inr (Inl c)))"
    using told assms(2) by (auto simp: node_told_def wires_told_def wire_log_def)
  then obtain dst a where u: "u = OutDial dst a" and c: "completes (endpoint_dial_upgrade L dst a) tr (Inr (Inr c))"
    by (auto simp: tagged_left)
  with ok told have "(q, EiDial dst a sender) \<in> notice_from ` \<Union> (asked_events L me relay_addr relay ` set is)"
    by (auto simp: node_told_def)
  from asked_dial [OF this] u c that show ?thesis by blast
qed

lemma node_log_accepted:
  assumes "node_run L cap lops lrops (endpoint_node_new me relay_addr relay) is n os"
    and "NoWire (WoAccepted q u tr r) \<in> set os"
  shows "u = endpoint_inbound_new me (Some q) \<and> completes (endpoint_upgrade_inbound L u) tr (Inr r)"
  using node_run_new_told [OF assms(1)] assms(2) by (auto simp: node_told_def wires_told_def wire_log_def)

text \<open>
  C1: From one endpoint's application to the other endpoint, over the whole relay: when an endpoint
  gets a connection for a dial over a substream whose other end is a dial that the relay has
  finished, then the application dialed an address that names a peer; the relay answered with a
  connection from a connect that it made, over a connection to exactly this peer, which accepted it
  and counts as listening; and any endpoint whose inbound upgrade ran the other end of that connect
  is this peer.
\<close>

theorem network_dial_reaches_named_peer:
  fixes tr2 :: "'ss dial_trace" and lops :: "('ls, io_error + 'ss connection) sender_ops"
    and lrops :: "('lr, io_error + 'ss connection) receiver_ops"
  assumes "lib_roundtrip L"
    and "node_run L cap lops lrops (endpoint_node_new me relay_addr relay) is n os"
    and "NoWire (WoDialed q u (InfoDial sender) tr1 (Inr (Inl c))) \<in> set os"
    and "run (relay_system_step L) rs (relay_system_new mtx) = Inr (s, log)"
    and "LogDial pid h tr2 r \<in> set log" and "delivers tr1 tr2" and "delivers tr2 tr1"
  shows "\<exists>a dst tx c' v tr3. NiSystem (SyCall (TiDial sender a)) \<in> set is \<and> peer_of_addr L a = Some dst \<and>
     EvConn tx (Inr (Inr c')) \<in> set tr2 \<and> LogConnect dst v tr3 (Inr c') \<in> set log \<and>
     dst \<in> rb_listening_clients (rs_behaviour s) \<and>
     (\<forall>cap2 (lops2 :: ('ls, io_error + 'ss connection) sender_ops)
         (lrops2 :: ('lr, io_error + 'ss connection) receiver_ops) dest addr2 relay2 is2 n2 os2 q2 u2 tr4 r4.
        node_run L cap2 lops2 lrops2 (endpoint_node_new dest addr2 relay2) is2 n2 os2 \<longrightarrow>
        NoWire (WoAccepted q2 u2 tr4 r4) \<in> set os2 \<longrightarrow> delivers tr3 tr4 \<longrightarrow> delivers tr4 tr3 \<longrightarrow> dest = dst)"
proof -
  obtain dst a where call: "NiSystem (SyCall (TiDial sender a)) \<in> set is" "peer_of_addr L a = Some dst"
    and run: "completes (endpoint_dial_upgrade L dst a) tr1 (Inr (Inr c))"
    by (rule node_log_dialed [OF assms(2,3)])
  from relay_dial_reaches_named_peer [OF assms(1) run assms(4-7)] obtain tx c' v tr3 where
    relay: "EvConn tx (Inr (Inr c')) \<in> set tr2" "LogConnect dst v tr3 (Inr c') \<in> set log"
      "dst \<in> rb_listening_clients (rs_behaviour s)"
    and peer: "\<And>e (tr4 :: (pb_connect_request, pb_connect_response, 'ss) ev list) r4.
      completes (endpoint_upgrade_inbound L e) tr4 r4 \<Longrightarrow> delivers tr3 tr4 \<Longrightarrow> delivers tr4 tr3 \<Longrightarrow>
      ei_local_peer_id e = dst"
    by blast
  have "dest = dst" if "node_run L cap2 lops2 lrops2 (endpoint_node_new dest addr2 relay2) is2 n2 os2"
      "NoWire (WoAccepted q2 u2 tr4 r4) \<in> set os2" "delivers tr3 tr4" "delivers tr4 tr3"
    for cap2 and lops2 :: "('ls, io_error + 'ss connection) sender_ops"
      and lrops2 :: "('lr, io_error + 'ss connection) receiver_ops" and dest addr2 relay2 is2 n2 os2 q2 u2 tr4 r4
  proof -
    have "u2 = endpoint_inbound_new dest (Some q2)"
      and "completes (endpoint_upgrade_inbound L u2) tr4 (Inr r4)"
      using node_log_accepted [OF that(1,2)] by blast+
    with peer [OF this(2) that(3,4)] show ?thesis
      by (simp add: endpoint_inbound_new_def)
  qed
  with call relay show ?thesis by blast
qed

theorem network_dial_reaches_named_peer_witness:
  "\<exists>s log a dst tx c' v tr3.
     run (relay_system_step raw_lib) relay_example (relay_system_new (MpscTx 0)) = Inr (s, log) \<and>
     NiSystem (SyCall (TiDial (Oneshot 1) a)) \<in> set example_node_inputs \<and>
     peer_of_addr raw_lib a = Some dst \<and> EvConn tx (Inr (Inr c')) \<in> set relay_example_trace \<and>
     LogConnect dst v tr3 (Inr c') \<in> set log \<and> dst \<in> rb_listening_clients (rs_behaviour s)"
proof -
  from relay_example_ends obtain s log where
    r: "run (relay_system_step raw_lib) relay_example (relay_system_new (MpscTx 0)) = Inr (s, log)"
    and l: "LogDial (PeerId [4]) (relay_inbound_new (Some (Multiaddr [3])) (MpscTx 0)) relay_example_trace
      (Inr (Inl (new_connection (Multiaddr [3]) [] [43], new_connection (Multiaddr [7, 1]) [] [42])))
      \<in> set log"
    by (auto elim: ends_withE)
  obtain os where
    n: "example_run (endpoint_node_new (PeerId [1]) (Multiaddr [9]) (PeerId [9])) example_node_inputs
       (example_node (example_system [] [] example_queued {#}) (example_wires [] [])) os"
    and d: "NoWire example_dial_log \<in> set os"
    by (rule example_node_run)
  have "delivers dial_trace1 relay_example_trace" "delivers relay_example_trace dial_trace1"
    by (simp_all add: delivers_def dial_trace1_def relay_example_trace_def)
  from network_dial_reaches_named_peer [OF raw_lib_roundtrip n d r l this] r show ?thesis
    by (elim exE conjE) (intro exI conjI; assumption)
qed

end
