(* ===== verification/Combine.thy ===== *)
theory Combine
  imports Endpoint_Transport "HOL-Library.Stream"
begin

text \<open>
  \<open>src/combine.rs\<close>: two transports as one. It listens on both, dials through both at once and
  takes the first success. The two transports are any two implementations of the interface, so
  their operations and the states of their dial futures are parameters.
\<close>

section \<open>State\<close>

datatype ('a, 'b) either_output = First 'a | Second 'b
datatype ('a, 'b) either_error = ErrA 'a | ErrB 'b

record ('a, 'b) combine_transport =
  ct_t1 :: 'a
  ct_t2 :: 'b
  ct_listener_ids :: "listener_id \<rightharpoonup> listener_id \<times> listener_id"

definition combine_new :: "'a \<Rightarrow> 'b \<Rightarrow> ('a, 'b) combine_transport" where
  "combine_new a b = \<lparr>ct_t1 = a, ct_t2 = b, ct_listener_ids = Map.empty\<rparr>"

fun map_transport_error :: "('e \<Rightarrow> 'f) \<Rightarrow> 'e transport_error \<Rightarrow> 'f transport_error" where
  "map_transport_error f (MultiaddrNotSupported addr) = MultiaddrNotSupported addr"
| "map_transport_error f (TransportOther err) = TransportOther (f err)"

section \<open>Dialing\<close>

text \<open>
  The future of a combined dial: one dial alone (because the other was refused, or has failed), or
  both.
\<close>

datatype ('d1, 'd2) combined_dial =
    OnlyFirst 'd1
  | OnlySecond 'd2
  | BothDials 'd1 'd2

definition inner_dial ::
  "('a, 'd1, 'u1, 'e1) transport_ops \<Rightarrow> ('b, 'd2, 'u2, 'e2) transport_ops \<Rightarrow> multiaddr \<Rightarrow> bool \<Rightarrow>
     ('a, 'b) combine_transport \<Rightarrow>
     ('a, 'b) combine_transport \<times>
     (('e1, 'e2) either_error transport_error + ('d1, 'd2) combined_dial)" where
  "inner_dial ops1 ops2 addr as_listener c =
     (let (t1, dial1) = (if \<not> as_listener then tr_dial ops1 addr (ct_t1 c)
                         else tr_dial_as_listener ops1 addr (ct_t1 c));
          (t2, dial2) = (if \<not> as_listener then tr_dial ops2 addr (ct_t2 c)
                         else tr_dial_as_listener ops2 addr (ct_t2 c))
      in (c\<lparr>ct_t1 := t1, ct_t2 := t2\<rparr>,
          (case (dial1, dial2) of
             (Inl _, Inl err) \<Rightarrow> Inl (map_transport_error ErrB err)
           | (Inr d1, Inl _) \<Rightarrow> Inr (OnlyFirst d1)
           | (Inl _, Inr d2) \<Rightarrow> Inr (OnlySecond d2)
           | (Inr d1, Inr d2) \<Rightarrow> Inr (BothDials d1 d2))))"

definition combine_dial where
  "combine_dial ops1 ops2 addr c = inner_dial ops1 ops2 addr False c"

definition combine_dial_as_listener where
  "combine_dial_as_listener ops1 ops2 addr c = inner_dial ops1 ops2 addr True c"

text \<open>Awaiting one of the dials, with its results as those of the combined dial.\<close>

definition await_first ::
  "('d1 \<Rightarrow> ('e1 + 'o1) poll \<times> 'd1) \<Rightarrow> bool stream \<Rightarrow> 'd1 \<Rightarrow>
     (('e1, 'e2) either_error + ('o1, 'o2) either_output) poll \<times> bool stream \<times> ('d1, 'd2) combined_dial"
where
  "await_first p1 cs d1 =
     (case p1 d1 of
        (Pending, d) \<Rightarrow> (Pending, cs, OnlyFirst d)
      | (Ready r, d) \<Rightarrow> (Ready (map_sum ErrA First r), cs, OnlyFirst d))"

definition await_second ::
  "('d2 \<Rightarrow> ('e2 + 'o2) poll \<times> 'd2) \<Rightarrow> bool stream \<Rightarrow> 'd2 \<Rightarrow>
     (('e1, 'e2) either_error + ('o1, 'o2) either_output) poll \<times> bool stream \<times> ('d1, 'd2) combined_dial"
where
  "await_second p2 cs d2 =
     (case p2 d2 of
        (Pending, d) \<Rightarrow> (Pending, cs, OnlySecond d)
      | (Ready r, d) \<Rightarrow> (Ready (map_sum ErrB Second r), cs, OnlySecond d))"

text \<open>
  One poll of the combined dial. \<open>select!\<close> polls its branches in a random order until one is
  ready: the stream says, poll by poll, whether the first branch goes first. A branch that is ready
  with an error hands over to the other dial, which is polled at once. A future is not polled again
  after it was ready.
\<close>

fun combined_dial_poll ::
  "('d1 \<Rightarrow> ('e1 + 'o1) poll \<times> 'd1) \<Rightarrow> ('d2 \<Rightarrow> ('e2 + 'o2) poll \<times> 'd2) \<Rightarrow>
     bool stream \<times> ('d1, 'd2) combined_dial \<Rightarrow>
     (('e1, 'e2) either_error + ('o1, 'o2) either_output) poll \<times>
     bool stream \<times> ('d1, 'd2) combined_dial" where
  "combined_dial_poll p1 p2 (cs, OnlyFirst d1) = await_first p1 cs d1"
| "combined_dial_poll p1 p2 (cs, OnlySecond d2) = await_second p2 cs d2"
| "combined_dial_poll p1 p2 (cs, BothDials d1 d2) =
     (if shd cs then
        (case p1 d1 of
           (Ready (Inr r1), d1') \<Rightarrow> (Ready (Inr (First r1)), stl cs, BothDials d1' d2)
         | (Ready (Inl _), d1') \<Rightarrow> await_second p2 (stl cs) d2
         | (Pending, d1') \<Rightarrow>
             (case p2 d2 of
                (Ready (Inr r2), d2') \<Rightarrow> (Ready (Inr (Second r2)), stl cs, BothDials d1' d2')
              | (Ready (Inl _), d2') \<Rightarrow> await_first p1 (stl cs) d1'
              | (Pending, d2') \<Rightarrow> (Pending, stl cs, BothDials d1' d2')))
      else
        (case p2 d2 of
           (Ready (Inr r2), d2') \<Rightarrow> (Ready (Inr (Second r2)), stl cs, BothDials d1 d2')
         | (Ready (Inl _), d2') \<Rightarrow> await_first p1 (stl cs) d1
         | (Pending, d2') \<Rightarrow>
             (case p1 d1 of
                (Ready (Inr r1), d1') \<Rightarrow> (Ready (Inr (First r1)), stl cs, BothDials d1' d2')
              | (Ready (Inl _), d1') \<Rightarrow> await_second p2 (stl cs) d2'
              | (Pending, d1') \<Rightarrow> (Pending, stl cs, BothDials d1' d2'))))"

section \<open>Listening and polling\<close>

definition combine_listen_on ::
  "('a, 'd1, 'u1, 'e1) transport_ops \<Rightarrow> ('b, 'd2, 'u2, 'e2) transport_ops \<Rightarrow> listener_id \<Rightarrow>
     multiaddr \<Rightarrow> ('a, 'b) combine_transport \<Rightarrow>
     ('a, 'b) combine_transport \<times> (('e1, 'e2) either_error transport_error + listener_id)" where
  "combine_listen_on ops1 ops2 listener_id addr c =
     (case tr_listen_on ops1 addr (ct_t1 c) of
        (t1, Inl err) \<Rightarrow> (c\<lparr>ct_t1 := t1\<rparr>, Inl (map_transport_error ErrA err))
      | (t1, Inr id1) \<Rightarrow>
          (case tr_listen_on ops2 addr (ct_t2 c) of
             (t2, Inl err) \<Rightarrow> (c\<lparr>ct_t1 := t1, ct_t2 := t2\<rparr>, Inl (map_transport_error ErrB err))
           | (t2, Inr id2) \<Rightarrow>
               (c\<lparr>ct_t1 := t1, ct_t2 := t2,
                  ct_listener_ids := (ct_listener_ids c)(listener_id \<mapsto> (id1, id2))\<rparr>,
                Inr listener_id)))"

text \<open>\<open>||\<close> does not evaluate its right side when the left side is true.\<close>

definition combine_remove_listener ::
  "('a, 'd1, 'u1, 'e1) transport_ops \<Rightarrow> ('b, 'd2, 'u2, 'e2) transport_ops \<Rightarrow> listener_id \<Rightarrow>
     ('a, 'b) combine_transport \<Rightarrow> ('a, 'b) combine_transport \<times> bool" where
  "combine_remove_listener ops1 ops2 lid c =
     (case ct_listener_ids c lid of
        None \<Rightarrow> (c, False)
      | Some (id1, id2) \<Rightarrow>
          (let c' = c\<lparr>ct_listener_ids := (ct_listener_ids c)(lid := None)\<rparr>;
               (t1, removed1) = tr_remove_listener ops1 id1 (ct_t1 c)
           in if removed1 then (c'\<lparr>ct_t1 := t1\<rparr>, True)
              else
                (case tr_remove_listener ops2 id2 (ct_t2 c) of
                   (t2, removed2) \<Rightarrow> (c'\<lparr>ct_t1 := t1, ct_t2 := t2\<rparr>, removed2))))"

definition combine_poll ::
  "('a, 'd1, 'u1, 'e1) transport_ops \<Rightarrow> ('b, 'd2, 'u2, 'e2) transport_ops \<Rightarrow>
     ('a, 'b) combine_transport \<Rightarrow>
     (panic + ('a, 'b) combine_transport \<times>
        (('u1, 'u2) either_output, ('e1, 'e2) either_error) transport_event poll) option" where
  "combine_poll ops1 ops2 c =
     (case tr_poll ops1 (ct_t1 c) of
        None \<Rightarrow> None
      | Some (Inl p) \<Rightarrow> Some (Inl p)
      | Some (Inr (t1, Ready ev)) \<Rightarrow> Some (Inr (c\<lparr>ct_t1 := t1\<rparr>, Ready (map_event First ErrA ev)))
      | Some (Inr (t1, Pending)) \<Rightarrow>
          (case tr_poll ops2 (ct_t2 c) of
             None \<Rightarrow> None
           | Some (Inl p) \<Rightarrow> Some (Inl p)
           | Some (Inr (t2, Ready ev)) \<Rightarrow>
               Some (Inr (c\<lparr>ct_t1 := t1, ct_t2 := t2\<rparr>, Ready (map_event Second ErrB ev)))
           | Some (Inr (t2, Pending)) \<Rightarrow> Some (Inr (c\<lparr>ct_t1 := t1, ct_t2 := t2\<rparr>, Pending))))"

definition combine_address_translation ::
  "('a, 'd1, 'u1, 'e1) transport_ops \<Rightarrow> ('b, 'd2, 'u2, 'e2) transport_ops \<Rightarrow>
     ('a, 'b) combine_transport \<Rightarrow> multiaddr \<Rightarrow> multiaddr \<Rightarrow> multiaddr option" where
  "combine_address_translation ops1 ops2 c server observed =
     (case tr_address_translation ops1 (ct_t1 c) server observed of
        Some a \<Rightarrow> Some a
      | None \<Rightarrow> tr_address_translation ops2 (ct_t2 c) server observed)"

section \<open>What a combined dial gives\<close>

text \<open>The outcomes a combined dial may still have, from what its dials would give.\<close>

fun dial_outcomes ::
  "('d1 \<Rightarrow> ('e1 + 'o1) poll \<times> 'd1) \<Rightarrow> ('d2 \<Rightarrow> ('e2 + 'o2) poll \<times> 'd2) \<Rightarrow>
     bool stream \<times> ('d1, 'd2) combined_dial \<Rightarrow>
     (('e1, 'e2) either_error + ('o1, 'o2) either_output) set" where
  "dial_outcomes p1 p2 (cs, OnlyFirst d1) = map_sum ErrA First ` results p1 d1"
| "dial_outcomes p1 p2 (cs, OnlySecond d2) = map_sum ErrB Second ` results p2 d2"
| "dial_outcomes p1 p2 (cs, BothDials d1 d2) =
     {Inr (First x) | x. Inr x \<in> results p1 d1} \<union> {Inr (Second y) | y. Inr y \<in> results p2 d2} \<union>
     {Inl e | e e1 e2. Inl e1 \<in> results p1 d1 \<and> Inl e2 \<in> results p2 d2 \<and> (e = ErrA e1 \<or> e = ErrB e2)}"

lemma await_first_outcome:
  "await_first p1 cs d1 = (x, f') \<Longrightarrow>
     (\<forall>r. x = Ready r \<longrightarrow> r \<in> map_sum ErrA First ` results p1 d1) \<and>
     (x = Pending \<longrightarrow> dial_outcomes p1 p2 f' = map_sum ErrA First ` results p1 d1)"
  by (auto simp: await_first_def results_Ready results_Pending split: prod.splits poll.splits)

lemma await_second_outcome:
  "await_second p2 cs d2 = (x, f') \<Longrightarrow>
     (\<forall>r. x = Ready r \<longrightarrow> r \<in> map_sum ErrB Second ` results p2 d2) \<and>
     (x = Pending \<longrightarrow> dial_outcomes p1 p2 f' = map_sum ErrB Second ` results p2 d2)"
  by (auto simp: await_second_def results_Ready results_Pending split: prod.splits poll.splits)

lemma first_of_both:
  "Inl e2 \<in> results p2 d2 \<Longrightarrow>
     map_sum ErrA First ` results p1 d1 \<subseteq> dial_outcomes p1 p2 (cs, BothDials d1 d2)"
  by (auto simp: map_sum_def split: sum.splits) (metis sum.exhaust)+

lemma second_of_both:
  "Inl e1 \<in> results p1 d1 \<Longrightarrow>
     map_sum ErrB Second ` results p2 d2 \<subseteq> dial_outcomes p1 p2 (cs, BothDials d1 d2)"
  by (auto simp: map_sum_def split: sum.splits)

text \<open>A poll that is not ready on both sides keeps what each side will give.\<close>

lemma both_pending:
  "p1 d1 = (Pending, d1') \<Longrightarrow> p2 d2 = (Pending, d2') \<Longrightarrow>
     dial_outcomes p1 p2 (cs, BothDials d1' d2') = dial_outcomes p1 p2 (cs', BothDials d1 d2)"
  by (simp add: results_Pending)

lemma combined_both_outcome:
  assumes "combined_dial_poll p1 p2 (cs, BothDials d1 d2) = (x, f')"
  shows "(\<forall>r. x = Ready r \<longrightarrow> r \<in> dial_outcomes p1 p2 (cs, BothDials d1 d2)) \<and>
     (x = Pending \<longrightarrow> dial_outcomes p1 p2 f' \<subseteq> dial_outcomes p1 p2 (cs, BothDials d1 d2))"
proof -
  obtain x1 d1' x2 d2' where p1: "p1 d1 = (x1, d1')" and p2: "p2 d2 = (x2, d2')"
    by fastforce
  have second: ?thesis if "x1 = Ready (Inl e1)" "await_second p2 (stl cs) d = (x, f')"
      "results p2 d = results p2 d2" for e1 d
  proof -
    have "Inl e1 \<in> results p1 d1"
      using p1 that(1) by (simp add: results_Ready)
    from second_of_both [OF this, of p2 d2 cs] await_second_outcome [OF that(2), of p1, unfolded that(3)]
    show ?thesis by blast
  qed
  have first: ?thesis if "x2 = Ready (Inl e2)" "await_first p1 (stl cs) d = (x, f')"
      "results p1 d = results p1 d1" for e2 d
  proof -
    have "Inl e2 \<in> results p2 d2"
      using p2 that(1) by (simp add: results_Ready)
    from first_of_both [OF this, of p1 d1 cs] await_first_outcome [OF that(2), of p2, unfolded that(3)]
    show ?thesis by blast
  qed
  consider "x1 = Pending" "x2 = Pending" | y where "x1 = Pending" "x2 = Ready y"
    | y where "x1 = Ready y" "x2 = Pending" | y z where "x1 = Ready y" "x2 = Ready z"
    by (cases x1; cases x2) auto
  then show ?thesis
  proof cases
    case 1
    with assms p1 p2 both_pending [of p1 d1 d1' p2 d2 d2'] show ?thesis
      by (auto split: if_splits)
  next
    case (2 y)
    with assms p1 p2 first [of _ d1] first [of _ d1'] show ?thesis
      by (cases y) (auto simp: results_Ready results_Pending split: if_splits)
  next
    case (3 y)
    with assms p1 p2 second [of _ d2] second [of _ d2'] show ?thesis
      by (cases y) (auto simp: results_Ready results_Pending split: if_splits)
  next
    case (4 y z)
    with assms p1 p2 first [of _ d1] second [of _ d2] show ?thesis
      by (cases y; cases z) (auto simp: results_Ready split: if_splits)
  qed
qed

lemma combined_dial_outcome:
  assumes "combined_dial_poll p1 p2 f = (x, f')"
  shows "(\<forall>r. x = Ready r \<longrightarrow> r \<in> dial_outcomes p1 p2 f) \<and>
     (x = Pending \<longrightarrow> dial_outcomes p1 p2 f' \<subseteq> dial_outcomes p1 p2 f)"
proof -
  obtain cs d where f: "f = (cs, d)"
    by fastforce
  show ?thesis
  proof (cases d)
    case (OnlyFirst d1)
    with assms f await_first_outcome [of p1 cs d1 x f' p2] show ?thesis by simp
  next
    case (OnlySecond d2)
    with assms f await_second_outcome [of p2 cs d2 x f' p1] show ?thesis by simp
  next
    case (BothDials d1 d2)
    with assms f combined_both_outcome [of p1 p2 cs d1 d2 x f'] show ?thesis by simp
  qed
qed

interpretation combined_future: future "combined_dial_poll p1 p2" "dial_outcomes p1 p2"
  for p1 p2
  by unfold_locales (use combined_dial_outcome in blast)+

text \<open>
  C28: A combined dial succeeds only with a connection that one of its dials gave, marked with the
  transport it came through, and fails only when both dials failed, with the error of one of them;
  whichever order \<open>select!\<close> polls them in.
\<close>

theorem combined_dial_sound:
  assumes "await_within (combined_dial_poll p1 p2) n (cs, BothDials d1 d2) = Some r"
  shows "(case r of
      Inr (First x) \<Rightarrow> Inr x \<in> results p1 d1
    | Inr (Second y) \<Rightarrow> Inr y \<in> results p2 d2
    | Inl (ErrA e) \<Rightarrow> Inl e \<in> results p1 d1 \<and> (\<exists>e2. Inl e2 \<in> results p2 d2)
    | Inl (ErrB e) \<Rightarrow> Inl e \<in> results p2 d2 \<and> (\<exists>e1. Inl e1 \<in> results p1 d1))"
  using combined_future.await_outcome [OF assms] by auto

text \<open>A dial that is ready after \<open>n\<close> pending polls, for evaluation.\<close>

fun timed_poll :: "nat \<times> 'r \<Rightarrow> 'r poll \<times> nat \<times> 'r" where
  "timed_poll (0, r) = (Ready r, 0, r)"
| "timed_poll (Suc n, r) = (Pending, n, r)"

theorem combined_dial_sound_witness:
  "Inr 7 \<in> results timed_poll (2, Inr 7 :: string + nat) \<and>
   await_within (combined_dial_poll timed_poll timed_poll) 5
     (sconst True, BothDials (0, Inl ''refused'' :: string + nat) (2, Inr 7 :: string + nat)) =
   Some (Inr (Second 7))"
proof -
  have s: "shd (sconst True)" "stl (sconst True) = sconst True"
    by simp_all
  have "await_within (combined_dial_poll timed_poll timed_poll) 5
     (sconst True, BothDials (0, Inl ''refused'' :: string + nat) (2, Inr 7 :: string + nat)) =
   Some (Inr (Second 7))"
    by (simp add: numeral_eq_Suc await_second_def)
  with combined_dial_sound [OF this] show ?thesis
    by simp
qed

lemma await_only_first:
  "await_within (combined_dial_poll p1 p2) n (cs, OnlyFirst d1) =
     map_option (map_sum ErrA First) (await_within p1 n d1)"
  by (induction n arbitrary: d1 cs) (auto simp: await_first_def split: prod.splits poll.splits)

lemma await_only_second:
  "await_within (combined_dial_poll p1 p2) n (cs, OnlySecond d2) =
     map_option (map_sum ErrB Second) (await_within p2 n d2)"
  by (induction n arbitrary: d2 cs) (auto simp: await_second_def split: prod.splits poll.splits)

text \<open>Handing over to one dial in the middle of a poll loses no time.\<close>

lemma await_Suc_cases:
  "await_within p (Suc n) d = Some r \<Longrightarrow>
     (\<exists>d'. p d = (Ready r, d')) \<or> (\<exists>d'. p d = (Pending, d') \<and> await_within p n d' = Some r)"
  by (auto split: prod.splits poll.splits)

lemma hand_over_first:
  assumes "await_within p1 n d1 = Some r" and "combined_dial_poll p1 p2 f = await_first p1 cs d1"
  shows "await_within (combined_dial_poll p1 p2) n f = Some (map_sum ErrA First r)"
proof (cases n)
  case (Suc m)
  from await_Suc_cases [OF assms(1) [unfolded Suc]] show ?thesis
    using assms(2) Suc await_only_first [of p1 p2 m] by (auto simp: await_first_def)
qed (use assms in simp)

lemma hand_over_second:
  assumes "await_within p2 n d2 = Some r" and "combined_dial_poll p1 p2 f = await_second p2 cs d2"
  shows "await_within (combined_dial_poll p1 p2) n f = Some (map_sum ErrB Second r)"
proof (cases n)
  case (Suc m)
  from await_Suc_cases [OF assms(1) [unfolded Suc]] show ?thesis
    using assms(2) Suc await_only_second [of p1 p2 m] by (auto simp: await_second_def)
qed (use assms in simp)

lemma combined_first_success:
  "await_within p1 n d1 = Some (Inr x) \<Longrightarrow>
     \<exists>r. await_within (combined_dial_poll p1 p2) n (cs, BothDials d1 d2) = Some (Inr r)"
proof (induction n arbitrary: cs d1 d2)
  case 0
  then show ?case by simp
next
  case (Suc n)
  obtain x2 d2' where p2: "p2 d2 = (x2, d2')"
    by fastforce
  note over = hand_over_first [of p1 "Suc n" _ "Inr x" p2 "(cs, BothDials d1 d2)" "stl cs"]
  from await_Suc_cases [OF Suc.prems] show ?case
  proof (elim disjE exE conjE)
    fix d1'
    assume p1: "p1 d1 = (Ready (Inr x), d1')"
    show ?thesis
      using p1 p2 over [OF Suc.prems] by (cases x2) (auto split: sum.splits)
  next
    fix d1'
    assume p1: "p1 d1 = (Pending, d1')" and rest: "await_within p1 n d1' = Some (Inr x)"
    have later: "await_within p1 (Suc n) d1' = Some (Inr x)"
      by (rule await_mono [OF rest]) simp
    show ?thesis
      using p1 p2 over [OF Suc.prems] over [OF later] Suc.IH [OF rest]
      by (cases x2) (auto split: sum.splits)
  qed
qed

lemma combined_second_success:
  "await_within p2 n d2 = Some (Inr y) \<Longrightarrow>
     \<exists>r. await_within (combined_dial_poll p1 p2) n (cs, BothDials d1 d2) = Some (Inr r)"
proof (induction n arbitrary: cs d1 d2)
  case 0
  then show ?case by simp
next
  case (Suc n)
  obtain x1 d1' where p1: "p1 d1 = (x1, d1')"
    by fastforce
  note over = hand_over_second [of p2 "Suc n" _ "Inr y" p1 "(cs, BothDials d1 d2)" "stl cs"]
  from await_Suc_cases [OF Suc.prems] show ?case
  proof (elim disjE exE conjE)
    fix d2'
    assume p2: "p2 d2 = (Ready (Inr y), d2')"
    show ?thesis
      using p1 p2 over [OF Suc.prems] by (cases x1) (auto split: sum.splits)
  next
    fix d2'
    assume p2: "p2 d2 = (Pending, d2')" and rest: "await_within p2 n d2' = Some (Inr y)"
    have later: "await_within p2 (Suc n) d2' = Some (Inr y)"
      by (rule await_mono [OF rest]) simp
    show ?thesis
      using p1 p2 over [OF Suc.prems] over [OF later] Suc.IH [OF rest]
      by (cases x1) (auto split: sum.splits)
  qed
qed

lemma combined_both_fail:
  "await_within p1 n d1 = Some (Inl e1) \<Longrightarrow> await_within p2 n d2 = Some (Inl e2) \<Longrightarrow>
     \<exists>r. await_within (combined_dial_poll p1 p2) n (cs, BothDials d1 d2) = Some (Inl r)"
proof (induction n arbitrary: cs d1 d2)
  case 0
  then show ?case by simp
next
  case (Suc n)
  note over1 = hand_over_first [of p1 "Suc n" _ "Inl e1" p2 "(cs, BothDials d1 d2)" "stl cs"]
  note over2 = hand_over_second [of p2 "Suc n" _ "Inl e2" p1 "(cs, BothDials d1 d2)" "stl cs"]
  have later1: "await_within p1 n d1' = Some (Inl e1) \<Longrightarrow> await_within p1 (Suc n) d1' = Some (Inl e1)"
    and later2: "await_within p2 n d2' = Some (Inl e2) \<Longrightarrow> await_within p2 (Suc n) d2' = Some (Inl e2)"
    for d1' d2' using await_mono by (metis le_Suc_eq order_refl)+
  from await_Suc_cases [OF Suc.prems(1)] await_Suc_cases [OF Suc.prems(2)] show ?case
    using over1 [OF Suc.prems(1)] over2 [OF Suc.prems(2)] over1 [OF later1] over2 [OF later2] Suc.IH
    by (elim disjE exE conjE) auto
qed

text \<open>
  C25: A combined dial is as fast as the documentation says. When one of the dials succeeds within
  \<open>n\<close> polls, the combined dial succeeds within \<open>n\<close> polls, however slow or broken the other dial
  is; and when both dials fail within \<open>n\<close> polls, it fails within \<open>n\<close> polls.
\<close>

theorem combined_dial_prompt:
  assumes "(\<exists>x. await_within p1 n d1 = Some (Inr x)) \<or> (\<exists>y. await_within p2 n d2 = Some (Inr y)) \<or>
    (\<exists>e1 e2. await_within p1 n d1 = Some (Inl e1) \<and> await_within p2 n d2 = Some (Inl e2))"
  shows "\<exists>r. await_within (combined_dial_poll p1 p2) n (cs, BothDials d1 d2) = Some r \<and>
     (isl r \<longleftrightarrow> (\<nexists>x. await_within p1 n d1 = Some (Inr x)) \<and> (\<nexists>y. await_within p2 n d2 = Some (Inr y)))"
  using assms combined_first_success [of p1 n d1 _ p2 cs d2]
    combined_second_success [of p2 n d2 _ p1 cs d1] combined_both_fail [of p1 n d1 _ p2 d2 _ cs]
  by (metis isl_def old.sum.distinct(1) option.inject sum.disc(2))

theorem combined_dial_prompt_witness:
  "\<exists>r. await_within (combined_dial_poll timed_poll timed_poll) 3
     (sconst False, BothDials (100, Inl ''slow'' :: string + nat) (2, Inr 7 :: string + nat)) = Some r \<and>
     \<not> isl r"
proof -
  have ok: "await_within timed_poll 3 (2, Inr 7 :: string + nat) = Some (Inr 7)"
    by (simp add: numeral_eq_Suc)
  then have "(\<exists>x. await_within timed_poll 3 (100, Inl ''slow'' :: string + nat) = Some (Inr x)) \<or>
      (\<exists>y. await_within timed_poll 3 (2, Inr 7 :: string + nat) = Some (Inr y)) \<or>
      (\<exists>e1 e2. await_within timed_poll 3 (100, Inl ''slow'' :: string + nat) = Some (Inl e1) \<and>
         await_within timed_poll 3 (2, Inr 7 :: string + nat) = Some (Inl e2))"
    by blast
  from combined_dial_prompt [OF this, of "sconst False"] ok show ?thesis
    by auto
qed

section \<open>Listeners of a combined transport\<close>

text \<open>
  C40: A combined listener listens on both transports, but removing it only removes the first
  transport's listener: \<open>remove_listener\<close> reports success, forgets the combined listener, and the
  second transport keeps listening with no way left to stop it.
\<close>

theorem combine_remove_leaves_second:
  assumes "listening_transport ops1 l1" and "listening_transport ops2 l2"
    and "combine_listen_on ops1 ops2 lid a c = (c1, Inr lid')"
    and "combine_remove_listener ops1 ops2 lid' c1 = (c2, b)"
  shows "lid' = lid \<and> b \<and> (\<exists>id1 id2. ct_listener_ids c1 lid = Some (id1, id2) \<and>
     id1 \<in> l1 (ct_t1 c1) \<and> id2 \<in> l2 (ct_t2 c1) \<and>
     id1 \<notin> l1 (ct_t1 c2) \<and> id2 \<in> l2 (ct_t2 c2)) \<and>
     combine_remove_listener ops1 ops2 lid' c2 = (c2, False)"
proof -
  from assms(3) obtain t1 id1 t2 id2 where
    on1: "tr_listen_on ops1 a (ct_t1 c) = (t1, Inr id1)"
    and on2: "tr_listen_on ops2 a (ct_t2 c) = (t2, Inr id2)" and lid: "lid' = lid"
    and c1: "c1 = c\<lparr>ct_t1 := t1, ct_t2 := t2,
      ct_listener_ids := (ct_listener_ids c)(lid \<mapsto> (id1, id2))\<rparr>"
    by (auto simp: combine_listen_on_def split: prod.splits sum.splits)
  obtain t1' b1 where off1: "tr_remove_listener ops1 id1 t1 = (t1', b1)"
    by fastforce
  from listening_transport.remove_after_listen [OF assms(1) on1 off1] have b1 and "id1 \<notin> l1 t1'"
    by simp_all
  with off1 assms(4) lid c1 have "b" and "ct_t1 c2 = t1'" and "ct_t2 c2 = t2"
    and "ct_listener_ids c2 lid = None"
    by (auto simp: combine_remove_listener_def)
  moreover have "id1 \<in> l1 t1" and "id2 \<in> l2 t2"
    using listening_transport.listen_on_Ok [OF assms(1) on1]
      listening_transport.listen_on_Ok [OF assms(2) on2] by simp_all
  ultimately show ?thesis
    using \<open>id1 \<notin> l1 t1'\<close> lid c1 by (simp add: combine_remove_listener_def)
qed

text \<open>An endpoint transport that was just created, and its operations on lists as channels.\<close>

definition new_endpoint ::
  "nat \<times> ((io_error + bytes connection) list, (io_error + bytes connection) list,
     (io_error + bytes connection) list transport_to_behaviour_event list,
     behaviour_to_transport_event list) endpoint_transport" where
  "new_endpoint = (0, \<lparr>et_local_peer_id = PeerId [1], et_relay_addr = Multiaddr [9],
     et_relay_peer_id = PeerId [9], et_pending_to_behaviour = [], et_to_behaviour = [],
     et_from_behaviour = [], et_listener = None\<rparr>)"

definition list_endpoint where
  "list_endpoint base = endpoint_transport_ops raw_lib
     (\<lambda>n. ([], [], ListenerId (base + n), Oneshot (base + n)))
     (list_receiver :: (_, behaviour_to_transport_event) receiver_ops)
     (open_ops :: (_, (io_error + bytes connection) list transport_to_behaviour_event) sender_ops)
     (list_receiver :: (_, io_error + bytes connection) receiver_ops)"

lemma list_endpoint_listening: "listening_transport (list_endpoint base) endpoint_listening"
  unfolding list_endpoint_def by (rule endpoint_listening.listening_transport_axioms)

theorem combine_remove_leaves_second_witness:
  "\<exists>c2 id2. combine_remove_listener (list_endpoint 10) (list_endpoint 20) (ListenerId 1)
     (fst (combine_listen_on (list_endpoint 10) (list_endpoint 20) (ListenerId 1) (Multiaddr [3])
       (combine_new new_endpoint new_endpoint))) = (c2, True) \<and>
     id2 \<in> endpoint_listening (ct_t2 c2)"
proof -
  obtain c1 where on: "combine_listen_on (list_endpoint 10) (list_endpoint 20) (ListenerId 1)
      (Multiaddr [3]) (combine_new new_endpoint new_endpoint) = (c1, Inr (ListenerId 1))"
    by (simp add: combine_listen_on_def combine_new_def list_endpoint_def endpoint_transport_ops_def
        new_endpoint_def endpoint_listen_on_def)
  obtain c2 b where off: "combine_remove_listener (list_endpoint 10) (list_endpoint 20)
      (ListenerId 1) c1 = (c2, b)"
    by fastforce
  from combine_remove_leaves_second [OF list_endpoint_listening list_endpoint_listening on off]
  show ?thesis
    using on off by auto
qed

text \<open>
  When the second transport refuses to listen, the combined transport reports the refusal and
  registers no listener, but the first transport, which had accepted, is left listening.
\<close>

theorem combine_listen_leaks_first:
  assumes "listening_transport ops1 l1"
    and "tr_listen_on ops1 a (ct_t1 c) = (t1, Inr id1)"
    and "tr_listen_on ops2 a (ct_t2 c) = (t2, Inl e)"
  shows "\<exists>c'. combine_listen_on ops1 ops2 lid a c = (c', Inl (map_transport_error ErrB e)) \<and>
     id1 \<in> l1 (ct_t1 c') \<and> ct_listener_ids c' = ct_listener_ids c"
  using listening_transport.listen_on_Ok [OF assms(1,2)] assms(2,3)
  by (simp add: combine_listen_on_def)

theorem combine_listen_leaks_first_witness:
  "\<exists>c'. combine_listen_on (list_endpoint 10)
      ((list_endpoint 20)\<lparr>tr_listen_on := \<lambda>a t. (t, Inl (MultiaddrNotSupported a))\<rparr>)
      (ListenerId 1) (Multiaddr [3]) (combine_new new_endpoint new_endpoint) =
      (c', Inl (MultiaddrNotSupported (Multiaddr [3]))) \<and>
     ListenerId 10 \<in> endpoint_listening (ct_t1 c')"
proof -
  let ?ops2 = "(list_endpoint 20)\<lparr>tr_listen_on := \<lambda>a t. (t, Inl (MultiaddrNotSupported a))\<rparr>"
  let ?c = "combine_new new_endpoint new_endpoint"
  obtain t1 where "tr_listen_on (list_endpoint 10) (Multiaddr [3]) (ct_t1 ?c) = (t1, Inr (ListenerId 10))"
    by (simp add: combine_new_def list_endpoint_def endpoint_transport_ops_def
        new_endpoint_def endpoint_listen_on_def)
  from combine_listen_leaks_first [OF list_endpoint_listening this, of ?ops2 "ct_t2 ?c"
      "MultiaddrNotSupported (Multiaddr [3])" "ListenerId 1"]
  show ?thesis by auto
qed

text \<open>
  A poll reports an event of the first transport if it has one, and one of the second only when
  the first is pending and has been polled. The event is the inner transport's own: its listener id
  is the inner id, not the id that \<open>listen_on\<close> returned.
\<close>

theorem combine_poll_forwards:
  assumes "combine_poll ops1 ops2 c = Some (Inr (c', Ready ev))"
  shows "(\<exists>t1 ev1. tr_poll ops1 (ct_t1 c) = Some (Inr (t1, Ready ev1)) \<and> c' = c\<lparr>ct_t1 := t1\<rparr> \<and>
       ev = map_event First ErrA ev1 \<and> event_listener ev = event_listener ev1) \<or>
     (\<exists>t1 t2 ev2. tr_poll ops1 (ct_t1 c) = Some (Inr (t1, Pending)) \<and>
       tr_poll ops2 (ct_t2 c) = Some (Inr (t2, Ready ev2)) \<and> c' = c\<lparr>ct_t1 := t1, ct_t2 := t2\<rparr> \<and>
       ev = map_event Second ErrB ev2 \<and> event_listener ev = event_listener ev2)"
  using assms
  by (auto simp: combine_poll_def split: option.splits sum.splits prod.splits poll.splits)

theorem combine_poll_forwards_witness:
  "\<exists>c' ev. combine_poll (list_endpoint 10) (list_endpoint 20)
      (combine_new (map_prod id (\<lambda>t. t\<lparr>et_from_behaviour :=
         [BListenSuccess (ListenerId 10) (Multiaddr [3])]\<rparr>) new_endpoint) new_endpoint) =
      Some (Inr (c', Ready ev)) \<and> event_listener ev = ListenerId 10"
proof -
  let ?c = "combine_new (map_prod id (\<lambda>t. t\<lparr>et_from_behaviour :=
    [BListenSuccess (ListenerId 10) (Multiaddr [3])]\<rparr>) new_endpoint) new_endpoint"
  have p1: "\<exists>t. tr_poll (list_endpoint 10) (ct_t1 ?c) =
      Some (Inr (t, Ready (TrNewAddress (ListenerId 10) (Multiaddr [3]))))"
    by (simp add: combine_new_def list_endpoint_def endpoint_transport_ops_def new_endpoint_def
        endpoint_transport_poll_def endpoint_drain_success list_receiver_def)
  then obtain c' ev where p: "combine_poll (list_endpoint 10) (list_endpoint 20) ?c =
      Some (Inr (c', Ready ev))"
    by (auto simp: combine_poll_def)
  from combine_poll_forwards [OF p] p1 have "event_listener ev = ListenerId 10"
    by auto
  with p show ?thesis by blast
qed

end
