(* ===== verification/Shortcomings.thy ===== *)
theory Shortcomings
  imports Network Combine
begin

text \<open>
  What the code does in the corners where it does less than it means to, as theorems: each says what
  happens, on the model of the code as it is.
\<close>

section \<open>A stranger stops the endpoint\<close>

definition stranger_wires ::
  "(peer_id \<times> connection_id \<times> bytes endpoint_out_event) list \<Rightarrow> bytes endpoint_wires" where
  "stranger_wires evs =
     \<lparr>ew_links = [(ConnectionId 5, \<lparr>ek_peer = PeerId [8],
          ek_handler = endpoint_into_handler (endpoint_into_handler_new (PeerId [1])) (PeerId [8])\<rparr>),
        (ConnectionId 4, \<lparr>ek_peer = PeerId [9],
          ek_handler = endpoint_into_handler (endpoint_into_handler_new (PeerId [1])) (PeerId [9])\<rparr>)],
      ew_tasks = [], ew_notices = [], ew_events = evs\<rparr>"

definition stranger_accept :: "bytes wire_input list" where
  "stranger_accept =
     WiInbound (ConnectionId 5) 2 # map (WiConnectAwait 2) example_accept_trace @
     [WiFinish 2 [], WiHandlerPoll (ConnectionId 5) 2]"

abbreviation stranger_event :: "bytes endpoint_out_event" where
  "stranger_event \<equiv> EoNewConnection (PeerId [8]) (Multiaddr [1]) example_accepted"

abbreviation stranger_log :: "bytes wire_output" where
  "stranger_log \<equiv> WoAccepted (PeerId [8]) (endpoint_inbound_new (PeerId [1]) (Some (PeerId [8])))
     example_accept_trace (Inr \<lparr>io_listen_peer_id = PeerId [1], io_listen_addr = Multiaddr [1],
       io_relay_peer_id = PeerId [8], io_connection = example_accepted\<rparr>)"

lemma stranger_accepts:
  "run (wire_step raw_lib) stranger_accept (stranger_wires []) =
     Inr (stranger_wires [(PeerId [8], ConnectionId 5, stranger_event)], [stranger_log])"
proof -
  let ?w = "stranger_wires [(PeerId [8], ConnectionId 5, stranger_event)]"
  have "wires_end (run (wire_step raw_lib) stranger_accept (stranger_wires [])) ?w [stranger_log]"
    by code_simp
  then show ?thesis
    by (auto simp: wires_end_def stranger_wires_def split: sum.splits prod.splits list.splits)
qed

abbreviation stranger_behaviour ::
  "(bytes, example_channel, behaviour_to_transport_event list) endpoint_behaviour" where
  "stranger_behaviour \<equiv> example_listening\<lparr>eb_pending_new_connections := [\<lparr>nc_listen_addr = Multiaddr [1],
     nc_relay_peer_id = PeerId [8], nc_connection = example_accepted\<rparr>]\<rparr>"

definition stranger_inputs :: "(bytes, example_channel, example_channel) node_input list" where
  "stranger_inputs = example_node_listen @
     [NiSystem (SySwarm (ConnectionEstablished (PeerId [8]) (ConnectionId 5) (Multiaddr [8])))] @
     [NiOpen (ConnectionId 5) (PeerId [8])] @ map NiWire stranger_accept @ [NiDeliver]"

lemma stranger_runs:
  "\<exists>os. example_run (endpoint_node_new (PeerId [1]) (Multiaddr [9]) (PeerId [9])) stranger_inputs
     (example_node (example_system [] [] stranger_behaviour {#}) (stranger_wires [])) os \<and>
     NoWire stranger_log \<in> set os \<and> NoDelivered (PeerId [8]) (ConnectionId 5) stranger_event \<in> set os"
proof -
  let ?s = "example_system [] [] example_listening {#}"
  obtain os where listens: "example_run (endpoint_node_new (PeerId [1]) (Multiaddr [9]) (PeerId [9]))
      example_node_listen (example_node ?s (example_wires [] [])) os"
    using example_node_listens by blast
  have "system_step raw_lib 1 open_ops list_receiver ?s
      (SySwarm (ConnectionEstablished (PeerId [8]) (ConnectionId 5) (Multiaddr [8]))) ?s []"
    using system_step.swarm [of raw_lib open_ops 1 "ConnectionEstablished (PeerId [8]) (ConnectionId 5) (Multiaddr [8])"
        ?s example_listening "[]" list_receiver] by (simp add: example_simps)
  from example_outside [OF this, of "example_wires [] []" "example_wires [] []"]
  have established: "example_run (example_node ?s (example_wires [] []))
      [NiSystem (SySwarm (ConnectionEstablished (PeerId [8]) (ConnectionId 5) (Multiaddr [8])))]
      (example_node ?s (example_wires [] [])) []"
    by (simp add: example_add_notices)
  have "wire_step raw_lib (WiOpen (ConnectionId 5) (PeerId [8])
      (endpoint_new_handler (en_behaviour (example_node ?s (example_wires [] [])))))
      (en_wires (example_node ?s (example_wires [] []))) = Inr (stranger_wires [], [])"
    by (simp add: example_wires_def stranger_wires_def example_system_def endpoint_new_handler_def
        endpoint_behaviour_new_def)
  from node_run_step [OF node_step.opens [OF this]]
  have opened: "example_run (example_node ?s (example_wires [] [])) [NiOpen (ConnectionId 5) (PeerId [8])]
      (example_node ?s (stranger_wires [])) []"
    by simp
  have accepted: "example_run (example_node ?s (stranger_wires [])) (map NiWire stranger_accept)
      (example_node ?s (stranger_wires [(PeerId [8], ConnectionId 5, stranger_event)])) (map NoWire [stranger_log])"
    by (rule node_run_wires [OF stranger_accepts]) (simp add: stranger_accept_def example_accept_trace_def)
  have "endpoint_step raw_lib open_ops (bounded_ops 1) (EbHandler (PeerId [8]) (ConnectionId 5) stranger_event)
      example_listening = Inr (stranger_behaviour, [Effect Wake])"
    by (simp add: example_simps)
  with node_run_deliver [of "stranger_wires [(PeerId [8], ConnectionId 5, stranger_event)]" "PeerId [8]"
      "ConnectionId 5" stranger_event "[]" raw_lib open_ops 1 ?s stranger_behaviour "[Effect Wake]" list_receiver]
  have "example_run (example_node ?s (stranger_wires [(PeerId [8], ConnectionId 5, stranger_event)])) [NiDeliver]
      (example_node (example_system [] [] stranger_behaviour {#}) (stranger_wires []))
      (NoDelivered (PeerId [8]) (ConnectionId 5) stranger_event # [NoSystem (OutBehaviour (Effect Wake))])"
    by (simp add: stranger_wires_def example_system_def node_of_def)
  from node_run_trans [OF listens node_run_trans [OF established node_run_trans [OF opened
      node_run_trans [OF accepted this]]]]
  show ?thesis
    unfolding stranger_inputs_def by (intro exI conjI) (assumption, simp_all)
qed

lemma stranger_panics:
  "endpoint_step raw_lib open_ops (bounded_ops 1) (EbPoll Pending) stranger_behaviour =
     Inl (Panic (''relay peer '' @ show_peer raw_lib (PeerId [8]) @
       '' pending to transport event queue not found''))"
  by (simp add: endpoint_behaviour_new_def endpoint_poll_def endpoint_next_event_def offer_connection_def
      open_ops_def)

text \<open>
  C36: A peer that is not the relay can stop the endpoint. The endpoint's only relay is peer 9. In a run
  of the whole endpoint peer 8 connects, its handler is created, and an upgrade on its connection
  accepts one well-formed connect request that names the endpoint and the address it listens at; the
  handler reports the connection to the behaviour. The next poll of the behaviour then panics because
  it finds no queue for peer 8 among those of its relays, so the endpoint cannot take that step.
\<close>

theorem stranger_stops_endpoint:
  "\<exists>is (n :: (bytes, example_channel, example_channel) endpoint_node) os.
     node_run raw_lib 1 open_ops list_receiver
       (endpoint_node_new (PeerId [1]) (Multiaddr [9]) (PeerId [9])) is n os \<and>
     NiOpen (ConnectionId 5) (PeerId [8]) \<in> set is \<and>
     NoWire (WoAccepted (PeerId [8]) (endpoint_inbound_new (PeerId [1]) (Some (PeerId [8])))
       example_accept_trace (Inr \<lparr>io_listen_peer_id = PeerId [1], io_listen_addr = Multiaddr [1],
         io_relay_peer_id = PeerId [8], io_connection = example_accepted\<rparr>)) \<in> set os \<and>
     NoDelivered (PeerId [8]) (ConnectionId 5)
       (EoNewConnection (PeerId [8]) (Multiaddr [1]) example_accepted) \<in> set os \<and>
     et_to_behaviour (en_transport n) = [] \<and>
     endpoint_step raw_lib open_ops (bounded_ops 1) (EbPoll Pending) (en_behaviour n) =
       Inl (Panic (''relay peer '' @ show_peer raw_lib (PeerId [8]) @
         '' pending to transport event queue not found'')) \<and>
     \<not> (\<exists>n' os'. node_step raw_lib 1 open_ops list_receiver n (NiSystem SyPoll) n' os')"
proof -
  let ?n = "example_node (example_system [] [] stranger_behaviour {#}) (stranger_wires [])"
  have "\<not> node_step raw_lib 1 open_ops list_receiver ?n (NiSystem SyPoll) n' os'" for n' os'
  proof
    assume "node_step raw_lib 1 open_ops list_receiver ?n (NiSystem SyPoll) n' os'"
    then obtain s os where "system_step raw_lib 1 open_ops list_receiver (node_system ?n) SyPoll s os"
      by (cases rule: node_step.cases) auto
    then obtain recv q b' os2 where
      "rx_poll_next list_receiver (et_to_behaviour (es_transport (node_system ?n))) = (recv, q)"
      and "endpoint_step raw_lib open_ops (bounded_ops 1) (EbPoll recv) (es_behaviour (node_system ?n)) = Inr (b', os2)"
      by (auto elim: system_pollE)
    then have "recv = Pending"
      and "endpoint_step raw_lib open_ops (bounded_ops 1) (EbPoll recv) stranger_behaviour = Inr (b', os2)"
      by (simp_all add: node_system_def example_system_def list_receiver_def)
    then show False
      using stranger_panics by simp
  qed
  moreover have "endpoint_step raw_lib open_ops (bounded_ops 1) (EbPoll Pending) (en_behaviour ?n) =
      Inl (Panic (''relay peer '' @ show_peer raw_lib (PeerId [8]) @
        '' pending to transport event queue not found''))"
    using stranger_panics by (simp add: example_system_def del: endpoint_step.simps)
  moreover have "et_to_behaviour (en_transport ?n) = []"
    by (simp add: example_system_def)
  moreover have "NiOpen (ConnectionId 5) (PeerId [8]) \<in> set stranger_inputs"
    by (simp add: stranger_inputs_def)
  ultimately show ?thesis
    using stranger_runs by blast
qed

section \<open>Listening\<close>

text \<open>
  Every connection that a listener takes queues another success report for the transport, and with it
  another \<open>NewAddress\<close> event for the application.
\<close>

theorem endpoint_accept_reports_again:
  assumes "eb_listeners b (nc_listen_addr nc) = Some l"
    and "offer_connection lops (ls_sender l) (nc_connection nc) = OfferTaken tx"
    and "map_of (eb_pending_to_transport b) (nc_relay_peer_id nc) = Some q"
    and "endpoint_new_connections L lops [nc] b = Inr (b', r)"
  shows "map_of (eb_pending_to_transport b') (nc_relay_peer_id nc) =
     Some (q @ [BListenSuccess (ls_listener_id l) (nc_listen_addr nc)])"
  using assms by (auto simp: queue_to_transport_def map_of_map_entry)

section \<open>Connections to the relay\<close>

text \<open>
  A second connection to the relay is not recorded. When the first closes, the relay counts as not
  connected, although the second is open, and the next request dials the relay again.
\<close>

theorem endpoint_second_connection_forgotten:
  assumes "relay \<in> eb_connecting b" and "eb_established b relay = None" and "t2b_relay_peer_id ev = relay"
    and "endpoint_on_swarm_event L (ConnectionEstablished relay c1 a1) b = (b1, es1)"
    and "endpoint_on_swarm_event L (ConnectionEstablished relay c2 a2) b1 = (b2, es2)"
    and "endpoint_on_swarm_event L (ConnectionClosed relay c1 a1) b2 = (b3, es3)"
  shows "eb_established b3 relay = None \<and>
     (\<exists>b4. endpoint_next_event (Ready (Some ev)) b3 =
        (b4, Inl (DialPeer relay [t2b_relay_addr ev] (endpoint_new_handler b3))))"
proof -
  from assms(1,2,4) have b1: "relay \<notin> eb_connecting b1" "eb_established b1 relay = Some {c1}"
    by (auto simp: Let_def split: option.splits)
  with assms(5) have "b2 = b1"
    by auto
  with assms(6) b1 have "relay \<notin> eb_connecting b3" "eb_established b3 relay = None"
    by (auto simp: Let_def split: option.splits)
  with assms(3) show ?thesis
    by (simp add: endpoint_next_event_def Let_def endpoint_new_handler_def)
qed

section \<open>Polls that stop too early\<close>

text \<open>
  A poll of the endpoint's behaviour that takes a request for a relay that is being dialed returns
  \<open>Pending\<close>, when nothing else is to do, although its receiver was ready and may hold more: nothing
  wakes the task for the next request.
\<close>

lemma flush_empty_queues:
  "list_all (\<lambda>(relay, q). q = [] \<and> map_of (eb_to_transports b) relay \<noteq> None) entries \<Longrightarrow>
     \<exists>b'. flush_transports L tops entries b = Inr (b', None) \<and> eb_pending_actions b' = eb_pending_actions b"
proof (induction entries arbitrary: b)
  case (Cons entry entries)
  obtain relay q where entry: "entry = (relay, q)"
    by fastforce
  with Cons.prems obtain tx where tx: "q = []" "map_of (eb_to_transports b) relay = Some tx"
    by auto
  let ?b = "b\<lparr>eb_to_transports := AList.update relay tx (eb_to_transports b),
      eb_pending_to_transport := AList.update relay [] (eb_pending_to_transport b)\<rparr>"
  have "map_of (eb_to_transports ?b) = map_of (eb_to_transports b)"
    using tx(2) by (simp add: update_conv' fun_upd_idem)
  then have "list_all (\<lambda>(relay, q). q = [] \<and> map_of (eb_to_transports ?b) relay \<noteq> None) entries"
    using Cons.prems by simp
  from Cons.IH [OF this] entry tx show ?case by simp
qed simp

theorem endpoint_ready_request_returns_pending:
  assumes "t2b_relay_peer_id ev \<in> eb_connecting b" and "eb_established b (t2b_relay_peer_id ev) = None"
    and "eb_pending_new_connections b = []" and "eb_pending_actions b = []"
    and "list_all (\<lambda>(relay, q). q = [] \<and> map_of (eb_to_transports b) relay \<noteq> None) (eb_pending_to_transport b)"
  shows "\<exists>b'. endpoint_poll L lops tops (Ready (Some ev)) b = Inr (b', [Register], Pending)"
proof -
  obtain b1 where next_ev: "endpoint_next_event (Ready (Some ev)) b = (b1, Inr None)"
    and b1: "eb_pending_new_connections b1 = []" "eb_pending_actions b1 = []"
      "eb_pending_to_transport b1 = eb_pending_to_transport b" "eb_to_transports b1 = eb_to_transports b"
    using assms(1-4) by (auto simp: endpoint_next_event_def Let_def)
  then have "endpoint_new_connections L lops (eb_pending_new_connections b1) b1 = Inr (b1, None)"
    by (simp add: endpoint_behaviour.surjective)
  moreover obtain b2 where "flush_transports L tops (eb_pending_to_transport b1) b1 = Inr (b2, None)"
    and "eb_pending_actions b2 = []"
    using flush_empty_queues [of b1 "eb_pending_to_transport b1" L tops] assms(5) b1 by auto
  ultimately show ?thesis
    using next_ev by (simp add: endpoint_poll_def endpoint_poll_actions_def)
qed

text \<open>
  A poll of the relay's behaviour takes one finished copy and returns \<open>Pending\<close>, when nothing else is
  to do, although the set of copies was ready and may hold more that are finished.
\<close>

theorem relay_ready_copy_returns_pending:
  assumes "rb_pending_actions s = []"
  shows "\<exists>s'. relay_poll L (Ready (Some x)) Pending s = (s', [Register], Pending)"
  using assms by (simp add: relay_poll_def Let_def)

end
