(* ===== verification/Endpoint_Handshakes.thy ===== *)
theory Endpoint_Handshakes
  imports Endpoint_Runs
begin

text \<open>
  That the endpoint's handshakes get on: a dial or a listen that is handed to an idle handler runs its
  upgrade, and however the upgrade ends, the handler reports exactly one outcome for it and is as it
  was before.
\<close>

section \<open>Association lists\<close>

lemma update_twice: "AList.update k v (AList.update k u xs) = AList.update k v xs"
  by (induction xs) auto

lemma drop_new_key: "map_of xs k = None \<Longrightarrow> drop_key k (AList.update k v xs) = xs"
  by (induction xs) (auto split: if_splits)

lemma put_task_twice: "put_task k t (put_task k u w) = put_task k t w"
  by (simp add: put_task_def update_twice)

lemma drop_new_task: "map_of (ew_tasks w) k = None \<Longrightarrow> drop_task k (put_task k t w) = w"
  by (simp add: put_task_def drop_task_def drop_new_key)

lemma put_handler_twice: "put_handler cid (l\<lparr>ek_handler := h\<rparr>) h' (put_handler cid l h w) = put_handler cid l h' w"
  by (simp add: put_handler_def update_twice)

lemma put_own_handler: "map_of (ew_links w) cid = Some l \<Longrightarrow> put_handler cid l (ek_handler l) w = w"
  by (simp add: put_handler_def update_triv)

lemma put_handler_lookup [simp]:
  "map_of (ew_links (put_handler cid l h w)) cid = Some (l\<lparr>ek_handler := h\<rparr>)"
  by (simp add: put_handler_def update_conv')

lemma put_task_lookup [simp]: "map_of (ew_tasks (put_task k t w)) k = Some t"
  by (simp add: put_task_def update_conv')

section \<open>An upgrade, await by await\<close>

lemma run_dial_awaits:
  "runs t tr t' \<Longrightarrow> map_of (ew_tasks w) k = Some (OutDialTask cid u info tr0 t) \<Longrightarrow>
     run (wire_step L) (map (WiDialAwait k) tr) w = Inr (put_task k (OutDialTask cid u info (tr0 @ tr) t') w, [])"
proof (induction t tr t' arbitrary: tr0 w rule: runs.induct)
  case (runs_stop t)
  then show ?case
    by (simp add: put_task_def update_triv)
next
  case (runs_more p e p' es q)
  let ?w = "put_task k (OutDialTask cid u info (tr0 @ [e]) p') w"
  have "wire_step L (WiDialAwait k e) w = Inr (?w, [])"
    using runs_more.prems runs_more.hyps(1) by (simp flip: resume_iff)
  moreover have "run (wire_step L) (map (WiDialAwait k) es) ?w =
      Inr (put_task k (OutDialTask cid u info ((tr0 @ [e]) @ es) q) ?w, [])"
    by (rule runs_more.IH) simp
  ultimately show ?case
    by (simp add: put_task_twice)
qed

lemma run_listen_awaits:
  "runs t tr t' \<Longrightarrow> map_of (ew_tasks w) k = Some (OutListenTask cid u info tr0 t) \<Longrightarrow>
     run (wire_step L) (map (WiListenAwait k) tr) w = Inr (put_task k (OutListenTask cid u info (tr0 @ tr) t') w, [])"
proof (induction t tr t' arbitrary: tr0 w rule: runs.induct)
  case (runs_stop t)
  then show ?case
    by (simp add: put_task_def update_triv)
next
  case (runs_more p e p' es q)
  let ?w = "put_task k (OutListenTask cid u info (tr0 @ [e]) p') w"
  have "wire_step L (WiListenAwait k e) w = Inr (?w, [])"
    using runs_more.prems runs_more.hyps(1) by (simp flip: resume_iff)
  moreover have "run (wire_step L) (map (WiListenAwait k) es) ?w =
      Inr (put_task k (OutListenTask cid u info ((tr0 @ [e]) @ es) q) ?w, [])"
    by (rule runs_more.IH) simp
  ultimately show ?case
    by (simp add: put_task_twice)
qed

section \<open>From the notice to the outcome\<close>

text \<open>The handler has nothing queued.\<close>

definition idle_link :: "connection_id \<Rightarrow> 'ss endpoint_link \<Rightarrow> 'ss endpoint_wires \<Rightarrow> bool" where
  "idle_link cid l w \<longleftrightarrow> map_of (ew_links w) cid = Some l \<and>
     eh_pending_events (ek_handler l) = [] \<and> eh_pending_inbound_upgrade_output (ek_handler l) = []"

text \<open>A handler that gets one event and is polled is idle again, and the event is out.\<close>

lemma idle_notify:
  assumes "idle_link cid l w" and "map_of (ew_tasks w) k = None"
    and "ew_notices w = (ek_peer l, x) # ns"
    and "endpoint_on_behaviour_event x (ek_handler l) = (eh_push (OutboundSubstreamRequest u info) (ek_handler l), es)"
  shows "run (wire_step L) [WiNotify cid, WiHandlerPoll cid k] w =
     Inr (put_task k (outbound_task L cid u info) (w\<lparr>ew_notices := ns\<rparr>), [])"
proof -
  let ?h = "eh_push (OutboundSubstreamRequest u info) (ek_handler l)"
  let ?w = "w\<lparr>ew_notices := ns\<rparr>"
  have "wire_step L (WiNotify cid) w = Inr (put_handler cid l ?h ?w, [])"
    using assms by (simp add: idle_link_def put_handler_def)
  moreover have "endpoint_handler_poll ?h = (ek_handler l, [], Ready (OutboundSubstreamRequest u info))"
    using assms(1) by (simp add: idle_link_def endpoint_handler_poll_def eh_push_def)
  then have "wire_step L (WiHandlerPoll cid k) (put_handler cid l ?h ?w) =
      Inr (put_task k (outbound_task L cid u info) (put_handler cid l (ek_handler l) ?w), [])"
    using assms(2) by (simp add: put_handler_twice)
  moreover have "put_handler cid l (ek_handler l) ?w = ?w"
    using assms(1) by (simp add: put_own_handler idle_link_def)
  ultimately show ?thesis
    by simp
qed

lemma idle_outcome:
  assumes "idle_link cid l w" and "map_of (ew_tasks w) k = None"
    and "endpoint_on_connection_event ce (ek_handler l) = Inr (eh_push (Custom e) (ek_handler l), es)"
  shows "report_outcome cid l ce os w = Inr (put_handler cid l (eh_push (Custom e) (ek_handler l)) w, os) \<and>
     wire_step L (WiHandlerPoll cid k) (put_handler cid l (eh_push (Custom e) (ek_handler l)) w) =
       Inr (w\<lparr>ew_events := ew_events w @ [(ek_peer l, cid, e)]\<rparr>, [])"
proof -
  let ?h = "eh_push (Custom e) (ek_handler l)"
  have "endpoint_handler_poll ?h = (ek_handler l, [], Ready (Custom e))"
    using assms(1) by (simp add: idle_link_def endpoint_handler_poll_def eh_push_def)
  moreover have "put_handler cid l (ek_handler l) w = w"
    using assms(1) by (simp add: put_own_handler idle_link_def)
  ultimately show ?thesis
    using assms(2,3) by (simp add: report_outcome_def put_handler_twice) (simp add: put_handler_def)
qed

text \<open>The event that a handler reports for a dial, or a listen, that ended with \<open>r\<close>.\<close>

fun dial_outcome :: "string \<Rightarrow> peer_id \<Rightarrow> oneshot \<Rightarrow> endpoint_error + 'ss connection \<Rightarrow> 'ss endpoint_out_event" where
  "dial_outcome msg relay sender (Inl e) = EoDialFailed (upgr_io_error (UpgrOther msg)) relay sender"
| "dial_outcome msg relay sender (Inr c) = EoDialSuccess relay c sender"

fun listen_outcome ::
  "string \<Rightarrow> peer_id \<Rightarrow> listener_id \<Rightarrow> peer_id \<Rightarrow> multiaddr \<Rightarrow> endpoint_error + unit \<Rightarrow> 'ss endpoint_out_event" where
  "listen_outcome msg relay lid q a (Inl e) = EoListenFailed (upgr_io_error (UpgrOther msg)) relay lid q a"
| "listen_outcome msg relay lid q a (Inr u) = EoListenSuccess relay lid q a"

lemma dial_outcome_pushed:
  "\<exists>es. endpoint_on_connection_event (outbound_outcome_event msg (InfoDial sender) (map_sum id Inl r)) h =
     Inr (eh_push (Custom (dial_outcome msg (eh_relay_peer_id h) sender r)) h, es)"
  by (cases r) simp_all

lemma listen_outcome_pushed:
  "\<exists>es. endpoint_on_connection_event (outbound_outcome_event msg (InfoListen lid q a) (map_sum id Inr r)) h =
     Inr (eh_push (Custom (listen_outcome msg (eh_relay_peer_id h) lid q a r)) h, es)"
  by (cases r) simp_all

text \<open>
  The steps from the notice to the event: the handler is told, asks for the upgrade \<open>u\<close>, whose awaits
  \<open>tr\<close> are answered by the inputs \<open>ins\<close>, reports its outcome \<open>ce\<close>, and hands the event out.
\<close>

abbreviation handshake_inputs ::
  "connection_id \<Rightarrow> nat \<Rightarrow> 'ss wire_input list \<Rightarrow> string \<Rightarrow> 'ss wire_input list" where
  "handshake_inputs cid k ins msg \<equiv>
     [WiNotify cid, WiHandlerPoll cid k] @ ins @ [WiFinish k msg, WiHandlerPoll cid k]"

lemma idle_handshake:
  assumes "idle_link cid l w" and "map_of (ew_tasks w) k = None" and "ew_notices w = (ek_peer l, x) # ns"
    and notice: "endpoint_on_behaviour_event x (ek_handler l) =
      (eh_push (OutboundSubstreamRequest u info) (ek_handler l), es)"
    and awaits: "run (wire_step L) ins (put_task k (outbound_task L cid u info) (w\<lparr>ew_notices := ns\<rparr>)) =
      Inr (put_task k t (w\<lparr>ew_notices := ns\<rparr>), [])"
    and "endpoint_task_link t = cid"
    and finish: "\<And>w'. endpoint_finish msg k t l w' = report_outcome cid l ce os (drop_task k w')"
    and event: "\<exists>es. endpoint_on_connection_event ce (ek_handler l) = Inr (eh_push (Custom e) (ek_handler l), es)"
  shows "run (wire_step L) (handshake_inputs cid k ins msg) w =
     Inr (w\<lparr>ew_notices := ns, ew_events := ew_events w @ [(ek_peer l, cid, e)]\<rparr>, os)"
proof -
  let ?w = "w\<lparr>ew_notices := ns\<rparr>"
  have idle: "idle_link cid l ?w" and free: "map_of (ew_tasks ?w) k = None"
    using assms(1,2) by (simp_all add: idle_link_def)
  note start = idle_notify [OF assms(1-3) notice, of L]
  from event obtain es where
    "endpoint_on_connection_event ce (ek_handler l) = Inr (eh_push (Custom e) (ek_handler l), es)"
    by blast
  note outcome = idle_outcome [OF idle free this, of os L]
  have "endpoint_task_at k (put_task k t ?w) = Some (t, l)"
    using idle assms(6) by (simp add: endpoint_task_at_Some idle_link_def)
  then have "wire_step L (WiFinish k msg) (put_task k t ?w) =
      Inr (put_handler cid l (eh_push (Custom e) (ek_handler l)) ?w, os)"
    using outcome by (simp add: finish drop_new_task [OF free])
  from run_trans [OF start run_trans [OF awaits]] this outcome show ?thesis
    by simp
qed

text \<open>The example's handler is idle.\<close>

abbreviation example_link :: "bytes endpoint_link" where
  "example_link \<equiv> \<lparr>ek_peer = PeerId [9],
     ek_handler = endpoint_into_handler (endpoint_into_handler_new (PeerId [1])) (PeerId [9])\<rparr>"

lemma example_wires_idle:
  "idle_link (ConnectionId 4) example_link (example_wires notices evs)"
  "map_of (ew_tasks (example_wires notices evs)) k = None" "ew_notices (example_wires notices evs) = notices"
  by (simp_all add: idle_link_def example_wires_def endpoint_into_handler_def)

lemma example_wires_event:
  "(example_wires [n] [])\<lparr>ew_notices := [], ew_events := ew_events (example_wires [n] []) @ [e]\<rparr> = example_wires [] [e]"
  by (simp add: example_wires_def)

lemmas example_handshake = example_wires_event endpoint_link.simps dial_outcome.simps listen_outcome.simps
  endpoint_into_handler_def endpoint_handler.simps map_sum.simps id_apply

text \<open>
  C33: A dial that is handed to an idle handler of a connection to its relay ends, whatever the relay
  answers: when every await of its upgrade has been answered, the handler reports exactly one event,
  the success with the negotiated connection or the failure, with the sender of this dial, and
  handler, running upgrades and events on their way are otherwise as they were.
\<close>

theorem endpoint_dial_concludes:
  assumes "idle_link cid l w" and "map_of (ew_tasks w) k = None"
    and "ew_notices w = (ek_peer l, EiDial dst a sender) # ns"
    and "completes (endpoint_dial_upgrade L dst a) tr (Inr r)"
  shows "run (wire_step L) (handshake_inputs cid k (map (WiDialAwait k) tr) msg) w =
     Inr (w\<lparr>ew_notices := ns, ew_events := ew_events w @
         [(ek_peer l, cid, dial_outcome msg (eh_relay_peer_id (ek_handler l)) sender r)]\<rparr>,
       [WoDialed (ek_peer l) (OutDial dst a) (InfoDial sender) tr (map_sum id Inl r)])"
proof (rule idle_handshake [OF assms(1-3)])
  let ?info = "InfoDial sender" and ?u = "OutDial dst a"
  let ?t = "bind_upg (endpoint_dial_upgrade L dst a) (\<lambda>r. Done (map_sum id (map_sum id Inl) r))"
  let ?w = "put_task k (OutDialTask cid ?u ?info [] ?t) (w\<lparr>ew_notices := ns\<rparr>)"
  show "endpoint_on_behaviour_event (EiDial dst a sender) (ek_handler l) =
      (eh_push (OutboundSubstreamRequest ?u ?info) (ek_handler l), [Wake])"
    by (simp add: new_dial_def)
  have "runs ?t tr (Done (Inr (map_sum id Inl r)))"
    unfolding runs_bind_Done by (rule exI [of _ "Done (Inr r)"]) (simp add: assms(4))
  from run_dial_awaits [OF this, of ?w k cid ?u ?info "[]" L]
  show "run (wire_step L) (map (WiDialAwait k) tr)
      (put_task k (outbound_task L cid ?u ?info) (w\<lparr>ew_notices := ns\<rparr>)) =
      Inr (put_task k (OutDialTask cid ?u ?info tr (Done (Inr (map_sum id Inl r)))) (w\<lparr>ew_notices := ns\<rparr>), [])"
    by (simp add: outbound_task_def put_task_twice)
  show "\<exists>es. endpoint_on_connection_event (outbound_outcome_event msg ?info (map_sum id Inl r)) (ek_handler l) =
      Inr (eh_push (Custom (dial_outcome msg (eh_relay_peer_id (ek_handler l)) sender r)) (ek_handler l), es)"
    by (rule dial_outcome_pushed)
qed (simp_all add: endpoint_finish_def)

theorem endpoint_dial_concludes_witness:
  "run (wire_step raw_lib) (handshake_inputs (ConnectionId 4) 1 (map (WiDialAwait 1) dial_trace1) [])
     (example_wires [example_notice_dial] []) =
   Inr (example_wires [] [(PeerId [9], ConnectionId 4, example_dialed)], [example_dial_log])"
  using endpoint_dial_concludes [of "ConnectionId 4" example_link "example_wires [example_notice_dial] []" 1,
      OF example_wires_idle(1,2) _ dial_trace1_completes, of "Oneshot 1" "[]" "[]"]
  by (simp only: example_wires_idle(3) example_handshake)

abbreviation example_listen_trace :: "(pb_listen_response, pb_listen_request, bytes) ev list" where
  "example_listen_trace \<equiv> [EvSend \<lparr>req_listen_peer_id = show_peer raw_lib (PeerId [1]),
     req_listen_addr = show_addr raw_lib (Multiaddr [1])\<rparr> (Inr ()), EvNext (Inr (Some (Some PbListenSuccess)))]"

lemma example_listen_completes:
  "completes (endpoint_listen_upgrade raw_lib (PeerId [1]) (Multiaddr [1])) example_listen_trace (Inr (Inr ()))"
  by (simp add: endpoint_listen_upgrade_def)

text \<open>
  A listen that is handed to an idle handler of a connection to its relay ends as well: when every
  await of its upgrade has been answered, the handler reports exactly one event, that the listen was
  granted or that it failed, for the listener, the peer and the address of this listen.
\<close>

theorem endpoint_listen_concludes:
  assumes "idle_link cid l w" and "map_of (ew_tasks w) k = None"
    and "ew_notices w = (ek_peer l, EiListen lid q a) # ns"
    and "completes (endpoint_listen_upgrade L q a) tr (Inr r)"
  shows "run (wire_step L) (handshake_inputs cid k (map (WiListenAwait k) tr) msg) w =
     Inr (w\<lparr>ew_notices := ns, ew_events := ew_events w @
         [(ek_peer l, cid, listen_outcome msg (eh_relay_peer_id (ek_handler l)) lid q a r)]\<rparr>,
       [WoListened (ek_peer l) (OutListen q a) (InfoListen lid q a) tr (map_sum id Inr r)])"
proof (rule idle_handshake [OF assms(1-3)])
  let ?info = "InfoListen lid q a" and ?u = "OutListen q a"
  let ?t = "bind_upg (endpoint_listen_upgrade L q a) (\<lambda>r. Done (map_sum id (map_sum id Inr) r))"
  let ?w = "put_task k (OutListenTask cid ?u ?info [] ?t) (w\<lparr>ew_notices := ns\<rparr>)"
  show "endpoint_on_behaviour_event (EiListen lid q a) (ek_handler l) =
      (eh_push (OutboundSubstreamRequest ?u ?info) (ek_handler l), [Wake])"
    by (simp add: new_listen_def)
  have "runs ?t tr (Done (Inr (map_sum id Inr r)))"
    unfolding runs_bind_Done by (rule exI [of _ "Done (Inr r)"]) (simp add: assms(4))
  from run_listen_awaits [OF this, of ?w k cid ?u ?info "[]" L]
  show "run (wire_step L) (map (WiListenAwait k) tr)
      (put_task k (outbound_task L cid ?u ?info) (w\<lparr>ew_notices := ns\<rparr>)) =
      Inr (put_task k (OutListenTask cid ?u ?info tr (Done (Inr (map_sum id Inr r)))) (w\<lparr>ew_notices := ns\<rparr>), [])"
    by (simp add: outbound_task_def put_task_twice)
  show "\<exists>es. endpoint_on_connection_event (outbound_outcome_event msg ?info (map_sum id Inr r)) (ek_handler l) =
      Inr (eh_push (Custom (listen_outcome msg (eh_relay_peer_id (ek_handler l)) lid q a r)) (ek_handler l), es)"
    by (rule listen_outcome_pushed)
qed (simp_all add: endpoint_finish_def)

theorem endpoint_listen_concludes_witness:
  "run (wire_step raw_lib) (handshake_inputs (ConnectionId 4) 0 (map (WiListenAwait 0) example_listen_trace) [])
     (example_wires [example_notice_listen] []) =
   Inr (example_wires [] [(PeerId [9], ConnectionId 4, example_granted)], [example_listen_log])"
  using endpoint_listen_concludes [of "ConnectionId 4" example_link "example_wires [example_notice_listen] []" 0,
      OF example_wires_idle(1,2) _ example_listen_completes, of "ListenerId 1" "[]" "[]"]
  by (simp only: example_wires_idle(3) example_handshake)

end
