(* ===== verification/Relay_Progress.thy ===== *)
theory Relay_Progress
  imports Relay_Joining
begin

text \<open>
  That the relay gets on: as many polls as there are requests serve them all, and a connect that
  was passed to the handler of its peer runs after as many polls as that handler has events queued.
\<close>

section \<open>Polls serve requests\<close>

text \<open>The notice that a request becomes.\<close>

fun relay_notice_of :: "connect_request \<Rightarrow> peer_id \<times> relay_in_event" where
  "relay_notice_of q = (cr_dst_peer_id q, RiConnect (cr_dst_addr q) (cr_dst_peer_id q) (cr_dialer_addr q))"

lemma relay_poll_request:
  assumes "rs_requests s = q # qs"
  obtains s' log where "relay_system_step L (RsPoll copied) s = Inr (s', log)"
    "rs_requests s' = qs" "rb_listening_clients (rs_behaviour s') = rb_listening_clients (rs_behaviour s)"
    "rs_notices s' = rs_notices s @
       (if cr_dst_peer_id q \<in> rb_listening_clients (rs_behaviour s) then [relay_notice_of q] else [])"
    "cr_dst_peer_id q \<notin> rb_listening_clients (rs_behaviour s) \<Longrightarrow>
       LogOut (Effect (Answer (cr_connection_sender q) (Inl (not_listened L (cr_dst_peer_id q)))))
         \<in> set log"
proof (cases "cr_dst_peer_id q \<in> rb_listening_clients (rs_behaviour s)")
  case True
  have "concat (map (notices \<circ> Effect) es) = []" for es :: "'a effect list"
    by (induction es) simp_all
  with True assms that show thesis
    by (auto simp: behave_def relay_poll_def Let_def)
next
  case False
  with assms that show thesis
    by (auto simp: behave_def relay_poll_def Let_def)
qed

lemma relay_polls_serve:
  "n \<le> length (rs_requests s) \<Longrightarrow>
     \<exists>s' log. run (relay_system_step L) (replicate n (RsPoll Pending)) s = Inr (s', log) \<and>
       rs_requests s' = drop n (rs_requests s) \<and>
       rs_notices s' = rs_notices s @ map relay_notice_of
         (filter (\<lambda>q. cr_dst_peer_id q \<in> rb_listening_clients (rs_behaviour s)) (take n (rs_requests s))) \<and>
       list_all (\<lambda>q. cr_dst_peer_id q \<in> rb_listening_clients (rs_behaviour s) \<or>
           LogOut (Effect (Answer (cr_connection_sender q) (Inl (not_listened L (cr_dst_peer_id q)))))
             \<in> set log) (take n (rs_requests s))"
proof (induction n arbitrary: s)
  case (Suc n)
  then obtain q qs where qs: "rs_requests s = q # qs"
    by (cases "rs_requests s") auto
  from relay_poll_request [OF qs, of L Pending] obtain s1 log1 where
    st: "relay_system_step L (RsPoll Pending) s = Inr (s1, log1)"
    and s1: "rs_requests s1 = qs" "rb_listening_clients (rs_behaviour s1) = rb_listening_clients (rs_behaviour s)"
      "rs_notices s1 = rs_notices s @
        (if cr_dst_peer_id q \<in> rb_listening_clients (rs_behaviour s) then [relay_notice_of q] else [])"
    and ref: "cr_dst_peer_id q \<notin> rb_listening_clients (rs_behaviour s) \<Longrightarrow>
       LogOut (Effect (Answer (cr_connection_sender q) (Inl (not_listened L (cr_dst_peer_id q)))))
         \<in> set log1"
    by blast
  from Suc.IH [of s1] Suc.prems qs s1(1) obtain s' log where
    r: "run (relay_system_step L) (replicate n (RsPoll Pending)) s1 = Inr (s', log)"
    and s': "rs_requests s' = drop n (rs_requests s1)"
      "rs_notices s' = rs_notices s1 @ map relay_notice_of
         (filter (\<lambda>q. cr_dst_peer_id q \<in> rb_listening_clients (rs_behaviour s1)) (take n (rs_requests s1)))"
    and rest: "list_all (\<lambda>q. cr_dst_peer_id q \<in> rb_listening_clients (rs_behaviour s1) \<or>
           LogOut (Effect (Answer (cr_connection_sender q) (Inl (not_listened L (cr_dst_peer_id q)))))
             \<in> set log) (take n (rs_requests s1))"
    by auto
  from st r have "run (relay_system_step L) (replicate (Suc n) (RsPoll Pending)) s = Inr (s', log1 @ log)"
    by simp
  moreover have "list_all (\<lambda>q. cr_dst_peer_id q \<in> rb_listening_clients (rs_behaviour s) \<or>
           LogOut (Effect (Answer (cr_connection_sender q) (Inl (not_listened L (cr_dst_peer_id q)))))
             \<in> set (log1 @ log)) (take (Suc n) (rs_requests s))"
    using rest ref unfolding qs s1 by (auto simp: list_all_iff)
  ultimately show ?case
    using s' s1 qs by auto
qed simp

text \<open>
  C15: As many polls of the relay's behaviour as there are requests in its channel serve them all, in
  order and whatever the state: a request for a peer that listens is passed on towards that peer's
  handler, and every other one is refused. No request is stuck behind another.
\<close>

theorem relay_polls_serve_requests:
  "\<exists>s' log. run (relay_system_step L) (replicate (length (rs_requests s)) (RsPoll Pending)) s = Inr (s', log) \<and>
     rs_requests s' = [] \<and>
     rs_notices s' = rs_notices s @ map relay_notice_of
       (filter (\<lambda>q. cr_dst_peer_id q \<in> rb_listening_clients (rs_behaviour s)) (rs_requests s)) \<and>
     list_all (\<lambda>q. cr_dst_peer_id q \<in> rb_listening_clients (rs_behaviour s) \<or>
         LogOut (Effect (Answer (cr_connection_sender q) (Inl (not_listened L (cr_dst_peer_id q)))))
           \<in> set log) (rs_requests s)"
  using relay_polls_serve [of "length (rs_requests s)" s L] by simp

section \<open>Connects run\<close>

lemma handler_polls_reach:
  "rs_links s cid = Some l \<Longrightarrow> rh_pending_events (lk_handler l) = evs @ [OutboundSubstreamRequest v info] \<Longrightarrow>
     length ks = Suc (length evs) \<Longrightarrow> distinct ks \<Longrightarrow> list_all (\<lambda>k. rs_tasks s k = None) ks \<Longrightarrow>
     \<exists>s'. run (relay_system_step L) (map (RsHandlerPoll cid) ks) s = Inr (s', []) \<and>
       rs_tasks s' (last ks) = Some (ConnectTask cid v info [] (relay_upgrade_outbound L v))"
proof (induction evs arbitrary: s l ks)
  case Nil
  then obtain k where ks: "ks = [k]"
    by (cases ks) auto
  with Nil show ?case
    by (auto simp: relay_handler_poll_def)
next
  case (Cons ev evs)
  from Cons.prems(3) obtain k ks' where ks: "ks = k # ks'" "length ks' = Suc (length evs)"
    by (cases ks) auto
  then have "ks' \<noteq> []"
    by auto
  let ?l = "l\<lparr>lk_handler := lk_handler l\<lparr>rh_pending_events := evs @ [OutboundSubstreamRequest v info]\<rparr>\<rparr>"
  have "\<exists>s1. relay_system_step L (RsHandlerPoll cid k) s = Inr (s1, []) \<and> rs_links s1 cid = Some ?l \<and>
      (\<forall>k'. k' \<noteq> k \<longrightarrow> rs_tasks s1 k' = rs_tasks s k')"
    using Cons.prems ks by (cases ev) (auto simp: relay_handler_poll_def)
  then obtain s1 where st: "relay_system_step L (RsHandlerPoll cid k) s = Inr (s1, [])"
    and l1: "rs_links s1 cid = Some ?l" and t1: "\<And>k'. k' \<noteq> k \<Longrightarrow> rs_tasks s1 k' = rs_tasks s k'"
    by blast
  have "rs_tasks s1 k' = None" if "k' \<in> set ks'" for k'
  proof -
    from that Cons.prems(4) ks have "k' \<noteq> k"
      by auto
    with t1 that Cons.prems(5) ks show ?thesis
      by (simp add: list_all_iff)
  qed
  then have "list_all (\<lambda>k. rs_tasks s1 k = None) ks'"
    by (simp add: list_all_iff)
  with Cons.IH [OF l1, of ks'] Cons.prems(3,4) ks obtain s' where
    "run (relay_system_step L) (map (RsHandlerPoll cid) ks') s1 = Inr (s', [])"
    "rs_tasks s' (last ks') = Some (ConnectTask cid v info [] (relay_upgrade_outbound L v))"
    by auto
  with st ks \<open>ks' \<noteq> []\<close> show ?case by auto
qed

text \<open>
  A connect that the behaviour asked of a connected peer runs: once its notice is handed to a
  handler of that peer, as many polls of the handler as it has events queued, and one more, start
  the connect upgrade, with the addresses and the peer of the request.
\<close>

theorem relay_connect_runs:
  assumes "rs_notices s = relay_notice_of q # ns" and "rs_links s cid = Some l"
    and "lk_peer l = cr_dst_peer_id q"
    and "length ks = Suc (length (rh_pending_events (lk_handler l)))" and "distinct ks"
    and "list_all (\<lambda>k. rs_tasks s k = None) ks"
  shows "\<exists>s' v info. run (relay_system_step L) (RsNotify cid # map (RsHandlerPoll cid) ks) s = Inr (s', []) \<and>
     rs_tasks s' (last ks) = Some (ConnectTask cid v info [] (relay_upgrade_outbound L v)) \<and>
     v = relay_outbound_new (cr_dialer_addr q) (cr_dst_peer_id q) (cr_dst_addr q)"
proof -
  let ?v = "relay_outbound_new (cr_dialer_addr q) (cr_dst_peer_id q) (cr_dst_addr q)"
  let ?info = "\<lparr>oi_dst_addr = cr_dst_addr q, oi_dst_peer_id = cr_dst_peer_id q\<rparr>"
  let ?h = "rh_push (OutboundSubstreamRequest ?v ?info) (lk_handler l)"
  let ?s1 = "(set_handler cid l ?h s)\<lparr>rs_notices := ns\<rparr>"
  have st: "relay_system_step L (RsNotify cid) s = Inr (?s1, [])"
    using assms(1-3) by simp
  have "rs_links ?s1 cid = Some (l\<lparr>lk_handler := ?h\<rparr>)"
    by simp
  from handler_polls_reach [OF this _ assms(4,5)] assms(6) obtain s' where
    "run (relay_system_step L) (map (RsHandlerPoll cid) ks) ?s1 = Inr (s', [])"
    "rs_tasks s' (last ks) = Some (ConnectTask cid ?v ?info [] (relay_upgrade_outbound L ?v))"
    by (auto simp: rh_push_def)
  with st show ?thesis by auto
qed

lemma relay_example_noticed:
  "ends_with (run (relay_system_step raw_lib) (relay_example_listen @ relay_example_dial @ [RsPoll Pending])
       (relay_system_new (MpscTx 0)))
     (\<lambda>s log. rs_notices s = [relay_notice_of relay_example_request] \<and>
        (case rs_links s (ConnectionId 0) of None \<Rightarrow> False | Some l \<Rightarrow>
           lk_peer l = PeerId [7] \<and> rh_pending_events (lk_handler l) = []) \<and>
        (case rs_tasks s 2 of None \<Rightarrow> True | Some t \<Rightarrow> False))"
  by code_simp

theorem relay_connect_runs_witness:
  "\<exists>s log s' info. run (relay_system_step raw_lib)
       (relay_example_listen @ relay_example_dial @ [RsPoll Pending]) (relay_system_new (MpscTx 0)) = Inr (s, log) \<and>
     run (relay_system_step raw_lib) [RsNotify (ConnectionId 0), RsHandlerPoll (ConnectionId 0) 2] s = Inr (s', []) \<and>
     rs_tasks s' 2 = Some (ConnectTask (ConnectionId 0)
       (relay_outbound_new (Multiaddr [3]) (PeerId [7]) (Multiaddr [7, 1])) info []
       (relay_upgrade_outbound raw_lib (relay_outbound_new (Multiaddr [3]) (PeerId [7]) (Multiaddr [7, 1]))))"
proof -
  from relay_example_noticed obtain s log where
    r: "run (relay_system_step raw_lib) (relay_example_listen @ relay_example_dial @ [RsPoll Pending])
       (relay_system_new (MpscTx 0)) = Inr (s, log)"
    and n: "rs_notices s = relay_notice_of relay_example_request # []"
    and l: "case rs_links s (ConnectionId 0) of None \<Rightarrow> False | Some l \<Rightarrow>
      lk_peer l = PeerId [7] \<and> rh_pending_events (lk_handler l) = []"
    and t: "case rs_tasks s 2 of None \<Rightarrow> True | Some t \<Rightarrow> False"
    by (auto elim: ends_withE)
  from l obtain lk where lk: "rs_links s (ConnectionId 0) = Some lk" "lk_peer lk = cr_dst_peer_id relay_example_request"
    "rh_pending_events (lk_handler lk) = []"
    by (auto simp: relay_example_request_def split: option.splits)
  from t have "rs_tasks s 2 = None"
    by (simp split: option.splits)
  with relay_connect_runs [OF n lk(1,2), of "[2]" raw_lib] lk(3) r show ?thesis
    by (auto simp: relay_example_request_def)
qed

end
