(* ===== verification/Endpoint_Listens.thy ===== *)
theory Endpoint_Listens
  imports Endpoint_Bounds
begin

text \<open>
  Which listeners the endpoint talks about: from the transport's \<open>listen_on\<close> through the behaviour,
  the handlers and the reports back to the application, a listener id never changes its address and
  none is made up. A listener is the pair of its id and its address; \<open>N\<close> is the set of listeners
  that were asked for.
\<close>

section \<open>The listeners that data names\<close>

fun event_listens :: "'ls transport_to_behaviour_event \<Rightarrow> (listener_id \<times> multiaddr) set" where
  "event_listens (TListen lid local_peer_id a relay_peer_id relay_addr sender) = {(lid, a)}"
| "event_listens (TDial dst_peer_id dst_addr relay_addr relay_peer_id sender) = {}"

fun report_listens :: "behaviour_to_transport_event \<Rightarrow> (listener_id \<times> multiaddr) set" where
  "report_listens (BListenSuccess lid a) = {(lid, a)}"
| "report_listens (BListenFailed err lid a) = {(lid, a)}"
| "report_listens (BPeerClosed p a c) = {}"
| "report_listens (BDialFailed err p a) = {}"

fun info_listens :: "endpoint_open_info \<Rightarrow> (listener_id \<times> multiaddr) set" where
  "info_listens (InfoListen lid local_peer_id a) = {(lid, a)}"
| "info_listens (InfoDial sender) = {}"

abbreviation events_in :: "(listener_id \<times> multiaddr) set \<Rightarrow> 'ls transport_to_behaviour_event list \<Rightarrow> bool" where
  "events_in N evs \<equiv> list_all (\<lambda>e. event_listens e \<subseteq> N) evs"

abbreviation reports_in :: "(listener_id \<times> multiaddr) set \<Rightarrow> behaviour_to_transport_event list \<Rightarrow> bool" where
  "reports_in N evs \<equiv> list_all (\<lambda>e. report_listens e \<subseteq> N) evs"

definition queues_in ::
  "(listener_id \<times> multiaddr) set \<Rightarrow> (peer_id \<times> behaviour_to_transport_event list) list \<Rightarrow> bool" where
  "queues_in N qs \<longleftrightarrow> list_all (reports_in N \<circ> snd) qs"

definition behaviour_in ::
  "(listener_id \<times> multiaddr) set \<Rightarrow>
     ('ss, 'ls, behaviour_to_transport_event list) endpoint_behaviour \<Rightarrow> bool" where
  "behaviour_in N b \<longleftrightarrow> events_in N (eb_pending_t2b b) \<and>
     (\<forall>p evs. eb_wait b p = Some evs \<longrightarrow> events_in N evs) \<and>
     (\<forall>a l. eb_listeners b a = Some l \<longrightarrow> (ls_listener_id l, a) \<in> N) \<and>
     queues_in N (eb_pending_to_transport b) \<and> queues_in N (eb_to_transports b)"

lemma queues_in_simps [simp]:
  "queues_in N []" "queues_in N ((p, q) # qs) \<longleftrightarrow> reports_in N q \<and> queues_in N qs"
  by (auto simp: queues_in_def)

lemma queues_in_map_entry:
  "queues_in N qs \<Longrightarrow> reports_in N evs \<Longrightarrow> queues_in N (AList.map_entry p (\<lambda>q. q @ evs) qs)"
  by (induction qs) auto

lemma queues_in_update: "queues_in N qs \<Longrightarrow> reports_in N q \<Longrightarrow> queues_in N (AList.update p q qs)"
  by (induction qs) auto

lemma queues_in_lookup: "queues_in N qs \<Longrightarrow> map_of qs p = Some q \<Longrightarrow> reports_in N q"
  by (induction qs) (auto split: if_splits)

lemma behaviour_in_queue:
  "behaviour_in N b \<Longrightarrow> reports_in N evs \<Longrightarrow> behaviour_in N (queue_to_transport p evs b)"
  by (simp add: behaviour_in_def) (simp add: queue_to_transport_def queues_in_map_entry)

section \<open>The operations of the behaviour\<close>

lemma next_event_in:
  assumes "endpoint_next_event recv b = (b', r)" and "behaviour_in N b"
    and "\<And>e. recv = Ready (Some e) \<Longrightarrow> event_listens e \<subseteq> N"
  shows "behaviour_in N b' \<and> (\<forall>e. r = Inr (Some e) \<longrightarrow> event_listens e \<subseteq> N)"
proof (cases "\<exists>e. recv = Ready (Some e)")
  case True
  then obtain e where "recv = Ready (Some e)" and "event_listens e \<subseteq> N"
    using assms(3) by blast
  with assms(1,2) show ?thesis
    by (auto simp: endpoint_next_event_def Let_def behaviour_in_def split: if_splits option.splits)
next
  case False
  with assms(1,2) show ?thesis
    by (auto simp: endpoint_next_event_def behaviour_in_def
        split: poll.splits option.splits list.splits)
qed

lemma dispatch_in:
  assumes "endpoint_dispatch e b = (b', a)" and "behaviour_in N b" and "event_listens e \<subseteq> N"
  shows "behaviour_in N b' \<and> \<Union> (info_listens ` set_mset (lent_by (Emit a :: ('ss, _) emission))) \<subseteq> N"
  using assms by (cases e) (auto simp: behaviour_in_def split: if_splits)

lemma new_connections_in:
  "endpoint_new_connections L lops ncs b = Inr (b', act) \<Longrightarrow> behaviour_in N b \<Longrightarrow> behaviour_in N b'"
proof (induction ncs arbitrary: b)
  case Nil
  then show ?case by (auto simp: behaviour_in_def)
next
  case (Cons nc ncs)
  have listener: "behaviour_in N (set_listener_sender a tx t)" if "behaviour_in N t" for a tx t
    using that by (auto simp: behaviour_in_def set_listener_sender_def)
  show ?case
  proof (cases "eb_listeners b (nc_listen_addr nc)")
    case None
    with Cons.prems show ?thesis by (auto simp: behaviour_in_def)
  next
    case (Some l)
    show ?thesis
    proof (cases "offer_connection lops (ls_sender l) (nc_connection nc)")
      case (OfferTaken tx)
      have "(ls_listener_id l, nc_listen_addr nc) \<in> N"
        using Cons.prems(2) Some by (simp add: behaviour_in_def)
      with behaviour_in_queue [OF listener [OF Cons.prems(2)]] Cons.IH Cons.prems(1) Some OfferTaken
      show ?thesis by (auto split: if_splits)
    qed (use Cons.prems Some in
        \<open>auto simp: behaviour_in_def set_listener_sender_def split: if_splits\<close>)
  qed
qed

lemma flush_queue_in:
  "flush_queue (bounded_ops cap) q evs = FlushGoOn q' evs' \<Longrightarrow> reports_in N q \<Longrightarrow>
     reports_in N evs \<Longrightarrow> reports_in N q' \<and> reports_in N evs'"
  by (induction evs arbitrary: q) (auto simp: bounded_ops_def split: if_splits)

lemma flush_transports_in:
  "flush_transports L (bounded_ops cap) entries b = Inr (b', act) \<Longrightarrow> queues_in N entries \<Longrightarrow>
     behaviour_in N b \<Longrightarrow> behaviour_in N b'"
proof (induction entries arbitrary: b)
  case Nil
  then show ?case by simp
next
  case (Cons entry entries)
  obtain relay queue where entry: "entry = (relay, queue)"
    by fastforce
  from Cons.prems entry obtain tx where tx: "map_of (eb_to_transports b) relay = Some tx"
    by (auto split: option.splits)
  from live_flush_queue [OF bounded_ops_live] obtain tx' q' where
    q: "flush_queue (bounded_ops cap) tx queue = FlushGoOn tx' q'"
    by blast
  have "reports_in N tx"
    using Cons.prems(3) queues_in_lookup [OF _ tx] by (simp add: behaviour_in_def)
  with flush_queue_in [OF q, of N] Cons.prems(2) entry have "reports_in N tx'" and "reports_in N q'"
    by simp_all
  then have "behaviour_in N (b\<lparr>eb_to_transports := AList.update relay tx' (eb_to_transports b),
      eb_pending_to_transport := AList.update relay q' (eb_pending_to_transport b)\<rparr>)"
    using Cons.prems(3) by (simp add: behaviour_in_def queues_in_update)
  with Cons.IH Cons.prems(1,2) entry tx q show ?case by simp
qed

text \<open>The listener a handler's event or a received event names.\<close>

fun input_listens :: "('ss, 'ls) endpoint_input \<Rightarrow> (listener_id \<times> multiaddr) set" where
  "input_listens (EbPoll (Ready (Some e))) = event_listens e"
| "input_listens (EbHandler p c (EoListenSuccess relay lid local_peer_id a)) = {(lid, a)}"
| "input_listens (EbHandler p c (EoListenFailed err relay lid local_peer_id a)) = {(lid, a)}"
| "input_listens i = {}"

definition lent_in :: "(listener_id \<times> multiaddr) set \<Rightarrow> endpoint_open_info multiset \<Rightarrow> bool" where
  "lent_in N infos \<longleftrightarrow> \<Union> (info_listens ` set_mset infos) \<subseteq> N"

lemma lent_in_simps [simp]:
  "lent_in N {#}" "lent_in N (m + n) \<longleftrightarrow> lent_in N m \<and> lent_in N n"
  "lent_in N (add_mset x m) \<longleftrightarrow> info_listens x \<subseteq> N \<and> lent_in N m"
  by (auto simp: lent_in_def)

lemma endpoint_poll_in:
  fixes b :: "('ss, 'ls, behaviour_to_transport_event list) endpoint_behaviour"
  assumes "endpoint_poll L lops (bounded_ops cap) recv b = Inr (b', es, r)" and "behaviour_in N b"
    and "endpoint_quiet b" and "input_listens (EbPoll recv :: ('ss, 'ls) endpoint_input) \<subseteq> N"
  shows "behaviour_in N b' \<and> (\<forall>a. r = Ready a \<longrightarrow> lent_in N (lent_by (Emit a :: ('ss, _) emission)))"
proof -
  have first: "behaviour_in N b1 \<and> (\<forall>e. x = Inr (Some e) \<longrightarrow> event_listens e \<subseteq> N)"
    if "endpoint_next_event recv b = (b1, x)" for b1 x
    by (rule next_event_in [OF that assms(2)]) (use assms(4) in simp)
  from assms(1) show ?thesis
  proof (cases rule: endpoint_poll_cases)
    case (dial a)
    then have "\<exists>p addrs h. a = DialPeer p addrs h"
      by (auto simp: endpoint_next_event_def Let_def
          split: poll.splits option.splits list.splits if_splits)
    with first [OF dial(1)] dial show ?thesis by auto
  next
    case (dispatch event b1 a)
    with first [OF dispatch(1)] dispatch_in [OF dispatch(2), of N, where ?'ss = 'ss] show ?thesis
      by (simp add: lent_in_def)
  next
    case (offer b1 a)
    with first [OF offer(1)] new_connections_in [OF offer(2)] endpoint_new_connections_action [OF offer(2)]
    show ?thesis by auto
  next
    case (flush b1 b2 a)
    have "behaviour_in N b2"
      using first [OF flush(1)] new_connections_in [OF flush(2)] by blast
    with flush_transports_in [OF flush(3), of N] flush_transports_action [OF flush(3)] flush
    show ?thesis by (auto simp: behaviour_in_def)
  next
    case (actions b1 b2 b3)
    have "behaviour_in N b2"
      using first [OF actions(1)] new_connections_in [OF actions(2)] by blast
    with flush_transports_in [OF actions(3), of N] have "behaviour_in N b3"
      by (simp add: behaviour_in_def)
    moreover have "endpoint_quiet b3"
      using endpoint_next_event_frame [OF actions(1)] endpoint_new_connections_frame [OF actions(2)]
        flush_transports_frame [OF actions(3)] assms(3) endpoint_quiet_frame [of b3 b]
      by simp
    ultimately show ?thesis
      using actions(4)
      by (auto simp: endpoint_poll_actions_def endpoint_quiet_def behaviour_in_def split: list.splits)
  qed
qed

lemma fail_waiting_in:
  "events_in N evs \<Longrightarrow>
     reports_in N (map (fst \<circ> (fail_waiting L error :: _ \<Rightarrow> _ \<times> 'ss effect list)) evs)"
proof (induction evs)
  case (Cons e evs)
  then show ?case by (cases e) simp_all
qed simp

lemma on_handler_event_in:
  assumes "endpoint_on_handler_event e b = (b', es)" and "behaviour_in N b"
    and "input_listens (EbHandler p c e :: ('ss, 'ls) endpoint_input) \<subseteq> N"
  shows "behaviour_in N b'"
proof (cases e)
  case (EoListenSuccess relay lid q a)
  with assms behaviour_in_queue [OF assms(2), of "[BListenSuccess lid a]" relay] show ?thesis by auto
next
  case (EoListenFailed err relay lid q a)
  with assms behaviour_in_queue [OF assms(2), of "[BListenFailed err lid a]" relay] show ?thesis by auto
qed (use assms in \<open>auto simp: behaviour_in_def\<close>)

lemma behaviour_in_waiting:
  "behaviour_in N b \<Longrightarrow> behaviour_in N (b\<lparr>eb_wait := (eb_wait b)(p := None)\<rparr>)"
  by (auto simp: behaviour_in_def)

lemma on_swarm_event_in:
  fixes b :: "('ss, 'ls, behaviour_to_transport_event list) endpoint_behaviour"
  shows "endpoint_on_swarm_event L e b = (b', es :: 'ss effect list) \<Longrightarrow> behaviour_in N b \<Longrightarrow>
     behaviour_in N b'"
proof (induction L e b rule: endpoint_on_swarm_event.induct)
  case (1 L peer_id connection_id addr s)
  then show ?case
    by (auto simp: Let_def behaviour_in_def split: if_splits option.splits)
next
  case (2 L peer_id connection_id addr s)
  have "behaviour_in N (queue_to_transport peer_id [BPeerClosed peer_id addr connection_id] s)"
    using "2.prems" by (intro behaviour_in_queue) simp_all
  with "2.prems"(1) show ?case
    by (auto simp: Let_def behaviour_in_def split: option.splits)
next
  case (3 L peer_id error s)
  show ?case
  proof (cases "eb_wait s peer_id")
    case None
    with 3 show ?thesis by simp
  next
    case (Some evs)
    with "3.prems"(2) have "events_in N evs"
      by (simp add: behaviour_in_def)
    from behaviour_in_queue [OF behaviour_in_waiting [OF "3.prems"(2)] fail_waiting_in [OF this]]
      behaviour_in_waiting [OF "3.prems"(2)] "3.prems"(1) Some
    show ?thesis by (auto simp: Let_def split: if_splits)
  qed
qed simp_all

lemma endpoint_step_in:
  fixes b :: "('ss, 'ls, behaviour_to_transport_event list) endpoint_behaviour"
  assumes "endpoint_step L lops (bounded_ops cap) i b = Inr (b', os)" and "behaviour_in N b"
    and "endpoint_quiet b" and "input_listens i \<subseteq> N"
  shows "behaviour_in N b' \<and> lent_in N (sum_list (map lent_by os))"
proof (cases i)
  case (EbPoll recv)
  with assms(1) obtain es r where p: "endpoint_poll L lops (bounded_ops cap) recv b = Inr (b', es, r)"
    and os: "os = map Effect es @ (case r of Pending \<Rightarrow> [] | Ready a \<Rightarrow> [Emit a])"
    by (auto split: sum.splits prod.splits)
  have "sum_list (map lent_by (map Effect es)) = {#}"
    by (simp add: comp_def)
  with endpoint_poll_in [OF p assms(2,3)] assms(4) EbPoll os show ?thesis
    by (cases r) (simp_all add: comp_def)
next
  case (EbHandler p c e)
  with assms(1) obtain es where h: "endpoint_on_handler_event e b = (b', es)"
    and os: "os = map Effect es"
    by (auto split: prod.splits)
  from on_handler_event_in [OF h assms(2)] assms(4) EbHandler os show ?thesis
    by (simp add: comp_def)
next
  case (EbSwarm e)
  with assms(1) obtain es where h: "endpoint_on_swarm_event L e b = (b', es)"
    and os: "os = map Effect es"
    by (auto split: prod.splits)
  from on_swarm_event_in [OF h assms(2)] os show ?thesis
    by (simp add: comp_def)
qed

section \<open>The composed endpoint\<close>

fun call_listens :: "('ss, 'ls, 'lr) system_input \<Rightarrow> (listener_id \<times> multiaddr) set" where
  "call_listens (SyCall (TiListenOn conn_sender conn_receiver lid a)) = {(lid, a)}"
| "call_listens i = {}"

definition system_in ::
  "(listener_id \<times> multiaddr) set \<Rightarrow> ('ss, 'ls, 'lr) endpoint_system \<Rightarrow> bool" where
  "system_in N s \<longleftrightarrow> events_in N (et_to_behaviour (es_transport s)) \<and>
     events_in N (et_pending_to_behaviour (es_transport s)) \<and> behaviour_in N (es_behaviour s) \<and>
     lent_in N (es_lent s) \<and> endpoint_ledger_inv (es_behaviour s)"

text \<open>The listener that a transport event of a report names.\<close>

fun output_listens :: "'ss system_output \<Rightarrow> (listener_id \<times> multiaddr) set" where
  "output_listens (OutTransport (TrNewAddress lid a)) = {(lid, a)}"
| "output_listens ob = {}"

lemma transport_poll_in:
  fixes t :: "('ls, 'lr, 'ls transport_to_behaviour_event list, behaviour_to_transport_event list)
      endpoint_transport" and lrops :: "('lr, io_error + 'ss connection) receiver_ops"
  assumes "endpoint_transport_poll list_receiver (bounded_ops cap) lrops t = Some (Inr (t', ev))"
    and "reports_in N (et_from_behaviour t)"
  shows "reports_in N (et_from_behaviour t')"
    and "ev = Ready (TrNewAddress lid a) \<Longrightarrow> (lid, a) \<in> N"
proof -
  show "ev = Ready (TrNewAddress lid a) \<Longrightarrow> (lid, a) \<in> N"
  proof -
    assume ev: "ev = Ready (TrNewAddress lid a)"
    show ?thesis
    proof (cases "dropWhile ignored_report (et_from_behaviour t)")
      case (Cons e es)
      from endpoint_transport_poll_report [OF list_receiver_fifo list_receiver_live this,
          of "bounded_ops cap" lrops] assms(1) ev
      have "report_event e = Some (TrNewAddress lid a :: 'ss endpoint_transport_event)"
        by auto
      moreover have "e \<in> set (et_from_behaviour t)"
        using Cons by (metis list.set_intros(1) set_dropWhileD)
      ultimately show ?thesis
        using assms(2) by (cases e) (auto simp: list_all_iff)
    next
      case Nil
      have "drains_to (\<lambda>q. q) t (endpoint_drain list_receiver t :: ('ls, 'lr, _, _, 'ss) drained)"
        by (rule endpoint_drain_spec [OF list_receiver_fifo list_receiver_live])
      with Nil have "endpoint_drain list_receiver t =
          (Some (Inr (t\<lparr>et_from_behaviour := []\<rparr>, None)) :: ('ls, 'lr, _, _, 'ss) drained)"
        by (simp add: drains_to_def del: dropWhile_eq_Nil_conv)
      with assms(1) ev obtain t1 where
        "endpoint_poll_listener lrops t1 = (t', Ready (TrNewAddress lid a))"
        by (auto simp: endpoint_transport_poll_def split: sum.splits prod.splits poll.splits)
      then show ?thesis
        by (auto simp: endpoint_poll_listener_def endpoint_listener_poll_next_def
            split: option.splits prod.splits poll.splits sum.splits)
    qed
  qed
  show "reports_in N (et_from_behaviour t')"
  proof -
    obtain n where "et_from_behaviour t' = drop n (et_from_behaviour t)"
      using transport_poll_drops [OF assms(1)] by blast
    with assms(2) show ?thesis
      by (auto simp: list_all_iff dest: in_set_dropD)
  qed
qed

lemma transport_call_in:
  assumes "transport_step L rops tops lrops t i t'" and "i \<noteq> TiPoll"
    and "events_in N (et_pending_to_behaviour t)"
    and "call_listens (SyCall i :: ('ss, 'ls, 'lr) system_input) \<subseteq> N"
  shows "events_in N (et_pending_to_behaviour t')"
  using assms(1)
proof (cases rule: transport_step.cases)
  case (listen_on conn_sender conn_receiver lid a es r)
  with assms(3,4) show ?thesis
    by (auto simp: endpoint_listen_on_def split: option.splits)
next
  case (remove_listener lid b)
  with assms(3) show ?thesis
    by (auto simp: endpoint_remove_listener_def split: if_splits)
next
  case (dial conn a es r)
  with assms(3) show ?thesis
    by (auto simp: endpoint_dial_def split: option.splits)
next
  case (dial_as_listener a r)
  with assms(3) show ?thesis
    by (auto simp: endpoint_dial_as_listener_def)
next
  case (poll ev)
  with assms(2) show ?thesis by simp
qed

lemma returned_listens:
  "lent_in N infos \<Longrightarrow> returned e \<subseteq># infos \<Longrightarrow>
     input_listens (EbHandler p c e :: ('ss, 'ls) endpoint_input) \<subseteq> N"
proof -
  assume "lent_in N infos" and "returned e \<subseteq># infos"
  then have "lent_in N (returned e)"
    by (metis lent_in_simps(2) subset_mset.diff_add)
  then show ?thesis
    by (cases e) simp_all
qed

lemma lent_in_diff: "lent_in N m \<Longrightarrow> lent_in N (m - n)"
  by (auto simp: lent_in_def dest: in_diffD)

lemma system_step_in:
  fixes s :: "('ss, 'ls, 'lr) endpoint_system"
  assumes "system_step L cap lops lrops s i s' os" and sys: "system_in N s" and "call_listens i \<subseteq> N"
  shows "system_in N s' \<and> \<Union> (output_listens ` set os) \<subseteq> N"
proof -
  have ledger: "endpoint_ledger_inv (es_behaviour s')"
    using system_step_balance [OF assms(1)] sys by (simp add: system_in_def)
  have quiet: "endpoint_quiet (es_behaviour s)"
    using sys by (simp add: system_in_def endpoint_ledger_inv_def)
  have silent: "\<Union> (output_listens ` set (map OutBehaviour es)) = {}"
    for es :: "('ss, endpoint_action) emission list"
    by auto
  from assms(1) show ?thesis
  proof (cases rule: system_step.cases)
    case (call i' t')
    with transport_call_in [OF call(5,4), of N, where ?'ss = 'ss] transport_call_channel [OF call(5,4)]
      assms(3) sys show ?thesis
      by (simp add: system_in_def)
  next
    case (transport_poll relay q t' ev)
    let ?t = "(es_transport s)\<lparr>et_from_behaviour := q\<rparr>"
    have q: "reports_in N (et_from_behaviour ?t)"
      using sys queues_in_lookup [OF _ transport_poll(5)] by (simp add: system_in_def behaviour_in_def)
    have "asked (\<lambda>q. q) t' = asked (\<lambda>q. q) ?t"
      using endpoint_transport_poll_asked [OF transport_poll(6) bounded_ops_fifo list_receiver_fifo
          list_receiver_live] by blast
    with sys have "events_in N (asked (\<lambda>q. q) t')"
      by (simp add: asked_def system_in_def)
    moreover have "behaviour_in N (set_reports relay (et_from_behaviour t') (es_behaviour s))"
      using transport_poll_in(1) [OF transport_poll(6) q] sys
      by (simp add: system_in_def behaviour_in_def) (simp add: set_reports_def queues_in_update)
    moreover have "\<Union> (output_listens ` set os) \<subseteq> N"
    proof (cases ev)
      case (Ready e)
      with transport_poll_in(2) [OF transport_poll(6) q] transport_poll(3) show ?thesis
        by (cases e) simp_all
    qed (use transport_poll(3) in simp)
    ultimately show ?thesis
      using transport_poll sys ledger by (simp add: system_in_def asked_def)
  next
    case (poll recv q b' os')
    have "events_in N q" and "input_listens (EbPoll recv :: ('ss, 'ls) endpoint_input) \<subseteq> N"
      using poll(4) sys by (auto simp: system_in_def list_receiver_def split: list.splits)
    with endpoint_step_in [OF poll(5) _ quiet] poll sys ledger silent [of os'] show ?thesis
      by (simp add: system_in_def)
  next
    case (handler e p c b' os')
    have "input_listens (EbHandler p c e :: ('ss, 'ls) endpoint_input) \<subseteq> N"
      using sys by (intro returned_listens [OF _ handler(4)]) (simp add: system_in_def)
    with handler endpoint_step_in [OF handler(5) _ quiet] sys ledger silent [of os'] show ?thesis
      by (simp add: system_in_def lent_in_diff)
  next
    case (swarm e b' os')
    with endpoint_step_in [OF swarm(4) _ quiet] sys ledger silent [of os'] show ?thesis
      by (simp add: system_in_def)
  next
    case (lose info)
    with sys ledger show ?thesis
      by (auto simp: system_in_def lent_in_diff)
  qed
qed

text \<open>
  C24: Every address the application is told it listens on is one it asked for: in every
  interleaving, a \<open>NewAddress\<close> event carries the id and the address of an earlier \<open>listen_on\<close>, the id
  never with another address.
\<close>

theorem system_addresses_asked_for:
  fixes "is" :: "('ss, 'ls, 'lr) system_input list"
  assumes "system_run L cap lops lrops (endpoint_system_new me relay_addr relay) is s os"
    and "OutTransport (TrNewAddress lid a) \<in> set os"
  shows "\<exists>conn_sender conn_receiver. SyCall (TiListenOn conn_sender conn_receiver lid a) \<in> set is"
proof -
  define N where "N = \<Union> (call_listens ` set is)"
  have run: "\<Union> (output_listens ` set os') \<subseteq> N"
    if "system_run L cap lops lrops s0 js t os'" "system_in N s0" "\<Union> (call_listens ` set js) \<subseteq> N"
    for s0 js t os'
    using that
  proof (induction rule: system_run.induct)
    case (system_more s i s1 os1 "is" s2 os2)
    with system_step_in [OF system_more(1,4)] show ?case by auto
  qed simp
  have "system_in N (endpoint_system_new me relay_addr relay :: ('ss, 'ls, 'lr) endpoint_system)"
    using endpoint_ledger_inv_new [of "[(relay, [])]" me]
    by (simp add: system_in_def) (simp add: behaviour_in_def endpoint_behaviour_new_def)
  from run [OF assms(1) this] assms(2) have "(lid, a) \<in> N"
    by (fastforce simp: N_def)
  then obtain i where "i \<in> set is" and "(lid, a) \<in> call_listens i"
    by (auto simp: N_def)
  then show ?thesis
    by (cases i rule: call_listens.cases) auto
qed

theorem system_addresses_asked_for_witness:
  "\<exists>conn_sender conn_receiver.
     SyCall (TiListenOn conn_sender conn_receiver (ListenerId 1) (Multiaddr [1])) \<in> set example_listen_inputs"
proof -
  obtain os where r: "system_run raw_lib 1 open_ops list_receiver
      (endpoint_system_new (PeerId [1]) (Multiaddr [9]) (PeerId [9])) example_listen_inputs
      (example_system [] [] example_listening {#}) os"
    and "OutTransport (TrNewAddress (ListenerId 1) (Multiaddr [1])) \<in> set os"
    using example_listen_run by blast
  then show ?thesis
    by (rule system_addresses_asked_for)
qed

end
