(* ===== verification/Endpoint_Progress.thy ===== *)
theory Endpoint_Progress
  imports Endpoint_System
begin

text \<open>
  The composed endpoint makes progress: once the relay is connected, what the application asked of
  the transport reaches a handler of the relay within a number of polls that the queues bound.
\<close>

section \<open>The transport hands over its queue\<close>








section \<open>The behaviour passes it on\<close>










end
