(* ===== verification/Spec2Isabelle.thy ===== *)
theory Spec2Isabelle
  imports Shortcomings Endpoint_Handshakes Relay_Progress Endpoint_Listens Endpoint_Progress
begin

text \<open>
  A model of \<open>libp2p-auto-relay\<close>: peers that cannot be reached directly (endpoints) announce
  themselves at a relay, and other endpoints dial them through it.

  The program and how its parts interact. An endpoint has a transport
  (\<open>src/endpoint/transport.rs\<close>) and a behaviour (\<open>src/endpoint/behaviour.rs\<close>) joined by two bounded
  channels. A dial or a listen becomes an event for the behaviour, which connects to the relay if
  need be and passes the event to a handler (\<open>src/endpoint/handler.rs\<close>) of a connection to the
  relay; the handler opens a substream and runs an upgrade (\<open>src/endpoint/upgrade\<close>) on it. The
  relay's handler (\<open>src/relay/handler.rs\<close>) runs the other half (\<open>src/relay/upgrade\<close>): a listen is
  recorded by the relay's behaviour (\<open>src/relay/behaviour.rs\<close>); a dial waits until the behaviour
  has asked the destination's handler to connect, the destination has accepted, and the behaviour
  has answered the dial with the new connection; then the behaviour copies bytes between the two.
  A finished handshake is a connection (\<open>src/connection.rs\<close>) that first gives the bytes the codec
  had read ahead. \<open>src/combine.rs\<close> is independent: it makes one transport of two.

  The theories, in the order of their imports.
  \<^item> \<open>Prelude\<close>: identifiers, errors, the third-party functions \<open>lib\<close>, machines and their runs, and
    the contracts of the components as locales.
  \<^item> \<open>Connection\<close>: \<open>src/connection.rs\<close>, one definition per operation. Reads refine the stream
    \<open>buffer @ substream\<close>; the vectored read equals the contiguous read where it returns, and its
    panics are characterised.
  \<^item> \<open>Channels\<close>: wakers, \<open>oneshot\<close> senders and the halves of \<open>mpsc\<close> channels, with their documented
    behaviour as named predicates.
  \<^item> \<open>Proto\<close>: the messages of \<open>proto/auto_relay.proto\<close> and the constants of \<open>src/lib.rs\<close>.
  \<^item> \<open>Async_Upgrade\<close>: an \<open>async\<close> function as the tree of its awaits, and its runs. The environment
    chooses every answer, so a statement about all runs covers every schedule and every failure.
  \<^item> \<open>Relay_Upgrade\<close>, \<open>Endpoint_Upgrade\<close>: the upgrades of both sides; which runs succeed, which
    responses are sent, which requests are refused.
  \<^item> \<open>Handshake\<close>: both sides of each handshake at once.
  \<^item> \<open>Swarm\<close>: the events and actions of the swarm that the program matches on or builds.
  \<^item> \<open>Relay_Handler\<close>, \<open>Relay_Behaviour\<close>: the relay. Handlers are queues (\<open>fifo_queue\<close>); the behaviour
    is a machine whose senders balance (\<open>ledger\<close>) and whose events stay in order
    (\<open>ordered_ledger\<close>).
  \<^item> \<open>Relay_System\<close>: the relay's behaviour, its handlers and the upgrades that run on their
    substreams, joined by the channel of requests and the \<open>oneshot\<close> channels, with every
    interleaving (\<open>relay_system_step\<close>). A run of it contains a run of the behaviour, its queues and
    upgrades stay consistent, and nothing panics. \<open>Relay_Provenance\<close>: what handlers report is the
    result of upgrades that ran, and every \<open>oneshot\<close> belongs to one dial. \<open>Relay_Joining\<close>: the relay
    joins a dialer only to the peer it named, forgets no dialer, and takes only announced peers to
    be listening; what becomes of peers that announce another or leave; the end-to-end statement
    over both handshakes. \<open>Relay_Progress\<close>: polls of the relay serve the requests that wait in its
    channel, and a connect passed to a handler starts its upgrade.
  \<^item> \<open>Endpoint_Event\<close>, \<open>Endpoint_Handler\<close>, \<open>Endpoint_Behaviour\<close>: the endpoint's events, its handler
    (\<open>woken_queue\<close>) and its behaviour with the state invariant \<open>endpoint_inv\<close>.
  \<^item> \<open>Endpoint_Safety\<close> (panics), \<open>Endpoint_Dials\<close> (the senders of dials, dialing a relay),
    \<open>Endpoint_Delivery\<close> (connections to listeners, reports to transports, wakeups): what runs of
    the endpoint's behaviour do.
  \<^item> \<open>Transport\<close>: the interface of transports, with the contracts of listening
    (\<open>listening_transport\<close>) and of a dial's future (\<open>future\<close>).
  \<^item> \<open>Endpoint_Transport\<close>: the endpoint's transport; its polls return, its dials reach the behaviour
    once and in order.
  \<^item> \<open>Endpoint_System\<close>: transport and behaviour joined by their two channels, of any capacity, with
    every interleaving (\<open>system_step\<close>, \<open>system_run\<close>): every dial is accounted for, and while the
    handlers' connections are to the relay no operation panics or hangs. \<open>Endpoint_Bounds\<close>: the
    channels keep to their capacity, since their senders ask for room first. \<open>Endpoint_Listens\<close>:
    the addresses reported to the application are those it asked for. \<open>Endpoint_Progress\<close>: once the
    relay is connected, every request reaches a handler within a number of polls that the queues
    bound, whatever the capacity of the channel.
  \<^item> \<open>Endpoint_Wires\<close>: the endpoint's handlers, the upgrades on their substreams, and the events on
    their way to and from them (\<open>wire_step\<close>): what was lent to them is never lost but with its
    connection, and nothing panics. \<open>Endpoint_Node\<close>: the whole endpoint (\<open>node_step\<close>, \<open>node_run\<close>),
    which refines \<open>Endpoint_System\<close> with its handlers for the environment. \<open>Endpoint_Provenance\<close>,
    \<open>Endpoint_Outcomes\<close>: what it tells the application comes from upgrades that ran, for what the
    application asked. \<open>Endpoint_Runs\<close>: it never gets stuck while its connections are to the relay,
    and a run of it from a listen and a dial to their answers. \<open>Endpoint_Handshakes\<close>: a dial or a
    listen handed to an idle handler ends with one outcome.
    \<open>Network\<close>: a dial through two endpoints and the relay, each as a whole.
  \<^item> \<open>Combine\<close>: the combined transport; its dial is as prompt as the faster one and fails only when
    both do.
  \<^item> \<open>Shortcomings\<close>: where the code does less than it means to: a peer that is no relay makes the
    endpoint panic, a second connection to a relay is forgotten, an accepted connection is reported
    as another address, a poll returns \<open>Pending\<close> while there is work and nothing will wake it.

  How the model corresponds to the code. A struct is a record with the struct's fields, an
  enumeration a datatype with its variants; each definition has the name of the function it
  translates, with the component as a prefix. An operation takes the state and returns the new
  state, the calls on third-party objects in their order (\<open>effect\<close>), and the result; a panic is the
  left side of a sum. A \<open>HashMap\<close> that is only looked up is a map; one that is iterated over is an
  association list, whose order the statements leave open. Bytes are 8-bit words, the count of
  copied bytes a 64-bit word that wraps. A waker has no field: waking and registering are effects.

  Loops and bounds. Loops over a queue are structural recursion. The transport's loop over reports
  is a partial function, since it ends only because the channel does; \<open>endpoint_drain_spec\<close> proves
  that it ends whenever the channel holds finitely many reports and the behaviour is alive.
  \<open>await_within n\<close> polls a future at most \<open>n\<close> times; the statements that use it are for every
  \<open>n\<close>, so no bound is chosen. The random order in which a combined dial polls its two futures is
  an infinite sequence of choices, and the statements hold for all of them.

  Assumptions. They are always about third-party code and named: \<open>byte_source\<close> (a substream read
  returns the next bytes), \<open>fifo_sender\<close>, \<open>live_sender\<close>, \<open>fifo_receiver\<close>, \<open>live_receiver\<close> (channels
  keep their order, and are open while the other half lives), \<open>lib_roundtrip\<close> (identifiers survive
  printing and parsing), \<open>delivers\<close> (a substream delivers messages in order),
  \<open>ends_when_empty\<close>, \<open>copies_by_reading\<close>, \<open>writes_nothing\<close> (a read gives nothing only at the end,
  \<open>io::copy\<close> reads to the end and writes what it read, flushing and closing write no data). Each has
  a concrete instance, which the witnesses use. In the composed endpoint the two channels are
  concrete (\<open>bounded_ops\<close>, \<open>list_receiver\<close>), and only the listeners' channels stay assumptions.
  In the composed relay every channel is concrete; the swarm, which is not, may do whatever
  \<open>relay_system_input\<close> lists, in any order, and may lose an event for a handler.

  Not modelled. \<open>src/build.rs\<close> and the module files \<open>mod.rs\<close> hold no behaviour of their own;
  \<open>src/tests/main.rs\<close> is a test that needs a network. Logging and \<open>Debug\<close> output are left out. The
  wire format of messages (\<open>prost_codec\<close>), the swarm, the executor, \<open>FuturesUnordered\<close>, channels and
  wakers are third-party: their answers are inputs or parameters.
\<close>

end
